(* ===== verification/Go_Prelude.thy ===== *)
theory Go_Prelude
  imports Main "HOL-Library.Word" "HOL-Library.Code_Target_Nat"
begin

text \<open>
  What the Go sources share: byte strings, the outcome of a Go function that can return an
  error or panic, slice and big-endian accesses of \<^verbatim>\<open>encoding/binary\<close>, and the functions of
  \<^verbatim>\<open>strings\<close> and \<^verbatim>\<open>strconv\<close> the plugins call. Go strings and byte slices are finite
  byte sequences: wire data is a \<open>byte list\<close>, text is a \<open>string\<close> whose characters
  are the bytes of its UTF-8 form.
\<close>

unbundle bit_operations_syntax

type_synonym byte = "8 word"
type_synonym u16 = "16 word"
type_synonym u32 = "32 word"
type_synonym u64 = "64 word"
type_synonym wire = "byte list"

named_theorems go_defs \<open>definitions of the Go run time and library that proofs unfold\<close>
named_theorems no_panic \<open>facts that an access or a call stays in range\<close>

text \<open>Offsets stay in the form \<open>n + k\<close>.\<close>

declare add_2_eq_Suc [simp del] add_2_eq_Suc' [simp del]

lemma add_numeral_assoc [simp]: "(n :: nat) + numeral a + numeral b = n + numeral (a + b)"
  and Suc_add_numeral [simp]: "Suc (n + numeral a) = n + numeral (a + num.One)"
  by simp_all

section \<open>Outcomes\<close>

text \<open>
  A Go call returns a value, returns an error, or panics (an index or slice expression out
  of range). \<open>Panic\<close> is a value of the model, so that its absence is a theorem.
\<close>

datatype ('e, 'a) res = Ok 'a | Err 'e | Panic

fun rbind :: "('e, 'a) res \<Rightarrow> ('a \<Rightarrow> ('e, 'b) res) \<Rightarrow> ('e, 'b) res" where
  "rbind (Ok a) f = f a"
| "rbind (Err e) f = Err e"
| "rbind Panic f = Panic"

fun is_ok :: "('e, 'a) res \<Rightarrow> bool" where
  "is_ok (Ok a) = True"
| "is_ok (Err e) = False"
| "is_ok Panic = False"

lemma rbind_eq_Ok [simp]: "rbind m f = Ok b \<longleftrightarrow> (\<exists>a. m = Ok a \<and> f a = Ok b)"
  by (cases m) auto

lemma rbind_eq_Panic: "rbind m f = Panic \<longleftrightarrow> m = Panic \<or> (\<exists>a. m = Ok a \<and> f a = Panic)"
  by (cases m) auto

lemma rbind_not_Panic [no_panic]:
  "m \<noteq> Panic \<Longrightarrow> (\<And>a. m = Ok a \<Longrightarrow> f a \<noteq> Panic) \<Longrightarrow> rbind m f \<noteq> Panic"
  by (cases m) auto

lemma rbind_cong [fundef_cong]:
  "m = m' \<Longrightarrow> (\<And>a. m' = Ok a \<Longrightarrow> f a = f' a) \<Longrightarrow> rbind m f = rbind m' f'"
  by (cases m') auto

section \<open>Slices\<close>

text \<open>
  Index and slice expressions. A Go slice expression may run past the length up to the
  capacity; the model panics there already, so that absence of \<open>Panic\<close> also says that no
  byte beyond the length is read.
\<close>

definition idx :: "'a list \<Rightarrow> nat \<Rightarrow> ('e, 'a) res" where
  "idx xs i = (if i < length xs then Ok (xs ! i) else Panic)"

definition slice :: "'a list \<Rightarrow> nat \<Rightarrow> nat \<Rightarrow> ('e, 'a list) res" where
  "slice xs lo hi = (if lo \<le> hi \<and> hi \<le> length xs then Ok (take (hi - lo) (drop lo xs)) else Panic)"

text \<open>\<^verbatim>\<open>copy(dst[at:], src)\<close> where the source fits.\<close>

definition put_at :: "'a list \<Rightarrow> nat \<Rightarrow> 'a list \<Rightarrow> ('e, 'a list) res" where
  "put_at xs at ys =
     (if at + length ys \<le> length xs then Ok (take at xs @ ys @ drop (at + length ys) xs) else Panic)"

lemma idx_Ok [simp]: "i < length xs \<Longrightarrow> idx xs i = Ok (xs ! i)"
  by (simp add: idx_def)

lemma slice_Ok [simp]:
  "lo \<le> hi \<Longrightarrow> hi \<le> length xs \<Longrightarrow> slice xs lo hi = Ok (take (hi - lo) (drop lo xs))"
  by (simp add: slice_def)

lemma put_at_Ok [simp]:
  "at + length ys \<le> length xs \<Longrightarrow> put_at xs at ys = Ok (take at xs @ ys @ drop (at + length ys) xs)"
  by (simp add: put_at_def)

lemma idx_eq_Ok: "idx xs i = Ok b \<longleftrightarrow> i < length xs \<and> b = xs ! i"
  by (auto simp: idx_def)

lemma slice_eq_Ok:
  "slice xs lo hi = Ok ys \<longleftrightarrow> lo \<le> hi \<and> hi \<le> length xs \<and> ys = take (hi - lo) (drop lo xs)"
  by (auto simp: slice_def)

lemma put_at_eq_Ok:
  "put_at xs at ys = Ok zs \<longleftrightarrow>
     at + length ys \<le> length xs \<and> zs = take at xs @ ys @ drop (at + length ys) xs"
  by (auto simp: put_at_def)

lemma put_at_length: "put_at xs at ys = Ok zs \<Longrightarrow> length zs = length xs"
  by (auto simp: put_at_eq_Ok)

text \<open>The slice as a list: the elements at positions \<open>lo .. hi - 1\<close>.\<close>

definition seg :: "'a list \<Rightarrow> nat \<Rightarrow> nat \<Rightarrow> 'a list" where
  "seg xs lo hi = take (hi - lo) (drop lo xs)"

lemma length_seg [simp]: "length (seg xs lo hi) = min (hi - lo) (length xs - lo)"
  by (simp add: seg_def)

lemma seg_0: "seg xs 0 hi = take hi xs"
  by (simp add: seg_def)

lemma nth_seg: "lo + i < hi \<Longrightarrow> hi \<le> length xs \<Longrightarrow> seg xs lo hi ! i = xs ! (lo + i)"
  by (simp add: seg_def)

lemma seg_cong:
  "(\<And>i. lo \<le> i \<Longrightarrow> i < hi \<Longrightarrow> xs ! i = ys ! i) \<Longrightarrow> hi \<le> length xs \<Longrightarrow> hi \<le> length ys \<Longrightarrow>
    seg xs lo hi = seg ys lo hi"
  by (rule nth_equalityI) (auto simp: nth_seg)

lemma seg_split:
  assumes "lo \<le> m" and "m \<le> hi"
  shows "seg xs lo hi = seg xs lo m @ seg xs m hi"
proof -
  from assms have "seg xs lo hi = take ((m - lo) + (hi - m)) (drop lo xs)"
    by (simp add: seg_def)
  also from assms have "\<dots> = seg xs lo m @ seg xs m hi"
    by (simp only: take_add drop_drop) (simp add: seg_def)
  finally show ?thesis .
qed

lemma seg_single: "lo < length xs \<Longrightarrow> seg xs lo (Suc lo) = [xs ! lo]"
  by (simp add: seg_def take_Suc_conv_app_nth Cons_nth_drop_Suc flip: Cons_nth_drop_Suc)

lemma seg_append_left: "hi \<le> length xs \<Longrightarrow> seg (xs @ ys) lo hi = seg xs lo hi"
  by (simp add: seg_def)

lemma seg_append_right: "length xs \<le> lo \<Longrightarrow> seg (xs @ ys) lo hi = seg ys (lo - length xs) (hi - length xs)"
  by (simp add: seg_def)

section \<open>Big-endian integers\<close>

definition be16_of :: "wire \<Rightarrow> u16" where
  "be16_of bs = (case bs of [a, b] \<Rightarrow> push_bit 8 (ucast a) OR ucast b | _ \<Rightarrow> 0)"

definition be32_of :: "wire \<Rightarrow> u32" where
  "be32_of bs = (case bs of
     [a, b, c, d] \<Rightarrow> push_bit 24 (ucast a) OR push_bit 16 (ucast b) OR push_bit 8 (ucast c) OR ucast d
   | _ \<Rightarrow> 0)"

definition be16_bytes :: "u16 \<Rightarrow> wire" where
  "be16_bytes w = [ucast (drop_bit 8 w), ucast w]"

definition be32_bytes :: "u32 \<Rightarrow> wire" where
  "be32_bytes w = [ucast (drop_bit 24 w), ucast (drop_bit 16 w), ucast (drop_bit 8 w), ucast w]"

text \<open>\<^verbatim>\<open>binary.BigEndian.Uint16(xs[i:i+2])\<close> and its kin.\<close>

definition be16 :: "wire \<Rightarrow> nat \<Rightarrow> ('e, u16) res" where
  "be16 xs i = rbind (slice xs i (i + 2)) (\<lambda>bs. Ok (be16_of bs))"

definition be32 :: "wire \<Rightarrow> nat \<Rightarrow> ('e, u32) res" where
  "be32 xs i = rbind (slice xs i (i + 4)) (\<lambda>bs. Ok (be32_of bs))"

definition put_be16 :: "wire \<Rightarrow> nat \<Rightarrow> u16 \<Rightarrow> ('e, wire) res" where
  "put_be16 xs i w = put_at xs i (be16_bytes w)"

definition put_be32 :: "wire \<Rightarrow> nat \<Rightarrow> u32 \<Rightarrow> ('e, wire) res" where
  "put_be32 xs i w = put_at xs i (be32_bytes w)"

lemma length_be16_bytes [simp]: "length (be16_bytes w) = 2"
  by (simp add: be16_bytes_def)

lemma length_be32_bytes [simp]: "length (be32_bytes w) = 4"
  by (simp add: be32_bytes_def)

lemma be16_of_plus: "be16_of [a, b] = 256 * ucast a + ucast b"
proof -
  have "(push_bit 8 (ucast a) :: u16) AND ucast b = 0"
    by (rule bit_word_eqI) (auto simp: bit_simps dest: bit_imp_le_length)
  then show ?thesis
    by (simp add: be16_of_def push_bit_eq_mult flip: disjunctive_add_eq_or)
qed

lemma be32_of_plus: "be32_of [a, b, c, d] = 2 ^ 24 * ucast a + (2 ^ 16 * ucast b + (2 ^ 8 * ucast c + ucast d))"
proof -
  have disj: "push_bit 8 (ucast c :: u32) AND ucast d = 0"
    "push_bit 16 (ucast b :: u32) AND (push_bit 8 (ucast c) OR ucast d) = 0"
    "push_bit 24 (ucast a :: u32) AND (push_bit 16 (ucast b) OR (push_bit 8 (ucast c) OR ucast d)) = 0"
    by (rule bit_word_eqI; auto simp: bit_simps dest: bit_imp_le_length)+
  show ?thesis
    unfolding be32_of_def using disj
    by (simp only: list.case disjunctive_add_eq_or [OF disj(1), symmetric]
      disjunctive_add_eq_or [OF disj(2), symmetric] disjunctive_add_eq_or [OF disj(3), symmetric])
      (simp add: push_bit_eq_mult disjunctive_add_eq_or mult.commute)
qed

lemma be16_of_code [code]:
  "be16_of bs = (case bs of [a, b] \<Rightarrow> word_of_int (256 * uint a + uint b) | _ \<Rightarrow> 0)"
proof -
  have "be16_of [a, b] = word_of_int (256 * uint a + uint b)" for a b
    by (simp add: be16_of_plus)
  then show ?thesis by (simp add: be16_of_def split: list.split)
qed

lemma be32_of_code [code]:
  "be32_of bs = (case bs of [a, b, c, d] \<Rightarrow>
     word_of_int (16777216 * uint a + 65536 * uint b + 256 * uint c + uint d) | _ \<Rightarrow> 0)"
proof -
  have "be32_of [a, b, c, d] = word_of_int (16777216 * uint a + 65536 * uint b + 256 * uint c + uint d)" for a b c d
    by (simp add: be32_of_plus)
  then show ?thesis by (simp add: be32_of_def split: list.split)
qed

lemma unat_be16_of: "unat (be16_of [a, b]) = 256 * unat a + unat b"
proof -
  have "unat a < 256" "unat b < 256" using unsigned_less [of a] unsigned_less [of b] by auto
  then show ?thesis
    by (simp add: be16_of_plus unat_word_ariths unsigned_ucast_eq take_bit_nat_eq_self)
qed

lemma unat_word_of_nat: "n < 2 ^ LENGTH('a::len) \<Longrightarrow> unat (word_of_nat n :: 'a word) = n"
  by (simp add: unsigned_of_nat take_bit_nat_eq_self)

lemma be16_of_bytes [simp]: "be16_of (be16_bytes w) = w"
  by (rule bit_word_eqI) (auto simp: be16_of_def be16_bytes_def bit_simps)

lemma be16_bytes_of: "be16_bytes (be16_of [a, b]) = [a, b]"
proof -
  have "(ucast (drop_bit 8 (be16_of [a, b])) :: byte) = a" and "(ucast (be16_of [a, b]) :: byte) = b"
    by (rule bit_word_eqI; auto simp: be16_of_def bit_simps dest: bit_imp_le_length)+
  then show ?thesis by (simp add: be16_bytes_def)
qed

lemma be32_of_bytes [simp]: "be32_of (be32_bytes w) = w"
proof (rule bit_word_eqI)
  fix n
  assume "n < LENGTH(32)"
  then show "bit (be32_of (be32_bytes w)) n = bit w n"
    by (cases "n < 8"; cases "n < 16"; cases "n < 24") (auto simp: be32_of_def be32_bytes_def bit_simps)
qed

lemma be16_Ok [simp]: "i + 2 \<le> length xs \<Longrightarrow> be16 xs i = Ok (be16_of (seg xs i (i + 2)))"
  by (simp add: be16_def seg_def)

lemma be32_Ok [simp]: "i + 4 \<le> length xs \<Longrightarrow> be32 xs i = Ok (be32_of (seg xs i (i + 4)))"
  by (simp add: be32_def seg_def)

lemma idx_not_Panic [no_panic]: "i < length xs \<Longrightarrow> idx xs i \<noteq> Panic"
  by simp

lemma slice_not_Panic [no_panic]: "lo \<le> hi \<Longrightarrow> hi \<le> length xs \<Longrightarrow> slice xs lo hi \<noteq> Panic"
  by simp

lemma be16_not_Panic [no_panic]: "i + 2 \<le> length xs \<Longrightarrow> be16 xs i \<noteq> Panic"
  by simp

lemma be32_not_Panic [no_panic]: "i + 4 \<le> length xs \<Longrightarrow> be32 xs i \<noteq> Panic"
  by simp

lemma put_at_not_Panic [no_panic]: "at + length ys \<le> length xs \<Longrightarrow> put_at xs at ys \<noteq> Panic"
  by simp

lemma put_be16_not_Panic [no_panic]: "i + 2 \<le> length xs \<Longrightarrow> put_be16 xs i w \<noteq> Panic"
  by (simp add: put_be16_def)

lemma put_be32_not_Panic [no_panic]: "i + 4 \<le> length xs \<Longrightarrow> put_be32 xs i w \<noteq> Panic"
  by (simp add: put_be32_def)

lemma be16_eq_Ok: "be16 xs i = Ok w \<longleftrightarrow> i + 2 \<le> length xs \<and> w = be16_of (seg xs i (i + 2))"
  by (auto simp: be16_def seg_def slice_eq_Ok)

lemma be32_eq_Ok: "be32 xs i = Ok w \<longleftrightarrow> i + 4 \<le> length xs \<and> w = be32_of (seg xs i (i + 4))"
  by (auto simp: be32_def seg_def slice_eq_Ok)

section \<open>Agreement of two byte strings on a range\<close>

text \<open>
  \<open>agree xs ys lo hi\<close>: both reach \<open>hi\<close> and hold the same bytes at \<open>lo .. hi - 1\<close>. A
  parser that reads only this range gives the same result on both.
\<close>

definition agree :: "'a list \<Rightarrow> 'a list \<Rightarrow> nat \<Rightarrow> nat \<Rightarrow> bool" where
  "agree xs ys lo hi \<longleftrightarrow>
     hi \<le> length xs \<and> hi \<le> length ys \<and> (\<forall>i. lo \<le> i \<and> i < hi \<longrightarrow> xs ! i = ys ! i)"

lemma agree_sym: "agree xs ys lo hi \<Longrightarrow> agree ys xs lo hi"
  by (simp add: agree_def)

lemma agree_mono: "agree xs ys lo hi \<Longrightarrow> lo \<le> lo' \<Longrightarrow> hi' \<le> hi \<Longrightarrow> agree xs ys lo' hi'"
  by (auto simp: agree_def)

lemma agree_nth: "agree xs ys lo hi \<Longrightarrow> lo \<le> i \<Longrightarrow> i < hi \<Longrightarrow> xs ! i = ys ! i"
  by (simp add: agree_def)

lemma agree_seg: "agree xs ys lo hi \<Longrightarrow> lo \<le> a \<Longrightarrow> b \<le> hi \<Longrightarrow> seg xs a b = seg ys a b"
  by (rule seg_cong) (auto simp: agree_def)

lemma agree_append [simp]: "hi \<le> length xs \<Longrightarrow> agree xs (xs @ ys) lo hi"
  by (auto simp: agree_def nth_append)

lemma agree_idx: "agree xs ys lo hi \<Longrightarrow> lo \<le> i \<Longrightarrow> i < hi \<Longrightarrow> idx xs i = idx ys i"
  by (simp add: agree_def)

lemma agree_slice: "agree xs ys lo hi \<Longrightarrow> lo \<le> a \<Longrightarrow> a \<le> b \<Longrightarrow> b \<le> hi \<Longrightarrow> slice xs a b = slice ys a b"
  using agree_seg [of xs ys lo hi a b] by (simp add: agree_def seg_def)

lemma agree_be16: "agree xs ys lo hi \<Longrightarrow> lo \<le> i \<Longrightarrow> i + 2 \<le> hi \<Longrightarrow> be16 xs i = be16 ys i"
  by (simp add: be16_def agree_slice)

lemma agree_be32: "agree xs ys lo hi \<Longrightarrow> lo \<le> i \<Longrightarrow> i + 4 \<le> hi \<Longrightarrow> be32 xs i = be32 ys i"
  by (simp add: be32_def agree_slice)

lemma nth_put_at:
  "put_at xs at ys = Ok zs \<Longrightarrow> i < length xs \<Longrightarrow>
    zs ! i = (if at \<le> i \<and> i < at + length ys then ys ! (i - at) else xs ! i)"
  by (auto simp: put_at_eq_Ok nth_append min_def)

lemma agree_put_at:
  "put_at xs at ys = Ok zs \<Longrightarrow> hi \<le> length xs \<Longrightarrow> hi \<le> at \<or> at + length ys \<le> lo \<Longrightarrow> agree xs zs lo hi"
  by (frule put_at_length) (auto simp: agree_def nth_put_at)

lemma seg_put_at: "put_at xs at ys = Ok zs \<Longrightarrow> seg zs at (at + length ys) = ys"
  by (auto simp: put_at_eq_Ok seg_def)

lemmas agree_reads = agree_idx agree_slice agree_be16 agree_be32

end
