(* ===== verification/Go_Strings.thy ===== *)
theory Go_Strings
  imports Go_Prelude
begin

text \<open>
  The functions of the packages \<^verbatim>\<open>strings\<close>, \<^verbatim>\<open>strconv\<close> and \<^verbatim>\<open>encoding/hex\<close> that
  the plugins use, on byte strings. Where Go decodes runes the model works on the bytes of
  their UTF-8 encodings, which is the same function: a search for an ASCII byte never hits a
  byte of a longer encoding, and white space beyond ASCII is matched by its whole encoding.
\<close>

section \<open>Searching and cutting\<close>

definition hasPrefix :: "'a list \<Rightarrow> 'a list \<Rightarrow> bool" where
  "hasPrefix s p \<longleftrightarrow> take (length p) s = p"

definition hasSuffix :: "'a list \<Rightarrow> 'a list \<Rightarrow> bool" where
  "hasSuffix s p \<longleftrightarrow> hasPrefix (rev s) (rev p)"

definition trimPrefix :: "'a list \<Rightarrow> 'a list \<Rightarrow> 'a list" where
  "trimPrefix s p = (if hasPrefix s p then drop (length p) s else s)"

definition trimSuffix :: "'a list \<Rightarrow> 'a list \<Rightarrow> 'a list" where
  "trimSuffix s p = (if hasSuffix s p then take (length s - length p) s else s)"

fun containsSub :: "'a list \<Rightarrow> 'a list \<Rightarrow> bool" where
  "containsSub [] t \<longleftrightarrow> t = []"
| "containsSub (x # xs) t \<longleftrightarrow> hasPrefix (x # xs) t \<or> containsSub xs t"

definition containsAny :: "'a list \<Rightarrow> 'a list \<Rightarrow> bool" where
  "containsAny s cs \<longleftrightarrow> list_ex (\<lambda>c. c \<in> set cs) s"

text \<open>\<^verbatim>\<open>strings.Split\<close> and \<^verbatim>\<open>strings.Cut\<close> with a one-byte separator.\<close>

fun splitByte :: "'a \<Rightarrow> 'a list \<Rightarrow> 'a list list" where
  "splitByte c [] = [[]]"
| "splitByte c (x # xs) =
     (if x = c then [] # splitByte c xs
      else (case splitByte c xs of [] \<Rightarrow> [[x]] | p # ps \<Rightarrow> (x # p) # ps))"

fun cutByte :: "'a \<Rightarrow> 'a list \<Rightarrow> 'a list \<times> 'a list \<times> bool" where
  "cutByte c [] = ([], [], False)"
| "cutByte c (x # xs) =
     (if x = c then ([], xs, True)
      else (case cutByte c xs of (a, b, f) \<Rightarrow> (x # a, b, f)))"

fun joinWith :: "'a list \<Rightarrow> 'a list list \<Rightarrow> 'a list" where
  "joinWith sep [] = []"
| "joinWith sep [p] = p"
| "joinWith sep (p # q # ps) = p @ sep @ joinWith sep (q # ps)"

text \<open>\<^verbatim>\<open>strings.IndexByte\<close> and \<^verbatim>\<open>strings.LastIndexByte\<close>.\<close>

fun indexByte :: "char \<Rightarrow> string \<Rightarrow> nat option" where
  "indexByte c [] = None"
| "indexByte c (x # xs) = (if x = c then Some 0 else map_option Suc (indexByte c xs))"

definition lastIndexByte :: "char \<Rightarrow> string \<Rightarrow> nat option" where
  "lastIndexByte c s = map_option (\<lambda>i. length s - 1 - i) (indexByte c (rev s))"

text \<open>\<^verbatim>\<open>strings.Index\<close>.\<close>

fun indexSub :: "string \<Rightarrow> string \<Rightarrow> nat option" where
  "indexSub [] t = (if t = [] then Some 0 else None)"
| "indexSub (x # xs) t = (if hasPrefix (x # xs) t then Some 0 else map_option Suc (indexSub xs t))"

text \<open>\<^verbatim>\<open>strings.Trim\<close> with a one-byte cutset.\<close>

definition trimByte :: "char \<Rightarrow> string \<Rightarrow> string" where
  "trimByte c s = rev (dropWhile (\<lambda>x. x = c) (rev (dropWhile (\<lambda>x. x = c) s)))"

text \<open>\<^verbatim>\<open>strings.Split\<close> with a longer separator.\<close>

lemma indexSub_bound: "indexSub s t = Some i \<Longrightarrow> i + length t \<le> length s"
proof (induction s arbitrary: i)
  case (Cons x s)
  then show ?case by (fastforce simp: hasPrefix_def split: if_splits dest: arg_cong [of "take _ _" _ length])
qed (auto split: if_splits)

function splitSub :: "string \<Rightarrow> string \<Rightarrow> string list" where
  "splitSub sep s = (case indexSub s sep of None \<Rightarrow> [s]
     | Some i \<Rightarrow> if sep = [] then [s] else take i s # splitSub sep (drop (i + length sep) s))"
  by pat_completeness auto
termination
proof (relation "measure (\<lambda>(sep, s). length s)")
  fix sep s i assume "indexSub s sep = Some i" "sep \<noteq> []"
  then have "i + length sep \<le> length s" "0 < length sep" by (auto dest: indexSub_bound)
  then have "length s - (i + length sep) < length s" by linarith
  then show "((sep, drop (i + length sep) s), sep, s) \<in> measure (\<lambda>(sep, s). length s)" by simp
qed simp

declare splitSub.simps [simp del]

lemma hasPrefix_append [simp]: "hasPrefix (p @ s) p"
  by (simp add: hasPrefix_def)

lemma hasPrefix_iff: "hasPrefix s p \<longleftrightarrow> (\<exists>r. s = p @ r)"
  by (metis append_take_drop_id hasPrefix_append hasPrefix_def)

lemma hasSuffix_iff: "hasSuffix s p \<longleftrightarrow> (\<exists>r. s = r @ p)"
  unfolding hasSuffix_def hasPrefix_iff
  by (metis rev_append rev_rev_ident)

lemma splitByte_ne [simp]: "splitByte c s \<noteq> []"
  by (cases s) (auto split: list.splits)

lemma joinWith_splitByte: "joinWith [c] (splitByte c s) = s"
proof (induction s)
  case Nil
  show ?case by simp
next
  case (Cons x xs)
  obtain p ps where "splitByte c xs = p # ps"
    using splitByte_ne by (metis list.exhaust)
  with Cons show ?case
    by (cases ps) auto
qed

section \<open>White space and case\<close>

text \<open>The encodings of the runes of \<^verbatim>\<open>unicode.IsSpace\<close>.\<close>

definition spaceRunes :: "string list" where
  "spaceRunes = map (map char_of)
     [[0x09], [0x0a], [0x0b], [0x0c], [0x0d], [0x20], [0xc2, 0x85], [0xc2, 0xa0],
      [0xe1, 0x9a, 0x80],
      [0xe2, 0x80, 0x80], [0xe2, 0x80, 0x81], [0xe2, 0x80, 0x82], [0xe2, 0x80, 0x83],
      [0xe2, 0x80, 0x84], [0xe2, 0x80, 0x85], [0xe2, 0x80, 0x86], [0xe2, 0x80, 0x87],
      [0xe2, 0x80, 0x88], [0xe2, 0x80, 0x89], [0xe2, 0x80, 0x8a],
      [0xe2, 0x80, 0xa8], [0xe2, 0x80, 0xa9], [0xe2, 0x80, 0xaf], [0xe2, 0x81, 0x9f],
      [0xe3, 0x80, 0x80 :: nat]]"

function trimLeftRunes :: "string list \<Rightarrow> string \<Rightarrow> string" where
  "trimLeftRunes rs s =
     (case find (\<lambda>r. r \<noteq> [] \<and> hasPrefix s r) rs of
        None \<Rightarrow> s
      | Some r \<Rightarrow> trimLeftRunes rs (drop (length r) s))"
  by pat_completeness auto
termination
proof (relation "measure (\<lambda>(rs, s). length s)")
  show "wf (measure (\<lambda>(rs :: string list, s :: string). length s))" by simp
next
  fix rs :: "string list" and s r
  assume "find (\<lambda>r. r \<noteq> [] \<and> hasPrefix s r) rs = Some r"
  then have "r \<noteq> []" and "hasPrefix s r"
    by (auto simp: find_Some_iff)
  then show "((rs, drop (length r) s), (rs, s)) \<in> measure (\<lambda>(rs, s). length s)"
    by (auto simp: hasPrefix_iff)
qed

declare trimLeftRunes.simps [simp del]

text \<open>\<^verbatim>\<open>strings.FieldsFunc\<close>: the maximal non-empty pieces between separators.\<close>

function fieldsLoop :: "string list \<Rightarrow> string \<Rightarrow> string \<Rightarrow> string list" where
  "fieldsLoop rs cur s =
     (case s of
        [] \<Rightarrow> (if cur = [] then [] else [cur])
      | c # s' \<Rightarrow> (case find (\<lambda>r. r \<noteq> [] \<and> hasPrefix s r) rs of
          Some r \<Rightarrow> (if cur = [] then [] else [cur]) @ fieldsLoop rs [] (drop (length r) s)
        | None \<Rightarrow> fieldsLoop rs (cur @ [c]) s'))"
  by pat_completeness auto
termination
  by (relation "measure (\<lambda>(rs, cur, s). length s)") (auto simp: find_Some_iff hasPrefix_iff)

declare fieldsLoop.simps [simp del]

definition trimSpace :: "string \<Rightarrow> string" where
  "trimSpace s =
     rev (trimLeftRunes (map rev spaceRunes) (rev (trimLeftRunes spaceRunes s)))"

definition isAsciiChar :: "char \<Rightarrow> bool" where
  "isAsciiChar c \<longleftrightarrow> of_char c < (128 :: nat)"

definition asciiLower :: "char \<Rightarrow> char" where
  "asciiLower c =
     (if 65 \<le> (of_char c :: nat) \<and> of_char c \<le> (90 :: nat) then char_of (of_char c + 32 :: nat) else c)"

text \<open>
  \<^verbatim>\<open>strings.ToLower\<close>: the byte loop on ASCII text; text with other runes goes through the
  Unicode tables, which are a parameter.
\<close>

definition toLower :: "(string \<Rightarrow> string) \<Rightarrow> string \<Rightarrow> string" where
  "toLower unicodeLower s =
     (if list_all isAsciiChar s then map asciiLower s else unicodeLower s)"

section \<open>Numbers as text\<close>

definition digitChar :: "nat \<Rightarrow> char" where
  "digitChar d = (if d < 10 then char_of (48 + d) else char_of (87 + d))"

fun itoa :: "nat \<Rightarrow> string" where
  "itoa n = (if n < 10 then [digitChar n] else itoa (n div 10) @ [digitChar (n mod 10)])"

declare itoa.simps [simp del]

definition hexEncode :: "wire \<Rightarrow> string" where
  "hexEncode bs = concat (map (\<lambda>b. [digitChar (unat b div 16), digitChar (unat b mod 16)]) bs)"

definition bytesText :: "wire \<Rightarrow> string" where
  "bytesText bs = map (\<lambda>b. char_of (unat b)) bs"

definition textBytes :: "string \<Rightarrow> wire" where
  "textBytes s = map (\<lambda>c. word_of_nat (of_char c)) s"

lemma textBytes_bytesText [simp]: "textBytes (bytesText bs) = bs"
proof (induction bs)
  case Nil
  show ?case by (simp add: textBytes_def bytesText_def)
next
  case (Cons b bs)
  have "unat b < 256" using unsigned_less [of b] by simp
  with Cons show ?case
    by (simp add: textBytes_def bytesText_def)
qed

lemma digitChar_value: "d < 10 \<Longrightarrow> of_char (digitChar d) = d + (48 :: nat)"
  by (simp add: digitChar_def)

lemma itoa_value: "foldl (\<lambda>acc c. acc * 10 + (of_char c - 48)) 0 (itoa n) = (n :: nat)"
proof (induction n rule: itoa.induct)
  case (1 n)
  show ?case
    using 1 by (subst itoa.simps) (auto simp: digitChar_value)
qed

lemma itoa_inj: "itoa m = itoa n \<longleftrightarrow> m = n"
  using itoa_value by metis

lemma itoa_digits: "\<forall>c \<in> set (itoa n). 48 \<le> (of_char c :: nat) \<and> of_char c \<le> (57 :: nat)"
proof (induction n rule: itoa.induct)
  case (1 n)
  have "(of_char (digitChar (n mod 10)) :: nat) = n mod 10 + 48" by (rule digitChar_value) simp
  with 1 show ?case by (subst itoa.simps) (auto simp: digitChar_value)
qed

lemma itoa_short: "n < 100 \<Longrightarrow> length (itoa n) \<le> 2"
proof -
  assume "n < 100"
  then have "n div 10 < 10" by simp
  then show ?thesis by (simp add: itoa.simps [of n] itoa.simps [of "n div 10"])
qed

end
