(* ===== verification/Go_Base64.thy ===== *)
theory Go_Base64
  imports Go_Strings
begin

text \<open>
  The decoders of \<^verbatim>\<open>encoding/base64\<close> with the URL alphabet, which ignore line breaks.
  \<open>rawURLDecode strict\<close> is \<^verbatim>\<open>RawURLEncoding\<close> (without padding) and \<open>urlDecode\<close> is
  \<^verbatim>\<open>URLEncoding\<close> (with padding); \<open>strict\<close> is the \<^verbatim>\<open>Strict()\<close> variant, which
  demands that unused trailing bits are zero. \<open>rawURLEncode\<close> is the encoder. \<open>stdEncode\<close> and
  \<open>stdDecodeStrict\<close> are \<^verbatim>\<open>StdEncoding\<close>, whose last two letters differ.
\<close>

definition sextet :: "char \<Rightarrow> nat option" where
  "sextet c = (let n = (of_char c :: nat) in
     if 65 \<le> n \<and> n \<le> 90 then Some (n - 65)
     else if 97 \<le> n \<and> n \<le> 122 then Some (n - 71)
     else if 48 \<le> n \<and> n \<le> 57 then Some (n + 4)
     else if n = 45 then Some 62 else if n = 95 then Some 63 else None)"

definition sextetChar :: "nat \<Rightarrow> char" where
  "sextetChar n = (if n < 26 then char_of (n + 65) else if n < 52 then char_of (n + 71)
     else if n < 62 then char_of (n - 4) else if n = 62 then char_of (45 :: nat) else char_of (95 :: nat))"

text \<open>The bytes of a quantum of two, three or four sextets, and the check of unused bits.\<close>

fun quantum :: "bool \<Rightarrow> nat list \<Rightarrow> wire option" where
  "quantum strict [a, b] =
     (if strict \<and> b mod 16 \<noteq> 0 then None else Some [word_of_nat (a * 4 + b div 16)])"
| "quantum strict [a, b, c] =
     (if strict \<and> c mod 4 \<noteq> 0 then None
      else Some [word_of_nat (a * 4 + b div 16), word_of_nat ((b mod 16) * 16 + c div 4)])"
| "quantum strict [a, b, c, d] =
     Some [word_of_nat (a * 4 + b div 16), word_of_nat ((b mod 16) * 16 + c div 4), word_of_nat ((c mod 4) * 64 + d)]"
| "quantum strict _ = None"

definition sextets :: "string \<Rightarrow> nat list option" where
  "sextets s = those (map sextet s)"

fun decodeRaw :: "bool \<Rightarrow> string \<Rightarrow> wire option" where
  "decodeRaw strict (a # b # c # d # rest) =
     (case sextets [a, b, c, d] of None \<Rightarrow> None
      | Some q \<Rightarrow> (case quantum strict q of None \<Rightarrow> None
        | Some bs \<Rightarrow> (case decodeRaw strict rest of None \<Rightarrow> None | Some bs' \<Rightarrow> Some (bs @ bs'))))"
| "decodeRaw strict [] = Some []"
| "decodeRaw strict s = (case sextets s of None \<Rightarrow> None | Some q \<Rightarrow> quantum strict q)"

definition stripBreaks :: "string \<Rightarrow> string" where
  "stripBreaks s = filter (\<lambda>c. c \<noteq> CHR 0x0a \<and> c \<noteq> CHR 0x0d) s"

definition rawURLDecode :: "bool \<Rightarrow> string \<Rightarrow> wire option" where
  "rawURLDecode strict s = decodeRaw strict (stripBreaks s)"

text \<open>With padding the text is a sequence of whole groups; the last may end in \<open>=\<close> or \<open>==\<close>.\<close>

definition urlDecode :: "string \<Rightarrow> wire option" where
  "urlDecode s =
     (let t = stripBreaks s in
      if length t mod 4 \<noteq> 0 then None
      else if hasSuffix t ''=='' then decodeRaw False (take (length t - 2) t)
      else if hasSuffix t ''='' then decodeRaw False (take (length t - 1) t)
      else decodeRaw False t)"

fun rawURLEncode :: "wire \<Rightarrow> string" where
  "rawURLEncode (a # b # c # rest) =
     (let n = unat a; m = unat b; k = unat c in
      [sextetChar (n div 4), sextetChar ((n mod 4) * 16 + m div 16),
       sextetChar ((m mod 16) * 4 + k div 64), sextetChar (k mod 64)] @ rawURLEncode rest)"
| "rawURLEncode [a, b] =
     (let n = unat a; m = unat b in
      [sextetChar (n div 4), sextetChar ((n mod 4) * 16 + m div 16), sextetChar ((m mod 16) * 4)])"
| "rawURLEncode [a] = (let n = unat a in [sextetChar (n div 4), sextetChar ((n mod 4) * 16)])"
| "rawURLEncode [] = []"

definition stdChar :: "char \<Rightarrow> char" where
  "stdChar c = (if c = CHR ''-'' then CHR ''+'' else if c = CHR ''_'' then CHR ''/'' else c)"

definition urlChar :: "char \<Rightarrow> char" where
  "urlChar c = (if c = CHR ''+'' then CHR ''-'' else if c = CHR ''/'' then CHR ''_'' else c)"

definition stdEncode :: "wire \<Rightarrow> string" where
  "stdEncode bs = (let t = map stdChar (rawURLEncode bs) in t @ replicate ((4 - length t mod 4) mod 4) CHR ''='')"

definition stdDecodeStrict :: "string \<Rightarrow> wire option" where
  "stdDecodeStrict s =
     (let t = stripBreaks s in
      if CHR ''-'' \<in> set t \<or> CHR ''_'' \<in> set t \<or> length t mod 4 \<noteq> 0 then None
      else let u = map urlChar t in
        if hasSuffix u ''=='' then decodeRaw True (take (length u - 2) u)
        else if hasSuffix u ''='' then decodeRaw True (take (length u - 1) u)
        else decodeRaw True u)"

lemma sextet_sextetChar: "n < 64 \<Longrightarrow> sextet (sextetChar n) = Some n"
  by (auto simp: sextet_def sextetChar_def Let_def)

lemma sextetChar_no_break:
  assumes "n < 64"
  shows "sextetChar n \<noteq> CHR 0x0a" and "sextetChar n \<noteq> CHR 0x0d" and "sextetChar n \<noteq> CHR ''=''"
proof -
  have "sextet (CHR 0x0a) = None" "sextet (CHR 0x0d) = None" "sextet (CHR ''='') = None"
    by (simp_all add: sextet_def)
  with sextet_sextetChar [OF assms]
  show "sextetChar n \<noteq> CHR 0x0a" "sextetChar n \<noteq> CHR 0x0d" "sextetChar n \<noteq> CHR ''=''" by auto
qed

lemma byte_bound: "unat (b :: byte) < 256"
  using unsigned_less [of b] by simp

lemma encode_sextets:
  shows "unat (a :: byte) div 4 < 64" and "(unat (a :: byte) mod 4) * 16 + unat (b :: byte) div 16 < 64"
    and "(unat (b :: byte) mod 16) * 4 + unat (c :: byte) div 64 < 64" and "unat (c :: byte) mod 64 < 64"
    and "(unat (a :: byte) mod 4) * 16 < 64" and "(unat (b :: byte) mod 16) * 4 < 64"
  using byte_bound [of a] byte_bound [of b] byte_bound [of c] by auto

lemma rawURLEncode_clean: "\<forall>ch \<in> set (rawURLEncode bs). ch \<noteq> CHR 0x0a \<and> ch \<noteq> CHR 0x0d \<and> ch \<noteq> CHR ''=''"
  by (induction bs rule: rawURLEncode.induct)
    (auto simp: Let_def encode_sextets sextetChar_no_break)

lemma word_of_nat_unat_join: "unat b = n \<Longrightarrow> word_of_nat n = b"
  by auto

lemma regroup:
  fixes a b c :: nat
  assumes "b < 256" and "c < 256"
  shows "a div 4 * 4 + (a mod 4 * 16 + b div 16) div 16 = a
    \<and> (a mod 4 * 16 + b div 16) mod 16 * 16 + (b mod 16 * 4 + c div 64) div 4 = b
    \<and> (b mod 16 * 4 + c div 64) mod 4 * 64 + c mod 64 = c"
proof -
  have "b div 16 < 16" "c div 64 < 4" using assms by auto
  then have "(a mod 4 * 16 + b div 16) div 16 = a mod 4" "(a mod 4 * 16 + b div 16) mod 16 = b div 16"
    "(b mod 16 * 4 + c div 64) div 4 = b mod 16" "(b mod 16 * 4 + c div 64) mod 4 = c div 64"
    by simp_all
  then show ?thesis by simp
qed

lemma decodeRaw_encode: "decodeRaw strict (rawURLEncode bs) = Some bs"
proof (induction bs rule: rawURLEncode.induct)
  case (1 a b c rest)
  note r = regroup [OF byte_bound [of b] byte_bound [of c], of "unat a"]
  note w = r [THEN conjunct1] r [THEN conjunct2, THEN conjunct1] r [THEN conjunct2, THEN conjunct2]
  show ?case
    using 1 w by (simp add: Let_def sextets_def sextet_sextetChar encode_sextets word_of_nat_unat_join
      del: of_nat_add of_nat_mult)
next
  case (2 a b)
  note r = regroup [OF byte_bound [of b] byte_bound [of 0], of "unat a"]
  note w = r [THEN conjunct1] r [THEN conjunct2, THEN conjunct1] r [THEN conjunct2, THEN conjunct2]
  show ?case
    using w by (simp add: Let_def sextets_def sextet_sextetChar encode_sextets word_of_nat_unat_join
      del: of_nat_add of_nat_mult)
next
  case (3 a)
  note r = regroup [OF byte_bound [of 0] byte_bound [of 0], of "unat a"]
  note w = r [THEN conjunct1] r [THEN conjunct2, THEN conjunct1] r [THEN conjunct2, THEN conjunct2]
  show ?case
    using w by (simp add: Let_def sextets_def sextet_sextetChar encode_sextets word_of_nat_unat_join
      del: of_nat_add of_nat_mult)
qed simp

lemma rawURLDecode_encode: "rawURLDecode strict (rawURLEncode bs) = Some bs"
proof -
  have "stripBreaks (rawURLEncode bs) = rawURLEncode bs"
    using rawURLEncode_clean [of bs] by (auto simp: stripBreaks_def intro!: filter_True)
  then show ?thesis by (simp add: rawURLDecode_def decodeRaw_encode)
qed

text \<open>The padded encoding decodes to what was encoded.\<close>

lemma sextetChar_alphabet:
  assumes "n < 64"
  shows "urlChar (stdChar (sextetChar n)) = sextetChar n" and "stdChar (sextetChar n) \<noteq> CHR ''-''"
    and "stdChar (sextetChar n) \<noteq> CHR ''_''" and "stdChar (sextetChar n) \<noteq> CHR ''=''"
    and "stdChar (sextetChar n) \<noteq> CHR 0x0a" and "stdChar (sextetChar n) \<noteq> CHR 0x0d"
proof -
  have "sextet CHR ''+'' = None" "sextet CHR ''/'' = None" by (simp_all add: sextet_def)
  with sextet_sextetChar [OF assms] have "sextetChar n \<noteq> CHR ''+''" "sextetChar n \<noteq> CHR ''/''" by auto
  with sextetChar_no_break [OF assms]
  show "urlChar (stdChar (sextetChar n)) = sextetChar n" "stdChar (sextetChar n) \<noteq> CHR ''-''"
    "stdChar (sextetChar n) \<noteq> CHR ''_''" "stdChar (sextetChar n) \<noteq> CHR ''=''"
    "stdChar (sextetChar n) \<noteq> CHR 0x0a" "stdChar (sextetChar n) \<noteq> CHR 0x0d"
    by (auto simp: stdChar_def urlChar_def)
qed

lemma rawURLEncode_alphabet: "set (rawURLEncode bs) \<subseteq> sextetChar ` {..<64}"
  by (induction bs rule: rawURLEncode.induct)
    (simp_all only: Let_def rawURLEncode.simps set_append list.set Un_subset_iff insert_subset empty_subsetI imageI
      lessThan_iff encode_sextets simp_thms)

lemma hasSuffix_pad:
  assumes "CHR ''='' \<notin> set r"
  shows "\<not> hasSuffix r ''=''" and "\<not> hasSuffix r ''==''" and "\<not> hasSuffix (r @ ''='') ''==''"
    and "hasSuffix (r @ ''='') ''=''" and "hasSuffix (r @ ''=='') ''==''"
proof -
  show "\<not> hasSuffix r ''=''" "\<not> hasSuffix r ''==''" using assms by (auto simp: hasSuffix_iff)
  show "hasSuffix (r @ ''='') ''=''" "hasSuffix (r @ ''=='') ''==''" unfolding hasSuffix_iff by blast+
  have "r \<noteq> s @ ''=''" for s using assms by auto
  then show "\<not> hasSuffix (r @ ''='') ''==''"
    unfolding hasSuffix_iff by (metis append.assoc append1_eq_conv append_Cons append_Nil)
qed

lemma rawURLEncode_length: "length (rawURLEncode bs) mod 4 \<in> {0, 2, 3}"
proof (induction bs rule: rawURLEncode.induct)
  case (1 a b c rest)
  have "length (rawURLEncode (a # b # c # rest)) = 4 + length (rawURLEncode rest)" by (simp add: Let_def)
  with 1 show ?case by (simp only: mod_add_self1)
qed (simp_all add: Let_def)

lemma stdEncode_padding:
  assumes "n mod 4 \<in> {0, 2, 3 :: nat}"
  shows "(4 - n mod 4) mod 4 = 0 \<or> (4 - n mod 4) mod 4 = 1 \<or> (4 - n mod 4) mod 4 = 2"
    and "(n + (4 - n mod 4) mod 4) mod 4 = 0"
  using assms by (auto simp: mod_simps) presburger+

lemma stdDecode_encode: "stdDecodeStrict (stdEncode bs) = Some bs"
proof -
  let ?r = "rawURLEncode bs" let ?t = "map stdChar ?r"
  let ?p = "(4 - length ?r mod 4) mod 4"
  have letters: "\<forall>c \<in> set ?t. c \<noteq> CHR ''-'' \<and> c \<noteq> CHR ''_'' \<and> c \<noteq> CHR 0x0a \<and> c \<noteq> CHR 0x0d"
  proof
    fix c assume "c \<in> set ?t"
    then obtain n where "n < 64" "c = stdChar (sextetChar n)" using rawURLEncode_alphabet [of bs] by auto
    then show "c \<noteq> CHR ''-'' \<and> c \<noteq> CHR ''_'' \<and> c \<noteq> CHR 0x0a \<and> c \<noteq> CHR 0x0d"
      by (simp add: sextetChar_alphabet)
  qed
  have url: "map urlChar ?t = ?r"
    unfolding map_map
  proof (rule map_idI)
    fix c assume "c \<in> set ?r"
    then obtain n where "n < 64" "c = sextetChar n" using rawURLEncode_alphabet [of bs] by auto
    then show "(urlChar \<circ> stdChar) c = c" by (simp add: sextetChar_alphabet)
  qed
  have p: "?p = 0 \<or> ?p = 1 \<or> ?p = 2" "(length ?r + ?p) mod 4 = 0"
    by (rule stdEncode_padding [OF rawURLEncode_length])+
  have strip: "stripBreaks (stdEncode bs) = ?t @ replicate ?p CHR ''=''"
    unfolding stripBreaks_def stdEncode_def Let_def length_map using letters by (intro filter_True) auto
  have r: "CHR ''='' \<notin> set ?r" using rawURLEncode_clean [of bs] by auto
  have padded: "map urlChar (?t @ replicate ?p CHR ''='') = ?r @ replicate ?p CHR ''=''"
    unfolding map_append url by (simp add: urlChar_def map_replicate)
  have ok: "\<not> (CHR ''-'' \<in> set (?t @ replicate ?p CHR ''='') \<or> CHR ''_'' \<in> set (?t @ replicate ?p CHR ''='')
      \<or> length (?t @ replicate ?p CHR ''='') mod 4 \<noteq> 0)"
    using letters p(2) by auto
  have decode: "stdDecodeStrict (stdEncode bs) = (let u = ?r @ replicate ?p CHR ''='' in
      if hasSuffix u ''=='' then decodeRaw True (take (length u - 2) u)
      else if hasSuffix u ''='' then decodeRaw True (take (length u - 1) u) else decodeRaw True u)"
    unfolding stdDecodeStrict_def strip Let_def padded if_not_P [OF ok] ..
  have eqs: "replicate 0 CHR ''='' = []" "replicate 1 CHR ''='' = ''=''" "replicate 2 CHR ''='' = ''==''"
    by (simp_all add: numeral_2_eq_2)
  consider "?p = 0" | "?p = 1" | "?p = 2" using p(1) by (elim disjE)
  then show ?thesis
  proof cases
    case 1
    show ?thesis unfolding decode 1 eqs Let_def using hasSuffix_pad [OF r] by (simp add: decodeRaw_encode)
  next
    case 2
    show ?thesis unfolding decode 2 eqs Let_def using hasSuffix_pad [OF r] by (simp add: decodeRaw_encode)
  next
    case 3
    show ?thesis unfolding decode 3 eqs Let_def using hasSuffix_pad [OF r] by (simp add: decodeRaw_encode)
  qed
qed

end
