(* ===== verification/Go_Net.thy ===== *)
theory Go_Net
  imports Go_Strings
begin

text \<open>
  Host names, ports and addresses as text: the functions of \<^verbatim>\<open>net\<close>, \<^verbatim>\<open>net/netip\<close> and
  \<^verbatim>\<open>strconv\<close> that split, join, parse and print them. The text form of IPv6 addresses is a
  parameter (\<open>netLib\<close>): the parser gives the sixteen bytes and the zone, the printer the canonical
  text.
\<close>

section \<open>Splitting and joining\<close>

text \<open>\<^verbatim>\<open>net.SplitHostPort\<close>; \<open>None\<close> is an error.\<close>

definition splitHostPort :: "string \<Rightarrow> (string \<times> string) option" where
  "splitHostPort hp =
     (case lastIndexByte CHR '':'' hp of None \<Rightarrow> None
      | Some i \<Rightarrow>
        if hasPrefix hp ''['' then
          (case indexByte CHR '']'' hp of None \<Rightarrow> None
           | Some e \<Rightarrow>
             if e + 1 \<noteq> i then None
             else if indexByte CHR ''['' (drop 1 hp) \<noteq> None \<or> indexByte CHR '']'' (drop (e + 1) hp) \<noteq> None then None
             else Some (take (e - 1) (drop 1 hp), drop (i + 1) hp))
        else
          let host = take i hp in
          if indexByte CHR '':'' host \<noteq> None \<or> indexByte CHR ''['' hp \<noteq> None \<or> indexByte CHR '']'' hp \<noteq> None then None
          else Some (host, drop (i + 1) hp))"

definition joinHostPort :: "string \<Rightarrow> string \<Rightarrow> string" where
  "joinHostPort host port =
     (if indexByte CHR '':'' host \<noteq> None then ''['' @ host @ '']:'' @ port else host @ '':'' @ port)"

text \<open>\<^verbatim>\<open>strings.Trim(host, "[]")\<close>.\<close>

definition trimBrackets :: "string \<Rightarrow> string" where
  "trimBrackets s = (let bracket = (\<lambda>c. c = CHR ''['' \<or> c = CHR '']'') in
     rev (dropWhile bracket (rev (dropWhile bracket s))))"

definition isDigitChar :: "char \<Rightarrow> bool" where
  "isDigitChar c \<longleftrightarrow> 48 \<le> (of_char c :: nat) \<and> of_char c \<le> (57 :: nat)"

definition digitsValue :: "string \<Rightarrow> nat" where
  "digitsValue s = foldl (\<lambda>acc c. acc * 10 + (of_char c - 48)) 0 s"

text \<open>\<^verbatim>\<open>strconv.ParseUint(s, 10, 16)\<close>.\<close>

definition parseUint16 :: "string \<Rightarrow> nat option" where
  "parseUint16 s = (if s = [] \<or> \<not> list_all isDigitChar s then None
     else if digitsValue s > 65535 then None else Some (digitsValue s))"

section \<open>Addresses\<close>

record netLib =
  nl_parseIPv6 :: "string \<Rightarrow> (wire \<times> string) option"
  nl_ipv6String :: "wire \<Rightarrow> string"

datatype netAddr = V4 wire | V6 wire string

definition ipv4Field :: "string \<Rightarrow> byte option" where
  "ipv4Field s = (if s = [] \<or> \<not> list_all isDigitChar s \<or> length s > 1 \<and> hasPrefix s ''0'' then None
     else if digitsValue s > 255 then None else Some (word_of_nat (digitsValue s)))"

definition parseIPv4 :: "string \<Rightarrow> wire option" where
  "parseIPv4 s = (let fs = splitByte CHR ''.'' s in if length fs \<noteq> 4 then None else those (map ipv4Field fs))"

text \<open>\<^verbatim>\<open>netip.ParseAddr\<close> looks for the first separator of either form.\<close>

definition parseAddr :: "netLib \<Rightarrow> string \<Rightarrow> netAddr option" where
  "parseAddr lib s =
     (case List.find (\<lambda>c. c = CHR ''.'' \<or> c = CHR '':'' \<or> c = CHR ''%'') s of
        None \<Rightarrow> None
      | Some c \<Rightarrow>
          if c = CHR ''.'' then map_option V4 (parseIPv4 s)
          else if c = CHR '':'' then map_option (\<lambda>(b, zone). V6 b zone) (nl_parseIPv6 lib s)
          else None)"

definition v4InV6Prefix :: wire where
  "v4InV6Prefix = replicate 10 0 @ [0xff, 0xff]"

text \<open>\<^verbatim>\<open>net.ParseIP\<close> gives the sixteen-byte form and refuses zones.\<close>

definition parseIP :: "netLib \<Rightarrow> string \<Rightarrow> wire option" where
  "parseIP lib s = (case parseAddr lib s of None \<Rightarrow> None
     | Some (V4 b) \<Rightarrow> Some (v4InV6Prefix @ b)
     | Some (V6 b zone) \<Rightarrow> if zone = [] then Some b else None)"

definition to4 :: "wire \<Rightarrow> wire option" where
  "to4 ip = (if length ip = 4 then Some ip
     else if length ip = 16 \<and> hasPrefix ip v4InV6Prefix then Some (drop 12 ip) else None)"

definition ipv4String :: "wire \<Rightarrow> string" where
  "ipv4String b = joinWith ''.'' (map (\<lambda>x. itoa (unat x)) b)"

text \<open>\<^verbatim>\<open>net.IP.String\<close> on four or sixteen bytes.\<close>

definition ipString :: "netLib \<Rightarrow> wire \<Rightarrow> string" where
  "ipString lib ip = (case to4 ip of Some b \<Rightarrow> ipv4String b | None \<Rightarrow> nl_ipv6String lib ip)"

section \<open>Lemmas\<close>

lemma indexByte_None [simp]: "indexByte c s = None \<longleftrightarrow> c \<notin> set s"
  by (induction s) auto

lemma indexByte_append: "c \<notin> set s \<Longrightarrow> indexByte c (s @ c # t) = Some (length s)"
  by (induction s) auto

lemma lastIndexByte_append: "c \<notin> set t \<Longrightarrow> lastIndexByte c (s @ c # t) = Some (length s)"
  by (simp add: lastIndexByte_def indexByte_append)

lemma split_joinHostPort:
  assumes "CHR ''['' \<notin> set host" "CHR '']'' \<notin> set host"
    and "CHR '':'' \<notin> set port" "CHR ''['' \<notin> set port" "CHR '']'' \<notin> set port"
  shows "splitHostPort (joinHostPort host port) = Some (host, port)"
proof (cases "CHR '':'' \<in> set host")
  case True
  have last: "lastIndexByte CHR '':'' (''['' @ host @ '']:'' @ port) = Some (length host + 2)"
    using lastIndexByte_append [OF assms(3), of "''['' @ host @ '']''"] by simp
  have close: "indexByte CHR '']'' (''['' @ host @ '']:'' @ port) = Some (length host + 1)"
    using indexByte_append [of "CHR '']''" "''['' @ host" "'':'' @ port"] assms(2) by simp
  have rest: "drop (length host + 3) (CHR ''['' # host @ CHR '']'' # CHR '':'' # port) = port"
    by (simp add: numeral_3_eq_3)
  show ?thesis
    using True last close rest assms by (simp add: splitHostPort_def joinHostPort_def hasPrefix_def)
next
  case False
  have last: "lastIndexByte CHR '':'' (host @ '':'' @ port) = Some (length host)"
    using lastIndexByte_append [OF assms(3), of host] by simp
  have "\<not> hasPrefix (host @ '':'' @ port) ''[''"
    using assms(1) by (cases host) (auto simp: hasPrefix_def)
  then show ?thesis
    using False last assms by (simp add: splitHostPort_def joinHostPort_def)
qed

lemma digitsValue_itoa [simp]: "digitsValue (itoa n) = n"
  by (simp add: digitsValue_def itoa_value)

lemma itoa_isDigit: "list_all isDigitChar (itoa n)"
  using itoa_digits [of n] by (auto simp: list_all_iff isDigitChar_def)

lemma itoa_ne [simp]: "itoa n \<noteq> []"
  by (subst itoa.simps) simp

lemma parseUint16_itoa: "n \<le> 65535 \<Longrightarrow> parseUint16 (itoa n) = Some n"
  by (simp add: parseUint16_def itoa_isDigit)

lemma itoa_no_separator:
  "CHR '':'' \<notin> set (itoa n) \<and> CHR ''['' \<notin> set (itoa n) \<and> CHR '']'' \<notin> set (itoa n) \<and> CHR ''.'' \<notin> set (itoa n)"
  using itoa_digits [of n] by fastforce

end
