(* ===== verification/Doh_Query.thy ===== *)
theory Doh_Query
  imports Go_Strings
begin

text \<open>
  The DNS query half of \<^verbatim>\<open>plugins/doh/rfc8484.go\<close>: question names, \<^verbatim>\<open>parseDNSQuery\<close>
  with its EDNS checks, and the EDNS Client Subnet option (ECS) the service adds. Wire data is
  a byte list, offsets are \<open>nat\<close>; every index and slice expression goes through
  \<open>idx\<close>, \<open>slice\<close> or a big-endian read, which panic out of range.
\<close>

datatype doh_error =
    ErrInvalidRequest | ErrUnsupportedMediaType | ErrRequestTooLarge | ErrResponseTooLarge
  | ErrInvalidDNSMessage | ErrResponseMismatch | ErrConcurrencyExhausted | ErrNoHealthyUpstream
  | ErrUpstreamFailed | ErrClockUnavailable | ErrCacheUnavailable | ErrRevoked
  | ErrCanceled | ErrDeadlineExceeded

type_synonym 'a doh = "(doh_error, 'a) res"

definition MaxDNSRequestBytes :: nat where "MaxDNSRequestBytes = 4096"
definition MaxDNSResponseBytes :: nat where "MaxDNSResponseBytes = 65535"
definition ednsOptionECS :: u16 where "ednsOptionECS = 8"
definition ecsFamilyIPv4 :: u16 where "ecsFamilyIPv4 = 1"
definition ecsFamilyIPv6 :: u16 where "ecsFamilyIPv6 = 2"
definition defaultECSv4Prefix :: byte where "defaultECSv4Prefix = 24"
definition defaultECSv6Prefix :: byte where "defaultECSv6Prefix = 56"

section \<open>Question names\<close>

text \<open>The loop of \<^verbatim>\<open>parseQuestionName\<close> runs at most 128 times (\<open>labels = 0 .. 127\<close>).\<close>

definition lowerByte :: "byte \<Rightarrow> byte" where
  "lowerByte b = (if 65 \<le> b \<and> b \<le> 90 then b + 32 else b)"

fun parseQuestionNameLoop :: "nat \<Rightarrow> wire \<Rightarrow> nat \<Rightarrow> wire \<Rightarrow> (nat \<times> wire) doh" where
  "parseQuestionNameLoop 0 wire offset canonical = Err ErrInvalidDNSMessage"
| "parseQuestionNameLoop (Suc labels) wire offset canonical =
     (if offset \<ge> length wire then Err ErrInvalidDNSMessage
      else rbind (idx wire offset) (\<lambda>b.
        let len = unat b in
        if b AND 0xc0 \<noteq> 0 \<or> len > 63 then Err ErrInvalidDNSMessage
        else if len = 0 then
          (if length canonical + 1 > 255 then Err ErrInvalidDNSMessage
           else Ok (offset + 1, canonical @ [b]))
        else if offset + 1 + len > length wire \<or> length canonical + 1 + len > 255
          then Err ErrInvalidDNSMessage
        else rbind (slice wire (offset + 1) (offset + 1 + len)) (\<lambda>label.
          parseQuestionNameLoop labels wire (offset + 1 + len)
            (canonical @ [b] @ map lowerByte label))))"

definition parseQuestionName :: "wire \<Rightarrow> nat \<Rightarrow> (nat \<times> wire) doh" where
  "parseQuestionName wire offset = parseQuestionNameLoop 128 wire offset []"

section \<open>EDNS\<close>

function validateEDNSOptions :: "wire \<Rightarrow> nat \<Rightarrow> nat \<Rightarrow> unit doh" where
  "validateEDNSOptions wire rdataStart rdataEnd =
     (if rdataStart < rdataEnd then
        (if rdataStart + 4 > rdataEnd then Err ErrInvalidDNSMessage
         else rbind (be16 wire (rdataStart + 2)) (\<lambda>l.
           if rdataStart + 4 + unat l > rdataEnd then Err ErrInvalidDNSMessage
           else validateEDNSOptions wire (rdataStart + 4 + unat l) rdataEnd))
      else Ok ())"
  by pat_completeness auto
termination
  by (relation "measure (\<lambda>(wire, s, e). e - s)") auto

declare validateEDNSOptions.simps [simp del]

definition validateEDNSQuery :: "wire \<Rightarrow> nat \<Rightarrow> unit doh" where
  "validateEDNSQuery wire offset =
     (if offset + 11 > length wire then Err ErrInvalidDNSMessage
      else rbind (idx wire offset) (\<lambda>root.
        if root \<noteq> 0 then Err ErrInvalidDNSMessage
        else rbind (be16 wire (offset + 1)) (\<lambda>rrType.
          if rrType \<noteq> 41 then Err ErrInvalidDNSMessage
          else rbind (be32 wire (offset + 5)) (\<lambda>flags.
            if flags AND 0xffff7fff \<noteq> 0 then Err ErrInvalidDNSMessage
            else rbind (be16 wire (offset + 9)) (\<lambda>rdataLength.
              let rdataStart = offset + 11; rdataEnd = offset + 11 + unat rdataLength in
              if rdataEnd \<noteq> length wire then Err ErrInvalidDNSMessage
              else validateEDNSOptions wire rdataStart rdataEnd)))))"

function ednsOptionLoop :: "wire \<Rightarrow> nat \<Rightarrow> nat \<Rightarrow> u16 \<Rightarrow> bool doh" where
  "ednsOptionLoop wire rdataStart rdataEnd code =
     (if rdataStart < rdataEnd then
        (if rdataStart + 4 > rdataEnd then Ok False
         else rbind (be16 wire rdataStart) (\<lambda>optionCode.
           rbind (be16 wire (rdataStart + 2)) (\<lambda>optionLength.
             if optionCode = code then Ok True
             else ednsOptionLoop wire (rdataStart + 4 + unat optionLength) rdataEnd code)))
      else Ok False)"
  by pat_completeness auto
termination
  by (relation "measure (\<lambda>(wire, s, e, c). e - s)") auto

declare ednsOptionLoop.simps [simp del]

definition ednsHasOption :: "wire \<Rightarrow> nat \<Rightarrow> u16 \<Rightarrow> bool doh" where
  "ednsHasOption wire offset code =
     (if offset + 11 > length wire then Ok False
      else rbind (idx wire offset) (\<lambda>root.
        if root \<noteq> 0 then Ok False
        else rbind (be16 wire (offset + 9)) (\<lambda>rdataLength.
          let rdataStart = offset + 11; rdataEnd = offset + 11 + unat rdataLength in
          if rdataEnd > length wire then Ok False
          else ednsOptionLoop wire rdataStart rdataEnd code)))"

section \<open>Queries\<close>

record parsedQuery =
  pq_wire :: wire
  pq_normalized :: wire
  pq_question :: wire
  pq_key :: string
  pq_digest :: string
  pq_qtype :: string
  pq_id :: u16
  pq_hasECS :: bool

text \<open>
  \<^verbatim>\<open>parseDNSQuery\<close>. The parameter \<open>sha256\<close> is \<^verbatim>\<open>crypto/sha256.Sum256\<close>; its result is an
  array of 32 bytes, so the slice \<^verbatim>\<open>digest[:8]\<close> is always in range and is a plain
  \<open>take\<close> here. \<^verbatim>\<open>copy(normalized[12:questionEnd], canonicalName)\<close> copies at most the
  bytes that fit the window.
\<close>

definition parseDNSQuery :: "(wire \<Rightarrow> wire) \<Rightarrow> wire \<Rightarrow> parsedQuery doh" where
  "parseDNSQuery sha256 wire =
     (if length wire < 17 then Err ErrInvalidDNSMessage
      else rbind (be16 wire 2) (\<lambda>flags. rbind (be16 wire 10) (\<lambda>additionalCount.
        rbind (be16 wire 4) (\<lambda>qdcount. rbind (be16 wire 6) (\<lambda>ancount. rbind (be16 wire 8) (\<lambda>nscount.
        if flags AND 0x8000 \<noteq> 0 \<or> flags AND 0x7800 \<noteq> 0 \<or> qdcount \<noteq> 1 \<or> ancount \<noteq> 0
          \<or> nscount \<noteq> 0 \<or> additionalCount > 1
        then Err ErrInvalidDNSMessage
        else case parseQuestionName wire 12 of
          Panic \<Rightarrow> Panic
        | Err e \<Rightarrow> Err ErrInvalidDNSMessage
        | Ok (questionEnd, canonicalName) \<Rightarrow>
          if questionEnd + 4 > length wire then Err ErrInvalidDNSMessage
          else rbind (be16 wire questionEnd) (\<lambda>qtype. rbind (be16 wire (questionEnd + 2)) (\<lambda>qclass.
            if qtype = 0 \<or> qclass \<noteq> 1 then Err ErrInvalidDNSMessage
            else if additionalCount = 0 \<and> questionEnd + 4 \<noteq> length wire then Err ErrInvalidDNSMessage
            else rbind (if additionalCount = 1
                then rbind (validateEDNSQuery wire (questionEnd + 4)) (\<lambda>_.
                  ednsHasOption wire (questionEnd + 4) ednsOptionECS)
                else Ok False) (\<lambda>hasECS.
              rbind (put_at wire 0 [0, 0]) (\<lambda>zeroed.
              rbind (put_at zeroed 12 (take (questionEnd - 12) canonicalName)) (\<lambda>normalized.
              rbind (slice normalized 12 (questionEnd + 4)) (\<lambda>question.
              rbind (be16 wire 0) (\<lambda>ident.
                Ok \<lparr> pq_wire = wire, pq_normalized = normalized, pq_question = question,
                  pq_key = hexEncode (sha256 normalized),
                  pq_digest = hexEncode (take 8 (sha256 normalized)),
                  pq_qtype = itoa (unat qtype), pq_id = ident, pq_hasECS = hasECS \<rparr>)))))))))))))"

section \<open>Client subnet\<close>

text \<open>
  A \<^verbatim>\<open>net.IP\<close> is a byte slice, \<open>None\<close> is nil. \<open>To4\<close> accepts 4 bytes and the
  16-byte form \<^verbatim>\<open>::ffff:a.b.c.d\<close>; \<open>To16\<close> accepts both lengths.
\<close>

definition ipTo4 :: "wire \<Rightarrow> wire option" where
  "ipTo4 ip =
     (if length ip = 4 then Some ip
      else if length ip = 16 \<and> take 12 ip = replicate 10 0 @ [0xff, 0xff] then Some (drop 12 ip)
      else None)"

definition ipTo16 :: "wire \<Rightarrow> wire option" where
  "ipTo16 ip =
     (if length ip = 4 then Some (replicate 10 0 @ [0xff, 0xff] @ ip)
      else if length ip = 16 then Some ip else None)"

definition truncateIP :: "wire \<Rightarrow> byte \<Rightarrow> wire" where
  "truncateIP ip prefix =
     (let bits = unat prefix in
      if bits = 0 then []
      else let nbytes = min ((bits + 7) div 8) (length ip); out = take nbytes ip; r = bits mod 8 in
        if r \<noteq> 0 then out[nbytes - 1 := out ! (nbytes - 1) AND push_bit (8 - r) 0xff] else out)"

definition ecsAddress :: "wire option \<Rightarrow> u16 \<times> byte \<times> wire" where
  "ecsAddress ip = (case ip of None \<Rightarrow> (0, 0, [])
    | Some a \<Rightarrow> (case ipTo4 a of
        Some v4 \<Rightarrow> (ecsFamilyIPv4, defaultECSv4Prefix, truncateIP v4 defaultECSv4Prefix)
      | None \<Rightarrow> (case ipTo16 a of
          Some v6 \<Rightarrow> (ecsFamilyIPv6, defaultECSv6Prefix, truncateIP v6 defaultECSv6Prefix)
        | None \<Rightarrow> (0, 0, []))))"

definition encodeECSOption :: "wire option \<Rightarrow> wire doh" where
  "encodeECSOption ip =
     (case ecsAddress ip of (family, prefix, addr) \<Rightarrow>
        if family = 0 then Err ErrInvalidRequest
        else Ok (be16_bytes ednsOptionECS @ be16_bytes (word_of_nat (4 + length addr))
          @ be16_bytes family @ [prefix, 0] @ addr))"

definition encodeOPT :: "wire \<Rightarrow> wire" where
  "encodeOPT option =
     [0, 0, 41, 0x04, 0xd0, 0, 0, 0, 0, word_of_nat (length option div 256), word_of_nat (length option)]
     @ option"

definition injectECS :: "wire \<Rightarrow> wire option \<Rightarrow> wire doh" where
  "injectECS wire ip =
     (if length wire < 12 then Err ErrInvalidDNSMessage
      else rbind (encodeECSOption ip) (\<lambda>option. rbind (be16 wire 10) (\<lambda>additionalCount.
        if additionalCount = 0 then
          (let result = wire @ encodeOPT option in
           if length result > MaxDNSRequestBytes then Err ErrRequestTooLarge
           else put_be16 result 10 1)
        else case parseQuestionName wire 12 of
          Panic \<Rightarrow> Panic
        | Err e \<Rightarrow> Err ErrInvalidDNSMessage
        | Ok (questionEnd, _) \<Rightarrow>
          if questionEnd + 4 + 11 > length wire then Err ErrInvalidDNSMessage
          else rbind (idx wire (questionEnd + 4)) (\<lambda>root.
            if root \<noteq> 0 then Err ErrInvalidDNSMessage
            else let rdlengthOff = questionEnd + 4 + 9 in
              rbind (be16 wire rdlengthOff) (\<lambda>rdlength.
                if rdlengthOff + 2 + unat rdlength \<noteq> length wire then Err ErrInvalidDNSMessage
                else let result = wire @ option in
                  if length result > MaxDNSRequestBytes then Err ErrRequestTooLarge
                  else put_be16 result rdlengthOff (word_of_nat (unat rdlength + length option)))))))"

text \<open>
  \<^verbatim>\<open>applyOutboundECS\<close> with \<^verbatim>\<open>net.IP.String\<close> as the parameter \<open>ipString\<close>.
\<close>

definition applyOutboundECS :: "(wire \<Rightarrow> string) \<Rightarrow> parsedQuery \<Rightarrow> wire option \<Rightarrow> (wire \<times> string) doh" where
  "applyOutboundECS ipString query forwarded =
     (if pq_hasECS query then Ok (pq_wire query, ''query'')
      else case forwarded of
        None \<Rightarrow> Ok (pq_wire query, ''none'')
      | Some ip \<Rightarrow> (case injectECS (pq_wire query) forwarded of
          Panic \<Rightarrow> Panic
        | Err e \<Rightarrow> Ok (pq_wire query, ''none'')
        | Ok injected \<Rightarrow> Ok (injected, ''forwarded:'' @ ipString ip)))"

section \<open>Question names: bounds, case and locality\<close>

lemma lowerByte_eq_small: "lowerByte b = a \<Longrightarrow> a \<le> 63 \<Longrightarrow> b = a"
  by (auto simp: lowerByte_def word_le_nat_alt unat_word_ariths split: if_splits)

lemma lowerByte_small: "b \<le> 63 \<Longrightarrow> lowerByte b = b"
  by (auto simp: lowerByte_def word_le_nat_alt)

lemma lowerByte_idem [simp]: "lowerByte (lowerByte b) = lowerByte b"
  by (auto simp: lowerByte_def word_le_nat_alt unat_word_ariths)

lemma parseQuestionNameLoop_no_panic [no_panic]:
  "parseQuestionNameLoop n wire offset canonical \<noteq> Panic"
  by (induction n arbitrary: offset canonical) (auto simp: Let_def)

lemma parseQuestionName_no_panic [no_panic]: "parseQuestionName wire offset \<noteq> Panic"
  by (simp add: parseQuestionName_def no_panic)

text \<open>
  An accepted name ends inside the message; its canonical form is the name with every byte
  lowered, which leaves the length bytes alone because they are at most 63.
\<close>

lemma parseQuestionNameLoop_Ok:
  assumes "parseQuestionNameLoop n wire offset canonical = Ok (e, c)"
  shows "offset < e \<and> e \<le> length wire \<and> length c \<le> 255
    \<and> c = canonical @ map lowerByte (seg wire offset e)"
  using assms
proof (induction n arbitrary: offset canonical)
  case 0
  then show ?case by simp
next
  case (Suc n)
  let ?b = "wire ! offset"
  let ?off = "offset + 1 + unat ?b"
  from Suc.prems have off: "offset < length wire"
    by (auto split: if_splits)
  show ?case
  proof (cases "unat ?b = 0")
    case True
    with Suc.prems off show ?thesis
      by (auto simp: seg_single lowerByte_def word_le_nat_alt split: if_splits)
  next
    case False
    with Suc.prems off have small: "?b \<le> 63" and fits: "?off \<le> length wire"
      and rec: "parseQuestionNameLoop n wire ?off
        (canonical @ [?b] @ map lowerByte (seg wire (offset + 1) ?off)) = Ok (e, c)"
      by (auto simp: Let_def seg_def word_le_nat_alt split: if_splits)
    from Suc.IH [OF rec] have e: "?off < e" "e \<le> length wire" "length c \<le> 255"
      and c: "c = canonical @ ([?b] @ map lowerByte (seg wire (offset + 1) ?off))
        @ map lowerByte (seg wire ?off e)"
      by auto
    have "seg wire offset e = [?b] @ seg wire (offset + 1) ?off @ seg wire ?off e"
      using e off seg_split [of offset "offset + 1" e wire] seg_split [of "offset + 1" ?off e wire]
      by (simp add: seg_single)
    with c small e show ?thesis by (simp add: lowerByte_small)
  qed
qed

text \<open>
  The loop looks at the bytes of the name only, and only up to letter case.
\<close>

lemma parseQuestionNameLoop_lower:
  assumes "parseQuestionNameLoop n wire offset canonical = Ok (e, c)"
    and "e \<le> length wire'"
    and "\<And>i. offset \<le> i \<Longrightarrow> i < e \<Longrightarrow> lowerByte (wire' ! i) = lowerByte (wire ! i)"
  shows "parseQuestionNameLoop n wire' offset canonical = Ok (e, c)"
  using assms
proof (induction n arbitrary: offset canonical)
  case 0
  then show ?case by simp
next
  case (Suc n)
  let ?b = "wire ! offset"
  let ?off = "offset + 1 + unat ?b"
  note bounds = parseQuestionNameLoop_Ok [OF Suc.prems(1)]
  from Suc.prems(1) bounds have off: "offset < length wire" "offset < length wire'" and small: "?b \<le> 63"
    using Suc.prems(2) by (auto simp: Let_def word_le_nat_alt split: if_splits)
  have b': "wire' ! offset = ?b"
    using Suc.prems(3) [of offset] bounds small by (auto simp: lowerByte_small intro: lowerByte_eq_small)
  show ?case
  proof (cases "unat ?b = 0")
    case True
    with Suc.prems(1) off b' show ?thesis by (auto split: if_splits)
  next
    case False
    with Suc.prems(1) off have fits: "?off \<le> length wire" "length canonical + 1 + unat ?b \<le> 255"
      "?b AND 0xc0 = 0"
      and rec: "parseQuestionNameLoop n wire ?off
        (canonical @ [?b] @ map lowerByte (seg wire (offset + 1) ?off)) = Ok (e, c)"
      by (auto simp: Let_def seg_def split: if_splits)
    note off' = parseQuestionNameLoop_Ok [OF rec]
    have lab: "map lowerByte (seg wire' (offset + 1) ?off) = map lowerByte (seg wire (offset + 1) ?off)"
      using Suc.prems(2,3) off' by (auto simp: list_eq_iff_nth_eq nth_seg)
    have "parseQuestionNameLoop n wire' ?off
        (canonical @ [?b] @ map lowerByte (seg wire (offset + 1) ?off)) = Ok (e, c)"
      by (rule Suc.IH [OF rec Suc.prems(2)]) (use Suc.prems(3) in auto)
    with False off b' fits off' small lab Suc.prems(2) show ?thesis
      by (simp add: Let_def seg_def word_le_nat_alt)
  qed
qed

lemma parseQuestionName_Ok:
  assumes "parseQuestionName wire offset = Ok (e, c)"
  shows "offset < e" "e \<le> length wire" "length c \<le> 255" "c = map lowerByte (seg wire offset e)"
    "length c = e - offset"
  using parseQuestionNameLoop_Ok [of 128 wire offset "[]" e c] assms
  by (auto simp: parseQuestionName_def)

lemma parseQuestionName_lower:
  assumes "parseQuestionName wire offset = Ok (e, c)"
    and "e \<le> length wire'"
    and "\<And>i. offset \<le> i \<Longrightarrow> i < e \<Longrightarrow> lowerByte (wire' ! i) = lowerByte (wire ! i)"
  shows "parseQuestionName wire' offset = Ok (e, c)"
  using parseQuestionNameLoop_lower [of 128 wire offset "[]" e c wire'] assms
  by (auto simp: parseQuestionName_def)

lemma parseQuestionName_agree:
  assumes "parseQuestionName wire offset = Ok (e, c)" and "agree wire wire' offset e"
  shows "parseQuestionName wire' offset = Ok (e, c)"
  using assms by (intro parseQuestionName_lower [OF assms(1)]) (auto simp: agree_def)

section \<open>EDNS: absence of panics and locality\<close>

lemma validateEDNSOptions_no_panic [no_panic]:
  "e \<le> length wire \<Longrightarrow> validateEDNSOptions wire s e \<noteq> Panic"
proof (induction wire s e rule: validateEDNSOptions.induct)
  case (1 wire s e)
  then show ?case by (subst validateEDNSOptions.simps) (auto simp: Let_def)
qed

lemma ednsOptionLoop_no_panic [no_panic]:
  "e \<le> length wire \<Longrightarrow> ednsOptionLoop wire s e code \<noteq> Panic"
proof (induction wire s e code rule: ednsOptionLoop.induct)
  case (1 wire s e code)
  then show ?case by (subst ednsOptionLoop.simps) (auto simp: Let_def)
qed

lemma validateEDNSQuery_no_panic [no_panic]: "validateEDNSQuery wire offset \<noteq> Panic"
  by (auto simp: validateEDNSQuery_def Let_def no_panic)

lemma ednsHasOption_no_panic [no_panic]: "ednsHasOption wire offset code \<noteq> Panic"
  by (auto simp: ednsHasOption_def Let_def no_panic)

lemma validateEDNSOptions_agree:
  "agree wire wire' s e \<Longrightarrow> validateEDNSOptions wire s e = validateEDNSOptions wire' s e"
proof (induction wire s e rule: validateEDNSOptions.induct)
  case (1 wire s e)
  then show ?case
    by (subst (1 2) validateEDNSOptions.simps)
      (auto simp: agree_be16 [OF "1.prems"] agree_mono [OF "1.prems", of _ e] intro!: rbind_cong)
qed

lemma ednsOptionLoop_agree:
  "agree wire wire' s e \<Longrightarrow> ednsOptionLoop wire s e code = ednsOptionLoop wire' s e code"
proof (induction wire s e code rule: ednsOptionLoop.induct)
  case (1 wire s e code)
  then show ?case
    by (subst (1 2) ednsOptionLoop.simps)
      (auto simp: agree_be16 [OF "1.prems"] agree_mono [OF "1.prems", of _ e] intro!: rbind_cong)
qed

lemma validateEDNSQuery_agree:
  assumes "length wire' = length wire" and "agree wire wire' offset (length wire)"
  shows "validateEDNSQuery wire' offset = validateEDNSQuery wire offset"
proof (cases "offset + 11 \<le> length wire")
  case True
  then show ?thesis
    using assms validateEDNSOptions_agree [of wire wire' "offset + 11" "length wire"]
      agree_mono [OF assms(2), of "offset + 11" "length wire"] agree_nth [OF assms(2), of offset]
    by (auto simp: validateEDNSQuery_def Let_def agree_seg [OF assms(2)])
qed (use assms in \<open>simp add: validateEDNSQuery_def\<close>)

lemma ednsHasOption_agree:
  assumes "length wire' = length wire" and "agree wire wire' offset (length wire)"
  shows "ednsHasOption wire' offset code = ednsHasOption wire offset code"
proof (cases "offset + 11 \<le> length wire")
  case True
  let ?e = "offset + 11 + unat (be16_of (seg wire (offset + 9) (offset + 11)))"
  show ?thesis
  proof (cases "?e \<le> length wire")
    case le: True
    then show ?thesis
      using assms True ednsOptionLoop_agree [of wire wire' "offset + 11" ?e code]
        agree_mono [OF assms(2), of "offset + 11" ?e] agree_nth [OF assms(2), of offset]
      by (auto simp: ednsHasOption_def Let_def agree_seg [OF assms(2)] add.commute [of 11 offset])
  next
    case False
    then show ?thesis
      using assms True agree_nth [OF assms(2), of offset]
      by (auto simp: ednsHasOption_def Let_def agree_seg [OF assms(2)] add.commute [of 11 offset])
  qed
qed (use assms in \<open>simp add: ednsHasOption_def\<close>)

section \<open>The shape of an accepted query\<close>

definition queryAdditional :: "wire \<Rightarrow> u16" where
  "queryAdditional w = be16_of (seg w 10 12)"

text \<open>A query header: not a response, opcode 0, one question and at most one additional record.\<close>

definition queryHeaderOk :: "wire \<Rightarrow> bool" where
  "queryHeaderOk w \<longleftrightarrow>
     be16_of (seg w 2 4) AND 0x8000 = 0 \<and> be16_of (seg w 2 4) AND 0x7800 = 0
     \<and> be16_of (seg w 4 6) = 1 \<and> be16_of (seg w 6 8) = 0 \<and> be16_of (seg w 8 10) = 0
     \<and> queryAdditional w \<le> 1"

text \<open>The message with the ID cleared and the name in canonical form.\<close>

definition queryNormal :: "wire \<Rightarrow> nat \<Rightarrow> wire" where
  "queryNormal w e = [0, 0] @ seg w 2 12 @ map lowerByte (seg w 12 e) @ drop e w"

definition queryResult :: "(wire \<Rightarrow> wire) \<Rightarrow> wire \<Rightarrow> nat \<Rightarrow> bool \<Rightarrow> parsedQuery" where
  "queryResult sha256 w e ecs =
     \<lparr> pq_wire = w, pq_normalized = queryNormal w e,
       pq_question = map lowerByte (seg w 12 e) @ seg w e (e + 4),
       pq_key = hexEncode (sha256 (queryNormal w e)),
       pq_digest = hexEncode (take 8 (sha256 (queryNormal w e))),
       pq_qtype = itoa (unat (be16_of (seg w e (e + 2)))),
       pq_id = be16_of (seg w 0 2), pq_hasECS = ecs \<rparr>"

definition queryBody :: "wire \<Rightarrow> nat \<Rightarrow> bool \<Rightarrow> bool" where
  "queryBody w e ecs \<longleftrightarrow>
     (\<exists>c. parseQuestionName w 12 = Ok (e, c)) \<and> e + 4 \<le> length w
     \<and> be16_of (seg w e (e + 2)) \<noteq> 0 \<and> be16_of (seg w (e + 2) (e + 4)) = 1
     \<and> (if queryAdditional w = 1
         then validateEDNSQuery w (e + 4) = Ok () \<and> ednsHasOption w (e + 4) ednsOptionECS = Ok ecs
         else e + 4 = length w \<and> \<not> ecs)"

lemma queryNormal_puts:
  assumes "parseQuestionName w 12 = Ok (e, c)" and "e + 4 \<le> length w"
  shows "rbind (put_at w 0 [0, 0]) (\<lambda>z. put_at z 12 (take (e - 12) c)) = (Ok (queryNormal w e) :: wire doh)"
    and "seg (queryNormal w e) 12 (e + 4) = map lowerByte (seg w 12 e) @ seg w e (e + 4)"
proof -
  note n = parseQuestionName_Ok [OF assms(1)]
  have c: "take (e - 12) c = map lowerByte (seg w 12 e)" "length (seg w 12 e) = e - 12"
    using n assms(2) by auto
  have "take 12 (0 # 0 # drop 2 w) = 0 # 0 # seg w 2 12"
    by (simp add: seg_def take_Cons')
  moreover have "drop (12 + (e - 12)) (0 # 0 # drop 2 w) = drop e w"
    using n by (cases e) (auto simp: drop_Cons' )
  ultimately show "rbind (put_at w 0 [0, 0]) (\<lambda>z. put_at z 12 (take (e - 12) c)) = (Ok (queryNormal w e) :: wire doh)"
    using n assms(2) c by (simp add: queryNormal_def numeral_2_eq_2)
  have "length ([0, 0] @ seg w 2 12) = 12" using n assms(2) by simp
  then show "seg (queryNormal w e) 12 (e + 4) = map lowerByte (seg w 12 e) @ seg w e (e + 4)"
    using n assms(2) c unfolding queryNormal_def seg_def append_assoc [symmetric]
    by (simp add: )
qed

text \<open>\<^verbatim>\<open>parseDNSQuery\<close> as one case distinction on the question name.\<close>

lemma parseDNSQuery_cases:
  "parseDNSQuery sha256 w =
     (if length w < 17 \<or> \<not> queryHeaderOk w then Err ErrInvalidDNSMessage
      else case parseQuestionName w 12 of
        Panic \<Rightarrow> Panic
      | Err _ \<Rightarrow> Err ErrInvalidDNSMessage
      | Ok (e, c) \<Rightarrow>
          if length w < e + 4 \<or> be16_of (seg w e (e + 2)) = 0 \<or> be16_of (seg w (e + 2) (e + 4)) \<noteq> 1
             \<or> (queryAdditional w = 0 \<and> e + 4 \<noteq> length w) then Err ErrInvalidDNSMessage
          else rbind (if queryAdditional w = 1
                      then rbind (validateEDNSQuery w (e + 4)) (\<lambda>_. ednsHasOption w (e + 4) ednsOptionECS)
                      else Ok False) (\<lambda>ecs. Ok (queryResult sha256 w e ecs)))"
proof (cases "length w < 17")
  case False
  have *: "rbind (put_at w 0 [0, 0]) (\<lambda>zeroed. rbind (put_at zeroed 12 (take (e - 12) c)) (\<lambda>normalized.
       rbind (slice normalized 12 (e + 4)) (\<lambda>question. f normalized question)))
     = f (queryNormal w e) (map lowerByte (seg w 12 e) @ seg w e (e + 4))"
    if "parseQuestionName w 12 = Ok (e, c)" and "e + 4 \<le> length w"
    for e c and f :: "wire \<Rightarrow> wire \<Rightarrow> parsedQuery doh"
  proof -
    note n = parseQuestionName_Ok [OF that(1)]
    have len: "length (queryNormal w e) = length w"
      using n that(2) by (simp add: queryNormal_def)
    have puts: "rbind (put_at w 0 [0, 0]) (\<lambda>zeroed. rbind (put_at zeroed 12 (take (e - 12) c)) g)
        = g (queryNormal w e)" for g :: "wire \<Rightarrow> parsedQuery doh"
      using queryNormal_puts(1) [OF that] by (cases "put_at w 0 [0, 0] :: wire doh") auto
    have "slice (queryNormal w e) 12 (e + 4)
        = (Ok (map lowerByte (seg w 12 e) @ seg w e (e + 4)) :: wire doh)"
      using queryNormal_puts(2) [OF that] n(1) that(2) len by (simp add: slice_Ok seg_def)
    then show ?thesis
      by (simp only: puts rbind.simps)
  qed
  show ?thesis
  proof (cases "parseQuestionName w 12")
    case (Ok ec)
    obtain e c where ec: "parseQuestionName w 12 = Ok (e, c)" using Ok by (cases ec) auto
    show ?thesis
      using False
      by (auto simp: parseDNSQuery_def ec queryHeaderOk_def queryAdditional_def * [OF ec]
        queryResult_def not_le simp del: put_at_Ok)
  qed (use False in \<open>auto simp: parseDNSQuery_def queryHeaderOk_def queryAdditional_def\<close>)
qed (simp add: parseDNSQuery_def)

lemma parseDNSQuery_iff:
  "parseDNSQuery sha256 w = Ok q \<longleftrightarrow>
     17 \<le> length w \<and> queryHeaderOk w \<and> (\<exists>e ecs. queryBody w e ecs \<and> q = queryResult sha256 w e ecs)"
proof -
  have "queryAdditional w = 0 \<or> queryAdditional w = 1" if "queryHeaderOk w"
    using that by (auto simp: queryHeaderOk_def word_le_nat_alt le_Suc_eq word_unat_eq_iff)
  then show ?thesis
    by (cases "parseQuestionName w 12")
      (auto simp: parseDNSQuery_cases queryBody_def split: if_splits)
qed

lemma parseDNSQuery_no_panic [no_panic]: "parseDNSQuery sha256 w \<noteq> Panic"
  by (auto simp: parseDNSQuery_cases no_panic rbind_not_Panic split: res.split)

section \<open>Injecting the client subnet\<close>

text \<open>Option lists compose: a list that ends exactly at \<open>m\<close> can be continued from \<open>m\<close>.\<close>

lemma validateEDNSOptions_append:
  "validateEDNSOptions wire s m = Ok () \<Longrightarrow> agree wire wire' s m \<Longrightarrow> s \<le> m \<Longrightarrow> m \<le> e \<Longrightarrow> e \<le> length wire' \<Longrightarrow>
    validateEDNSOptions wire' s e = validateEDNSOptions wire' m e"
proof (induction wire s m rule: validateEDNSOptions.induct)
  case (1 wire s m)
  show ?case
  proof (cases "s < m")
    case True
    let ?l = "be16_of (seg wire (s + 2) (s + 4))"
    from "1.prems" True have fits: "s + 4 \<le> m" "s + 4 + unat ?l \<le> m"
      and rec: "validateEDNSOptions wire (s + 4 + unat ?l) m = Ok ()"
      by (auto simp: validateEDNSOptions.simps [of wire s m] be16_eq_Ok split: if_splits)
    have "validateEDNSOptions wire' (s + 4 + unat ?l) e = validateEDNSOptions wire' m e"
      using "1.prems" fits rec True by (intro "1.IH" [where a = ?l]) (auto simp: be16_eq_Ok agree_def)
    moreover have "validateEDNSOptions wire' s e = validateEDNSOptions wire' (s + 4 + unat ?l) e"
      using "1.prems" fits True agree_seg [OF "1.prems"(2), of "s + 2" "s + 4"]
      by (subst validateEDNSOptions.simps) (auto simp: agree_def)
    ultimately show ?thesis by simp
  qed (use "1.prems" in simp)
qed

lemma ednsOptionLoop_append:
  "validateEDNSOptions wire s m = Ok () \<Longrightarrow> agree wire wire' s m \<Longrightarrow> s \<le> m \<Longrightarrow> m \<le> e \<Longrightarrow> e \<le> length wire' \<Longrightarrow>
    ednsOptionLoop wire' m e code = Ok True \<Longrightarrow> ednsOptionLoop wire' s e code = Ok True"
proof (induction wire s m rule: validateEDNSOptions.induct)
  case (1 wire s m)
  show ?case
  proof (cases "s < m")
    case True
    let ?l = "be16_of (seg wire (s + 2) (s + 4))"
    from "1.prems" True have fits: "s + 4 \<le> m" "s + 4 + unat ?l \<le> m"
      and rec: "validateEDNSOptions wire (s + 4 + unat ?l) m = Ok ()"
      by (auto simp: validateEDNSOptions.simps [of wire s m] be16_eq_Ok split: if_splits)
    have "ednsOptionLoop wire' (s + 4 + unat ?l) e code = Ok True"
      using "1.prems" fits rec True by (intro "1.IH" [where a = ?l]) (auto simp: be16_eq_Ok agree_def)
    then show ?thesis
      using "1.prems" fits True agree_seg [OF "1.prems"(2), of "s + 2" "s + 4"]
      by (subst ednsOptionLoop.simps) (auto simp: agree_def)
  qed (use "1.prems" in simp)
qed

lemma encodeECSOption_Ok:
  assumes "length ip = 4 \<or> length ip = 16"
  obtains payload where "encodeECSOption (Some ip)
      = Ok (be16_bytes ednsOptionECS @ be16_bytes (word_of_nat (length payload)) @ payload)"
    and "length payload \<le> 11"
proof -
  obtain family prefix addr where a: "ecsAddress (Some ip) = (family, prefix, addr)"
    by (cases "ecsAddress (Some ip)") auto
  have "family \<noteq> 0" and len: "length addr \<le> 7"
    using assms a
    by (auto simp: ecsAddress_def ipTo4_def ipTo16_def truncateIP_def ecsFamilyIPv4_def ecsFamilyIPv6_def
      defaultECSv4Prefix_def defaultECSv6Prefix_def Let_def split: if_splits)
  with a len have "encodeECSOption (Some ip) = Ok (be16_bytes ednsOptionECS
      @ be16_bytes (word_of_nat (length (be16_bytes family @ [prefix, 0] @ addr)))
      @ be16_bytes family @ [prefix, 0] @ addr)"
    by (simp add: encodeECSOption_def)
  then show thesis using len by (intro that) (assumption, simp)
qed

lemma validateEDNSOptions_end: "e \<le> s \<Longrightarrow> validateEDNSOptions w s e = Ok ()"
  by (simp add: validateEDNSOptions.simps [of w s])

text \<open>The walk over one well-formed option that fills the range.\<close>

lemma edns_one_option:
  assumes "seg w s (length w) = be16_bytes code @ be16_bytes (word_of_nat (length payload)) @ payload"
    and "length payload < 2 ^ 16" and "s \<le> length w"
  shows "validateEDNSOptions w s (length w) = Ok ()" and "ednsOptionLoop w s (length w) code = Ok True"
proof -
  have len: "length w = s + 4 + length payload"
    using arg_cong [OF assms(1), of length] assms(3) by simp
  have "seg w s (s + 2) = take 2 (seg w s (length w))" and "seg w (s + 2) (s + 4) = take 2 (drop 2 (seg w s (length w)))"
    using len by (auto simp: seg_def add.commute)
  then have reads: "be16_of (seg w s (s + 2)) = code"
    "be16_of (seg w (s + 2) (s + 4)) = word_of_nat (length payload)"
    by (auto simp: assms(1))
  have "unat (word_of_nat (length payload) :: u16) = length payload"
    using assms(2) by (simp add: unat_word_of_nat)
  with reads len show "validateEDNSOptions w s (length w) = Ok ()"
    by (simp add: validateEDNSOptions.simps [of w s] validateEDNSOptions_end)
  show "ednsOptionLoop w s (length w) code = Ok True"
    using reads len by (simp add: ednsOptionLoop.simps [of w s])
qed

lemma parseDNSQuery_with_ECS:
  assumes "queryHeaderOk w" and "queryBody w e ecs" and "17 \<le> length w'"
    and low: "agree w w' 0 10" and question: "agree w w' 12 (e + 4)" and count: "be16_of (seg w' 10 12) = 1"
    and "validateEDNSQuery w' (e + 4) = Ok ()" and "ednsHasOption w' (e + 4) ednsOptionECS = Ok True"
  shows "parseDNSQuery sha256 w' = Ok (queryResult sha256 w' e True)"
    and "pq_question (queryResult sha256 w' e True) = pq_question (queryResult sha256 w e ecs)"
    and "pq_id (queryResult sha256 w' e True) = pq_id (queryResult sha256 w e ecs)"
    and "pq_qtype (queryResult sha256 w' e True) = pq_qtype (queryResult sha256 w e ecs)"
proof -
  from assms(2) obtain c where name: "parseQuestionName w 12 = Ok (e, c)" by (auto simp: queryBody_def)
  have name': "parseQuestionName w' 12 = Ok (e, c)"
    by (rule parseQuestionName_agree [OF name agree_mono [OF question]]) auto
  have "12 < e" by (rule parseQuestionName_Ok(1) [OF name])
  note reads = agree_seg [OF low] agree_seg [OF question]
  have "queryHeaderOk w'"
    using assms(1) count by (simp add: queryHeaderOk_def queryAdditional_def reads)
  moreover have "queryBody w' e True"
    using assms \<open>12 < e\<close> name' by (simp add: queryBody_def queryAdditional_def reads agree_def)
  ultimately show "parseDNSQuery sha256 w' = Ok (queryResult sha256 w' e True)"
    using assms(3) by (auto simp: parseDNSQuery_iff)
  show "pq_question (queryResult sha256 w' e True) = pq_question (queryResult sha256 w e ecs)"
    and "pq_id (queryResult sha256 w' e True) = pq_id (queryResult sha256 w e ecs)"
    and "pq_qtype (queryResult sha256 w' e True) = pq_qtype (queryResult sha256 w e ecs)"
    using \<open>12 < e\<close> by (simp_all add: queryResult_def reads)
qed

text \<open>Without an OPT record the injection appends one.\<close>

lemma injectECS_new_record:
  assumes "17 \<le> length w" and "queryAdditional w = 0"
    and option: "encodeECSOption (Some ip)
      = Ok (be16_bytes ednsOptionECS @ be16_bytes (word_of_nat (length payload)) @ payload)"
    and small: "length payload \<le> 11" and room: "length w + 26 \<le> MaxDNSRequestBytes"
  shows "\<exists>w'. injectECS w (Some ip) = Ok w' \<and> agree w w' 0 10 \<and> agree w w' 12 (length w)
    \<and> be16_of (seg w' 10 12) = 1 \<and> length w \<le> length w'
    \<and> validateEDNSQuery w' (length w) = Ok () \<and> ednsHasOption w' (length w) ednsOptionECS = Ok True"
proof -
  define opt where "opt = be16_bytes ednsOptionECS @ be16_bytes (word_of_nat (length payload)) @ payload"
  define r where "r = w @ encodeOPT opt"
  have lens: "length opt = 4 + length payload" "length r = length w + 15 + length payload"
    by (simp_all add: opt_def r_def encodeOPT_def)
  obtain w' where w': "put_at r 10 (be16_bytes 1) = (Ok w' :: wire doh)"
    using lens assms(1) by simp
  have len: "length w' = length w + 15 + length payload"
    using put_at_length [OF w'] lens by simp
  have tail: "agree r w' (length w) (length r)" and low: "agree r w' 0 10" and mid: "agree r w' 12 (length w)"
    using assms(1) lens by (auto intro!: agree_put_at [OF w'])
  have segs: "seg w' (length w + a) (length w + b) = seg (encodeOPT opt) a b" if "b \<le> 15 + length payload" for a b
    using agree_seg [OF tail, of "length w + a" "length w + b"] that lens
    by (simp add: r_def seg_append_right)
  have opt15: "encodeOPT opt = [0, 0, 41, 4, 0xd0, 0, 0, 0, 0, 0, word_of_nat (4 + length payload)] @ opt"
    using small by (simp add: encodeOPT_def lens)
  have root: "w' ! length w = 0"
    using agree_nth [OF tail, of "length w"] lens by (simp add: r_def nth_append opt15)
  have rdlen: "unat (be16_of [0, 4 + word_of_nat (length payload)]) = 4 + length payload"
    using small unat_word_of_nat [of "4 + length payload", where 'a = 8] by (simp add: unat_be16_of)
  have fixed: "be32_of [0, 0, 0, 0] = 0" "be16_of [0, 41] = 41"
    by (simp_all add: be32_of_def be16_of_def)
  have optseg: "seg w' (length w + 11) (length w') = opt"
    using segs [of "15 + length payload" 11] len by (simp add: opt15 seg_def lens)
  note walk = edns_one_option [of w' "length w + 11" ednsOptionECS payload, OF optseg [unfolded opt_def]]
  have "validateEDNSQuery w' (length w) = Ok ()"
    using segs [of 3 1] segs [of 9 5] segs [of 11 9] root len walk small rdlen
    by (simp add: validateEDNSQuery_def opt15 seg_def fixed ac_simps)
  moreover have "ednsHasOption w' (length w) ednsOptionECS = Ok True"
    using segs [of 11 9] root len walk small rdlen
    by (simp add: ednsHasOption_def opt15 seg_def ac_simps)
  moreover have "injectECS w (Some ip) = Ok w'"
    using assms lens w' unfolding opt_def [symmetric] 
    by (simp add: injectECS_def queryAdditional_def r_def put_be16_def opt_def)
  moreover have "be16_of (seg w' 10 12) = 1"
    using seg_put_at [OF w'] by simp
  ultimately show ?thesis
    using low mid len assms(1) by (auto simp: agree_def r_def nth_append)
qed

text \<open>With an OPT record the option is appended to it and its length updated.\<close>

lemma injectECS_old_record:
  assumes "queryAdditional w = 1" and body: "queryBody w e ecs"
    and option: "encodeECSOption (Some ip)
      = Ok (be16_bytes ednsOptionECS @ be16_bytes (word_of_nat (length payload)) @ payload)"
    and small: "length payload \<le> 11" and room: "length w + 26 \<le> MaxDNSRequestBytes"
  shows "\<exists>w'. injectECS w (Some ip) = Ok w' \<and> agree w w' 0 (e + 13) \<and> length w \<le> length w'
    \<and> validateEDNSQuery w' (e + 4) = Ok () \<and> ednsHasOption w' (e + 4) ednsOptionECS = Ok True"
proof -
  define opt where "opt = be16_bytes ednsOptionECS @ be16_bytes (word_of_nat (length payload)) @ payload"
  obtain c where name: "parseQuestionName w 12 = Ok (e, c)"
    and edns: "validateEDNSQuery w (e + 4) = Ok ()"
    using body assms(1) by (auto simp: queryBody_def)
  note name_bounds = parseQuestionName_Ok(1,2) [OF name]
  define n where "n = unat (be16_of (seg w (e + 13) (e + 15)))"
  from edns have old: "e + 15 \<le> length w" "w ! (e + 4) = 0" "be16_of (seg w (e + 5) (e + 7)) = 41"
    "be32_of (seg w (e + 9) (e + 13)) AND 0xffff7fff = 0" "length w = e + 15 + n"
    "validateEDNSOptions w (e + 15) (length w) = Ok ()"
    by (auto simp: validateEDNSQuery_def n_def Let_def split: if_splits)
  define r where "r = w @ opt"
  have lens: "length opt = 4 + length payload" "length r = length w + 4 + length payload"
    by (simp_all add: opt_def r_def)
  let ?n = "word_of_nat (n + length opt) :: u16"
  obtain w' where w': "put_at r (e + 13) (be16_bytes ?n) = (Ok w' :: wire doh)"
    using lens old by simp
  have len: "length w' = length w + 4 + length payload"
    using put_at_length [OF w'] lens by simp
  have n': "unat ?n = n + length opt"
    using room old small lens by (intro unat_word_of_nat) (simp add: MaxDNSRequestBytes_def)
  have low: "agree w w' 0 (e + 13)" and high: "agree w w' (e + 15) (length w)"
    and tail: "agree r w' (e + 15) (length r)"
    using agree_put_at [OF w', of "e + 13" 0] agree_put_at [OF w', of "length r" "e + 15"] old lens
    by (auto simp: agree_def r_def nth_append)
  have rd: "be16_of (seg w' (e + 13) (e + 15)) = ?n"
    using seg_put_at [OF w'] by simp
  have optseg: "seg w' (length w) (length w') = opt"
    using agree_seg [OF tail, of "length w" "length r"] old lens len by (simp add: r_def seg_append_right seg_def)
  note walk = edns_one_option [of w' "length w" ednsOptionECS payload, OF optseg [unfolded opt_def]]
  have "validateEDNSOptions w' (e + 15) (length w') = Ok ()"
    and "ednsOptionLoop w' (e + 15) (length w') ednsOptionECS = Ok True"
    using validateEDNSOptions_append [OF old(6) high, of "length w'"] old len walk small
      ednsOptionLoop_append [OF old(6) high, of "length w'" ednsOptionECS]
    by auto
  then have "validateEDNSQuery w' (e + 4) = Ok ()" "ednsHasOption w' (e + 4) ednsOptionECS = Ok True"
    using old len rd n' lens agree_nth [OF low, of "e + 4"]
    by (simp_all add: validateEDNSQuery_def ednsHasOption_def agree_seg [OF low, symmetric] ac_simps)
  moreover have "injectECS w (Some ip) = Ok w'"
    using assms name_bounds old lens w' name
    by (simp add: injectECS_def queryAdditional_def r_def put_be16_def opt_def n_def)
  ultimately show ?thesis
    using low len by auto
qed

lemma injectECS_Ok:
  assumes "parseDNSQuery sha256 w = Ok q" and "\<not> pq_hasECS q"
    and "length ip = 4 \<or> length ip = 16" and "length w + 26 \<le> MaxDNSRequestBytes"
  shows "\<exists>w' q'. injectECS w (Some ip) = Ok w' \<and> parseDNSQuery sha256 w' = Ok q' \<and> pq_hasECS q'
    \<and> pq_question q' = pq_question q \<and> pq_id q' = pq_id q \<and> pq_qtype q' = pq_qtype q"
proof -
  from assms(1) obtain e ecs where w: "17 \<le> length w" "queryHeaderOk w" "queryBody w e ecs"
    and q: "q = queryResult sha256 w e ecs"
    by (auto simp: parseDNSQuery_iff)
  have add: "queryAdditional w = 0 \<or> queryAdditional w = 1"
    using w(2) by (auto simp: queryHeaderOk_def word_le_nat_alt le_Suc_eq word_unat_eq_iff)
  have e: "12 < e" using w(3) parseQuestionName_Ok(1) by (auto simp: queryBody_def)
  obtain payload where opt: "encodeECSOption (Some ip)
      = Ok (be16_bytes ednsOptionECS @ be16_bytes (word_of_nat (length payload)) @ payload)"
    and small: "length payload \<le> 11"
    by (rule encodeECSOption_Ok [OF assms(3)])
  have "\<exists>w'. injectECS w (Some ip) = Ok w' \<and> agree w w' 0 10 \<and> agree w w' 12 (e + 4)
      \<and> be16_of (seg w' 10 12) = 1 \<and> length w \<le> length w'
      \<and> validateEDNSQuery w' (e + 4) = Ok () \<and> ednsHasOption w' (e + 4) ednsOptionECS = Ok True"
  proof (cases "queryAdditional w = 0")
    case True
    then have "e + 4 = length w" using w(3) by (simp add: queryBody_def)
    then show ?thesis
      using injectECS_new_record [OF w(1) True opt small assms(4)] by simp
  next
    case False
    with add have one: "queryAdditional w = 1" by simp
    then show ?thesis
      using injectECS_old_record [OF one w(3) opt small assms(4)] e
      by (force simp: queryAdditional_def intro: agree_mono dest: agree_seg [of _ _ _ _ 10 12])
  qed
  then obtain w' where "injectECS w (Some ip) = Ok w'" and w': "agree w w' 0 10" "agree w w' 12 (e + 4)"
    "be16_of (seg w' 10 12) = 1" "validateEDNSQuery w' (e + 4) = Ok ()"
    "ednsHasOption w' (e + 4) ednsOptionECS = Ok True" "17 \<le> length w'"
    using w(1) by auto
  with parseDNSQuery_with_ECS [OF w(2,3) w'(6,1,2,3,4,5), of sha256] show ?thesis
    by (auto simp: q queryResult_def)
qed

section \<open>Properties\<close>

text \<open>
  Letter case, stated independently of the code: two bytes are equal, or they are the \<open>n\<close>-th
  letter of the two ASCII alphabets, which start at 65 and at 97.
\<close>

definition sameLetter :: "byte \<Rightarrow> byte \<Rightarrow> bool" where
  "sameLetter a b \<longleftrightarrow> a = b
     \<or> (\<exists>n \<in> {0..<26}. unat a = 65 + n \<and> unat b = 97 + n \<or> unat a = 97 + n \<and> unat b = 65 + n)"

lemma sameLetter_lowerByte: "sameLetter a b \<Longrightarrow> lowerByte a = lowerByte b"
  by (auto simp: sameLetter_def lowerByte_def word_le_nat_alt word_unat_eq_iff unat_word_ariths)

text \<open>
  C1. Two queries that differ only in the message ID and in the letter case of the question
  name are the same to the resolver: if one is accepted so is the other, with the same
  cache key, question, query type and client-subnet flag, and each keeps its own ID.
\<close>

theorem query_key_canonical:
  assumes "parseDNSQuery sha256 w = Ok q" and "length w' = length w"
    and "\<And>i. 2 \<le> i \<Longrightarrow> i < length w \<Longrightarrow> w' ! i = w ! i
      \<or> 12 \<le> i \<and> i + 4 < 12 + length (pq_question q) \<and> sameLetter (w' ! i) (w ! i)"
  shows "\<exists>q'. parseDNSQuery sha256 w' = Ok q' \<and> pq_key q' = pq_key q \<and> pq_digest q' = pq_digest q
    \<and> pq_question q' = pq_question q \<and> pq_qtype q' = pq_qtype q \<and> pq_hasECS q' = pq_hasECS q
    \<and> pq_id q' = be16_of (take 2 w')"
proof -
  from assms(1) obtain e ecs where w: "17 \<le> length w" "queryHeaderOk w" "queryBody w e ecs"
    and q: "q = queryResult sha256 w e ecs"
    by (auto simp: parseDNSQuery_iff)
  obtain c where name: "parseQuestionName w 12 = Ok (e, c)" and fits: "e + 4 \<le> length w"
    using w(3) by (auto simp: queryBody_def)
  note n = parseQuestionName_Ok [OF name]
  have name_end: "12 + length (pq_question q) = e + 4"
    using n fits by (simp add: q queryResult_def)
  have same: "w' ! i = w ! i" if "2 \<le> i" "i < 12 \<or> e \<le> i" "i < length w" for i
    using assms(3) [of i] that name_end by auto
  have low: "agree w w' 2 12" and high: "agree w w' e (length w)"
    using same w(1) assms(2) n(1) by (simp_all add: agree_def)
  have mid: "lowerByte (w' ! i) = lowerByte (w ! i)" if "12 \<le> i" "i < e" for i
    using assms(3) [of i] that fits sameLetter_lowerByte by auto
  have name': "parseQuestionName w' 12 = Ok (e, c)"
    by (rule parseQuestionName_lower [OF name]) (use fits assms(2) mid in auto)
  note reads = agree_seg [OF low, symmetric] agree_seg [OF high, symmetric]
  have lower: "map lowerByte (seg w' 12 e) = map lowerByte (seg w 12 e)"
    using mid fits assms(2) by (auto simp: list_eq_iff_nth_eq nth_seg)
  have "queryHeaderOk w'" using w(2) by (simp add: queryHeaderOk_def queryAdditional_def reads)
  moreover have "queryBody w' e ecs"
    using w(3) fits name' assms(2) validateEDNSQuery_agree [OF assms(2) agree_mono [OF high, of "e + 4"]]
      ednsHasOption_agree [OF assms(2) agree_mono [OF high, of "e + 4"]] n
    by (simp add: queryBody_def queryAdditional_def reads split: if_splits)
  ultimately have "parseDNSQuery sha256 w' = Ok (queryResult sha256 w' e ecs)"
    using w(1) assms(2) by (auto simp: parseDNSQuery_iff)
  moreover have "drop e w' = drop e w"
    using high assms(2) by (auto simp: agree_def list_eq_iff_nth_eq)
  then have "queryNormal w' e = queryNormal w e"
    by (simp add: queryNormal_def reads lower)
  ultimately show ?thesis
    using fits n(1) by (auto simp: q queryResult_def reads lower seg_0)
qed

theorem query_key_canonical_witness:
  "\<exists>q q'. parseDNSQuery id [0, 0, 1, 0, 0, 1, 0, 0, 0, 0, 0, 0, 1, 97, 2, 110, 108, 0, 0, 1, 0, 1] = Ok q
     \<and> parseDNSQuery id [7, 9, 1, 0, 0, 1, 0, 0, 0, 0, 0, 0, 1, 65, 2, 78, 108, 0, 0, 1, 0, 1] = Ok q'
     \<and> pq_key q' = pq_key q \<and> pq_id q' = 0x709"
proof -
  let ?w = "[0, 0, 1, 0, 0, 1, 0, 0, 0, 0, 0, 0, 1, 97, 2, 110, 108, 0, 0, 1, 0, 1] :: wire"
  let ?w' = "[7, 9, 1, 0, 0, 1, 0, 0, 0, 0, 0, 0, 1, 65, 2, 78, 108, 0, 0, 1, 0, 1] :: wire"
  have "case parseDNSQuery id ?w of Ok q \<Rightarrow> length (pq_question q) = 10 | _ \<Rightarrow> False"
    by code_simp
  then obtain q where q: "parseDNSQuery id ?w = Ok q" "length (pq_question q) = 10"
    by (auto split: res.splits)
  have all: "\<forall>i \<in> set [2..<22]. ?w' ! i = ?w ! i \<or> 12 \<le> i \<and> i + 4 < 22 \<and> sameLetter (?w' ! i) (?w ! i)"
    by code_simp
  have end_eq: "12 + length (pq_question q) = 22" using q by simp
  have "\<exists>q'. parseDNSQuery id ?w' = Ok q' \<and> pq_key q' = pq_key q \<and> pq_digest q' = pq_digest q
    \<and> pq_question q' = pq_question q \<and> pq_qtype q' = pq_qtype q \<and> pq_hasECS q' = pq_hasECS q
    \<and> pq_id q' = be16_of (take 2 ?w')"
  proof (rule query_key_canonical [OF q(1)])
    fix i :: nat
    assume "2 \<le> i" "i < length ?w"
    moreover have "length ?w = 22" by simp
    ultimately have "i \<in> set [2..<22]" by (simp only: set_upt atLeastLessThan_iff)
    from bspec [OF all this] show "?w' ! i = ?w ! i
      \<or> 12 \<le> i \<and> i + 4 < 12 + length (pq_question q) \<and> sameLetter (?w' ! i) (?w ! i)"
      unfolding end_eq .
  qed simp
  then show ?thesis
    using q by (auto simp: be16_of_def)
qed

text \<open>
  C2. Injecting a client subnet into an accepted query that has none, for an IPv4 or IPv6
  address, succeeds whenever the request limit leaves room for it, and the result is again
  an accepted query, with the same ID, question and query type, that carries the option.
\<close>

theorem injectECS_roundtrip:
  assumes "parseDNSQuery sha256 w = Ok q" and "\<not> pq_hasECS q"
    and "length ip = 4 \<or> length ip = 16" and "length w + 26 \<le> MaxDNSRequestBytes"
  shows "\<exists>w' q'. injectECS w (Some ip) = Ok w' \<and> parseDNSQuery sha256 w' = Ok q' \<and> pq_hasECS q'
    \<and> pq_question q' = pq_question q \<and> pq_id q' = pq_id q \<and> pq_qtype q' = pq_qtype q"
  using assms by (rule injectECS_Ok)

theorem injectECS_roundtrip_witness:
  "\<exists>w' q'. injectECS [0, 7, 1, 0, 0, 1, 0, 0, 0, 0, 0, 0, 1, 97, 2, 110, 108, 0, 0, 1, 0, 1] (Some [192, 0, 2, 1]) = Ok w'
     \<and> parseDNSQuery id w' = Ok q' \<and> pq_hasECS q' \<and> pq_id q' = 7"
proof -
  let ?w = "[0, 7, 1, 0, 0, 1, 0, 0, 0, 0, 0, 0, 1, 97, 2, 110, 108, 0, 0, 1, 0, 1] :: wire"
  have "case parseDNSQuery id ?w of Ok q \<Rightarrow> \<not> pq_hasECS q \<and> pq_id q = 7 | _ \<Rightarrow> False"
    by code_simp
  then obtain q where q: "parseDNSQuery id ?w = Ok q" "\<not> pq_hasECS q" "pq_id q = 7"
    by (auto split: res.splits)
  show ?thesis
    using injectECS_roundtrip [OF q(1,2), of "[192, 0, 2, 1]"] q(3)
    by (auto simp: MaxDNSRequestBytes_def)
qed

text \<open>
  C3. No input makes the query parser index or slice outside the message.
\<close>

theorem parseDNSQuery_total: "parseDNSQuery sha256 wire \<noteq> Panic"
  by (rule parseDNSQuery_no_panic)

end
