(* ===== verification/Doh_Http.thy ===== *)
theory Doh_Http
  imports Complex_Main Go_Base64 Go_Net Doh_Query
begin

text \<open>
  The HTTP side of \<^verbatim>\<open>src/plugins/doh/rfc8484.go\<close>: content negotiation, the GET and POST
  forms of a query, and the \<^verbatim>\<open>Forwarded\<close> header. The library functions with large tables
  or grammars are the fields of \<open>dohLib\<close>: \<^verbatim>\<open>mime.ParseMediaType\<close> (the media type in lower
  case and its parameters), \<^verbatim>\<open>strconv.ParseFloat\<close>, \<^verbatim>\<open>net.ParseIP\<close> (the 16-byte form),
  \<^verbatim>\<open>net.IP.String\<close>, \<^verbatim>\<open>sha256.Sum256\<close>, \<^verbatim>\<open>url.Parse\<close> (scheme, host and opaque part) and
  the Unicode case tables.
\<close>

datatype goFloat = FNaN | FPosInf | FNegInf | FNum rat

record dohLib =
  lib_parseMediaType :: "string \<Rightarrow> (string \<times> (string \<times> string) list) option"
  lib_parseFloat :: "string \<Rightarrow> goFloat option"
  lib_parseIP :: "string \<Rightarrow> wire option"
  lib_ipString :: "wire \<Rightarrow> string"
  lib_sha256 :: "wire \<Rightarrow> wire"
  lib_urlParse :: "string \<Rightarrow> (string \<times> string \<times> string) option"
  lib_unicodeLower :: "string \<Rightarrow> string"

section \<open>Library functions on text\<close>

text \<open>
  \<^verbatim>\<open>strings.EqualFold\<close> against an ASCII text. The callers compare either against \<open>for\<close>,
  whose letters have no fold partners outside ASCII, or a media type that
  \<^verbatim>\<open>mime.ParseMediaType\<close> has restricted to ASCII tokens.
\<close>

definition equalFold :: "string \<Rightarrow> string \<Rightarrow> bool" where
  "equalFold s t \<longleftrightarrow> map asciiLower s = map asciiLower t"

section \<open>Content negotiation\<close>

definition dnsMediaType :: string where
  "dnsMediaType = ''application/dns-message''"

record httpRequest =
  rq_method :: string
  rq_query :: string
  rq_contentType :: string
  rq_accept :: string
  rq_forwarded :: string
  rq_body :: wire

text \<open>
  The scan of \<^verbatim>\<open>splitHTTPList\<close>: \<open>part\<close> is the text since \<open>start\<close>. The source ranges over
  runes and tests for ASCII only, so the bytes of a longer rune take the branch that does nothing.
\<close>

fun splitHTTPListLoop :: "string \<Rightarrow> string \<Rightarrow> bool \<Rightarrow> bool \<Rightarrow> string list \<Rightarrow> string list option" where
  "splitHTTPListLoop [] part quoted escaped result =
     (if quoted \<or> escaped \<or> trimSpace part = [] then None else Some (result @ [trimSpace part]))"
| "splitHTTPListLoop (c # cs) part quoted escaped result =
     (if escaped then splitHTTPListLoop cs (part @ [c]) quoted False result
      else if quoted \<and> c = CHR 0x5c then splitHTTPListLoop cs (part @ [c]) quoted True result
      else if c = CHR 0x22 then splitHTTPListLoop cs (part @ [c]) (\<not> quoted) escaped result
      else if c = CHR '','' \<and> \<not> quoted then
        (if trimSpace part = [] then None
         else splitHTTPListLoop cs [] quoted escaped (result @ [trimSpace part]))
      else splitHTTPListLoop cs (part @ [c]) quoted escaped result)"

definition splitHTTPList :: "string \<Rightarrow> string list option" where
  "splitHTTPList value =
     (if length value > 4096 then None else splitHTTPListLoop value [] False False [])"

definition qualityPositive :: "goFloat \<Rightarrow> bool option" where
  "qualityPositive q = (case q of FNaN \<Rightarrow> Some False | FPosInf \<Rightarrow> None | FNegInf \<Rightarrow> None
     | FNum x \<Rightarrow> if x < 0 \<or> x > 1 then None else Some (x > 0))"

fun acceptsRanges :: "dohLib \<Rightarrow> string list \<Rightarrow> bool" where
  "acceptsRanges lib [] = False"
| "acceptsRanges lib (current # ranges) =
     (case lib_parseMediaType lib current of None \<Rightarrow> False
      | Some (mediaType, parameters) \<Rightarrow>
        (case (case map_of parameters ''q'' of None \<Rightarrow> Some True
               | Some raw \<Rightarrow> (case lib_parseFloat lib raw of None \<Rightarrow> None | Some q \<Rightarrow> qualityPositive q)) of
           None \<Rightarrow> False
         | Some positive \<Rightarrow>
           if positive \<and> (equalFold mediaType dnsMediaType \<or> mediaType = ''application/*'' \<or> mediaType = ''*/*'')
           then True else acceptsRanges lib ranges))"

definition acceptsDNSMessage :: "dohLib \<Rightarrow> string \<Rightarrow> bool" where
  "acceptsDNSMessage lib value =
     (if trimSpace value = [] then True
      else case splitHTTPList value of None \<Rightarrow> False | Some ranges \<Rightarrow> acceptsRanges lib ranges)"

section \<open>Requests\<close>

definition parseHTTPRequest :: "dohLib \<Rightarrow> httpRequest \<Rightarrow> parsedQuery doh" where
  "parseHTTPRequest lib request =
     (if \<not> acceptsDNSMessage lib (rq_accept request) then Err ErrUnsupportedMediaType
      else rbind
        (if rq_method request = ''GET'' then
           (if rq_contentType request \<noteq> [] \<or> length (rq_body request) \<noteq> 0 \<or> \<not> hasPrefix (rq_query request) ''dns=''
               \<or> containsSub (rq_query request) ''&'' \<or> length (rq_query request) = 4
            then Err ErrInvalidRequest
            else let encoded = trimPrefix (rq_query request) ''dns='' in
              if containsSub encoded ''='' then Err ErrInvalidRequest
              else (case rawURLDecode True encoded of None \<Rightarrow> Err ErrInvalidRequest | Some decoded \<Rightarrow> Ok decoded))
         else if rq_method request = ''POST'' then
           (if rq_query request \<noteq> [] then Err ErrUnsupportedMediaType
            else (case lib_parseMediaType lib (rq_contentType request) of
                None \<Rightarrow> Err ErrUnsupportedMediaType
              | Some (mediaType, parameters) \<Rightarrow>
                if \<not> equalFold mediaType dnsMediaType \<or> length parameters \<noteq> 0 then Err ErrUnsupportedMediaType
                else Ok (rq_body request)))
         else Err ErrInvalidRequest)
        (\<lambda>wire. if length wire > MaxDNSRequestBytes then Err ErrRequestTooLarge
           else parseDNSQuery (lib_sha256 lib) wire))"

section \<open>The client address\<close>

definition parseForwardedForIP :: "dohLib \<Rightarrow> string \<Rightarrow> wire option" where
  "parseForwardedForIP lib value =
     (if hasPrefix value ''['' then
        lib_parseIP lib (case splitHostPort value of Some (host, _) \<Rightarrow> host
          | None \<Rightarrow> trimSuffix (trimPrefix value ''['') '']'')
      else case lib_parseIP lib value of Some ip \<Rightarrow> Some ip
      | None \<Rightarrow> (case splitHostPort value of None \<Rightarrow> None | Some (host, _) \<Rightarrow> lib_parseIP lib host))"

text \<open>The loop over the parameters; \<open>None\<close> is the early return of nil.\<close>

fun forwardedLoop :: "string list \<Rightarrow> string \<Rightarrow> string option" where
  "forwardedLoop [] forValue = Some forValue"
| "forwardedLoop (item # items) forValue =
     (case cutByte CHR ''='' (trimSpace item) of (key, raw, found) \<Rightarrow>
        if \<not> found then forwardedLoop items forValue
        else if \<not> equalFold key ''for'' then forwardedLoop items forValue
        else if forValue \<noteq> [] then None
        else forwardedLoop items (trimByte CHR 0x22 raw))"

definition parseForwardedFor :: "dohLib \<Rightarrow> string \<Rightarrow> wire option" where
  "parseForwardedFor lib value =
     (if value = [] \<or> containsSub value '','' then None
      else case forwardedLoop (splitByte CHR '';'' value) [] of None \<Rightarrow> None
      | Some forValue \<Rightarrow> if forValue = [] then None else parseForwardedForIP lib forValue)"

section \<open>Lemmas\<close>

lemma containsSub_char: "containsSub s [c] \<longleftrightarrow> c \<in> set s"
  by (induction s) (auto simp: hasPrefix_def)

lemma sextetChar_not_amp: "n < 64 \<Longrightarrow> sextetChar n \<noteq> CHR ''&''"
proof -
  have "sextet (CHR ''&'') = None" by (simp add: sextet_def)
  then show "n < 64 \<Longrightarrow> sextetChar n \<noteq> CHR ''&''" using sextet_sextetChar by fastforce
qed

lemma rawURLEncode_not_amp: "CHR ''&'' \<notin> set (rawURLEncode bs)"
  by (induction bs rule: rawURLEncode.induct) (auto simp: Let_def encode_sextets sextetChar_not_amp [THEN not_sym])

lemma parseHTTPRequest_no_panic [no_panic]: "parseHTTPRequest lib request \<noteq> Panic"
  by (auto simp: parseHTTPRequest_def no_panic Let_def rbind_eq_Panic split: option.splits if_splits)

lemma parseHTTPRequest_Ok:
  assumes "parseHTTPRequest lib request = Ok q"
  shows "length (pq_wire q) \<le> MaxDNSRequestBytes" and "parseDNSQuery (lib_sha256 lib) (pq_wire q) = Ok q"
  using assms
  by (auto simp: parseHTTPRequest_def parseDNSQuery_iff queryResult_def split: if_splits)

section \<open>Properties\<close>

text \<open>
  C10. The two request forms are equivalent: a GET whose \<^verbatim>\<open>dns\<close> parameter is the unpadded
  base64url text of a non-empty message and a POST of that message, with the same
  \<^verbatim>\<open>Accept\<close> header, are parsed alike, whether the message is accepted or not.
\<close>

theorem get_post_equivalent:
  assumes "wire \<noteq> []" and "lib_parseMediaType lib ct = Some (''application/dns-message'', [])"
  shows "parseHTTPRequest lib \<lparr> rq_method = ''GET'', rq_query = ''dns='' @ rawURLEncode wire, rq_contentType = [],
      rq_accept = accept, rq_forwarded = fwd, rq_body = [] \<rparr>
    = parseHTTPRequest lib \<lparr> rq_method = ''POST'', rq_query = [], rq_contentType = ct,
      rq_accept = accept, rq_forwarded = fwd, rq_body = wire \<rparr>"
proof -
  have "rawURLEncode wire \<noteq> []" using assms(1) by (cases wire rule: rawURLEncode.cases) (auto simp: Let_def)
  moreover have "\<not> containsSub (rawURLEncode wire) ''=''" "\<not> containsSub (''dns='' @ rawURLEncode wire) ''&''"
    using rawURLEncode_clean [of wire] rawURLEncode_not_amp [of wire] by (auto simp: containsSub_char)
  moreover have "hasPrefix (''dns='' @ rawURLEncode wire) ''dns=''" by (rule hasPrefix_append)
  ultimately show ?thesis
    using assms(2)
    by (simp add: parseHTTPRequest_def trimPrefix_def rawURLDecode_encode equalFold_def dnsMediaType_def
      del: append_Cons)
qed

theorem get_post_equivalent_witness:
  "is_ok (parseHTTPRequest \<lparr> lib_parseMediaType = (\<lambda>s. Some (''application/dns-message'', [])), lib_parseFloat = (\<lambda>s. None),
     lib_parseIP = (\<lambda>s. None), lib_ipString = (\<lambda>b. []), lib_sha256 = id, lib_urlParse = (\<lambda>s. None),
     lib_unicodeLower = id \<rparr>
     \<lparr> rq_method = ''GET'', rq_query = ''dns='' @ rawURLEncode [0, 7, 1, 0, 0, 1, 0, 0, 0, 0, 0, 0, 1, 97, 2, 110, 108, 0, 0, 1, 0, 1],
       rq_contentType = [], rq_accept = [], rq_forwarded = [], rq_body = [] \<rparr>)"
proof -
  let ?lib = "\<lparr> lib_parseMediaType = (\<lambda>s. Some (''application/dns-message'', [])), lib_parseFloat = (\<lambda>s. None),
     lib_parseIP = (\<lambda>s. None), lib_ipString = (\<lambda>b. []), lib_sha256 = id, lib_urlParse = (\<lambda>s. None),
     lib_unicodeLower = id \<rparr>"
  let ?w = "[0, 7, 1, 0, 0, 1, 0, 0, 0, 0, 0, 0, 1, 97, 2, 110, 108, 0, 0, 1, 0, 1] :: wire"
  have "is_ok (parseHTTPRequest ?lib \<lparr> rq_method = ''POST'', rq_query = [],
      rq_contentType = ''application/dns-message'', rq_accept = [], rq_forwarded = [], rq_body = ?w \<rparr>)"
    by code_simp
  then show ?thesis
    using get_post_equivalent [of ?w ?lib "''application/dns-message''" "[]" "[]"] by simp
qed

end
