(* ===== verification/Doh_Response.thy ===== *)
theory Doh_Response
  imports Doh_Query
begin

text \<open>
  Responses of \<^verbatim>\<open>src/plugins/doh/rfc8484.go\<close>: compressed names, resource records, the
  check of an upstream response against its query, and the rewriting of TTLs when a stored
  response is served again.
\<close>

section \<open>Compressed names\<close>

text \<open>
  The loop of \<^verbatim>\<open>skipDNSName\<close>: \<open>consumedEnd\<close> is \<open>None\<close> for the source's \<open>-1\<close>, \<open>visited\<close>
  holds the keys of the map. The loop runs at most 128 times.
\<close>

fun skipDNSNameLoop :: "nat \<Rightarrow> wire \<Rightarrow> nat \<Rightarrow> nat option \<Rightarrow> nat \<Rightarrow> nat list \<Rightarrow> nat doh" where
  "skipDNSNameLoop 0 wire offset consumedEnd expandedLength visited = Err ErrInvalidDNSMessage"
| "skipDNSNameLoop (Suc labels) wire offset consumedEnd expandedLength visited =
     (if offset < 12 \<or> offset \<ge> length wire then Err ErrInvalidDNSMessage
      else if offset \<in> set visited then Err ErrInvalidDNSMessage
      else rbind (idx wire offset) (\<lambda>b.
        if b AND 0xc0 = 0xc0 then
          (if offset + 1 \<ge> length wire then Err ErrInvalidDNSMessage
           else rbind (be16 wire offset) (\<lambda>p.
             let pointer = unat (p AND 0x3fff) in
             if pointer < 12 \<or> pointer \<ge> offset then Err ErrInvalidDNSMessage
             else skipDNSNameLoop labels wire pointer
               (case consumedEnd of None \<Rightarrow> Some (offset + 2) | Some e \<Rightarrow> Some e)
               expandedLength (offset # visited)))
        else if b AND 0xc0 \<noteq> 0 \<or> unat b > 63 \<or> offset + 1 + unat b > length wire
          then Err ErrInvalidDNSMessage
        else if expandedLength + (unat b + 1) > 255 then Err ErrInvalidDNSMessage
        else if unat b = 0 then
          (case consumedEnd of Some e \<Rightarrow> Ok e | None \<Rightarrow> Ok (offset + 1))
        else skipDNSNameLoop labels wire (offset + 1 + unat b) consumedEnd
          (expandedLength + (unat b + 1)) (offset # visited)))"

definition skipDNSName :: "wire \<Rightarrow> nat \<Rightarrow> nat doh" where
  "skipDNSName wire offset = skipDNSNameLoop 128 wire offset None 0 []"

section \<open>Resource records\<close>

record resourceRecord =
  rr_type :: u16
  rr_class :: u16
  rr_ttl :: u32
  rr_ttlOffset :: nat
  rr_rdataStart :: nat
  rr_rdataEnd :: nat

definition parseResourceRecord :: "wire \<Rightarrow> nat \<Rightarrow> resourceRecord doh" where
  "parseResourceRecord wire offset =
     (case skipDNSName wire offset of
        Panic \<Rightarrow> Panic
      | Err e \<Rightarrow> Err ErrInvalidDNSMessage
      | Ok next \<Rightarrow>
        if next + 10 > length wire then Err ErrInvalidDNSMessage
        else rbind (be16 wire (next + 8)) (\<lambda>rdataLength.
          let rdataStart = next + 10; rdataEnd = next + 10 + unat rdataLength in
          if rdataEnd > length wire then Err ErrInvalidDNSMessage
          else rbind (be16 wire next) (\<lambda>rrType. rbind (be16 wire (next + 2)) (\<lambda>class.
            rbind (be32 wire (next + 4)) (\<lambda>ttl.
              Ok \<lparr> rr_type = rrType, rr_class = class, rr_ttl = ttl, rr_ttlOffset = next + 4,
                rr_rdataStart = rdataStart, rr_rdataEnd = rdataEnd \<rparr>)))))"

text \<open>\<^verbatim>\<open>parseSOAMinimum\<close>; offsets are naturals, so the test \<open>start < 0\<close> is always false.\<close>

definition parseSOAMinimum :: "wire \<Rightarrow> nat \<Rightarrow> nat \<Rightarrow> u32 doh" where
  "parseSOAMinimum wire start stop =
     (if stop > length wire \<or> start \<ge> stop then Err ErrInvalidDNSMessage
      else case skipDNSName wire start of
        Panic \<Rightarrow> Panic
      | Err e \<Rightarrow> Err ErrInvalidDNSMessage
      | Ok next \<Rightarrow>
        if next > stop then Err ErrInvalidDNSMessage
        else (case skipDNSName wire next of
          Panic \<Rightarrow> Panic
        | Err e \<Rightarrow> Err ErrInvalidDNSMessage
        | Ok next2 \<Rightarrow>
          if next2 + 20 \<noteq> stop then Err ErrInvalidDNSMessage
          else be32 wire (stop - 4)))"

section \<open>Checking a response\<close>

record responseMetadata =
  rm_ttl :: u32
  rm_cacheable :: bool
  rm_negative :: bool

text \<open>
  The local variables of the record loop of \<^verbatim>\<open>validateDNSResponse\<close>. The loop counts
  \<open>index\<close> up; \<open>n\<close> is the number of records still to read.
\<close>

record responseScan =
  rs_offset :: nat
  rs_minAnswerTTL :: u32
  rs_minNegativeTTL :: u32
  rs_answerSeen :: bool
  rs_negativeSOASeen :: bool

fun validateRecords :: "nat \<Rightarrow> wire \<Rightarrow> nat \<Rightarrow> nat \<Rightarrow> nat \<Rightarrow> responseScan \<Rightarrow> responseScan doh" where
  "validateRecords 0 wire index answerCount authorityCount st = Ok st"
| "validateRecords (Suc n) wire index answerCount authorityCount st =
     (case parseResourceRecord wire (rs_offset st) of
        Panic \<Rightarrow> Panic
      | Err e \<Rightarrow> Err ErrInvalidDNSMessage
      | Ok r \<Rightarrow>
        if index < answerCount + authorityCount \<and> rr_class r \<noteq> 1 then Err ErrInvalidDNSMessage
        else
          let st1 = (if index < answerCount \<and> (\<not> rs_answerSeen st \<or> rr_ttl r < rs_minAnswerTTL st)
                     then st\<lparr> rs_minAnswerTTL := rr_ttl r, rs_answerSeen := True \<rparr> else st) in
          rbind
            (if answerCount \<le> index \<and> index < answerCount + authorityCount \<and> rr_type r = 6 then
               (case parseSOAMinimum wire (rr_rdataStart r) (rr_rdataEnd r) of
                  Panic \<Rightarrow> Panic
                | Err e \<Rightarrow> Err ErrInvalidDNSMessage
                | Ok minimum \<Rightarrow>
                  let negativeTTL = (if minimum < rr_ttl r then minimum else rr_ttl r) in
                  Ok (st1\<lparr> rs_minNegativeTTL :=
                        (if \<not> rs_negativeSOASeen st1 \<or> negativeTTL < rs_minNegativeTTL st1
                         then negativeTTL else rs_minNegativeTTL st1),
                      rs_negativeSOASeen := True \<rparr>))
             else Ok st1)
            (\<lambda>st2. validateRecords n wire (index + 1) answerCount authorityCount
              (st2\<lparr> rs_offset := rr_rdataEnd r \<rparr>)))"

text \<open>The switch on the response code that ends \<^verbatim>\<open>validateDNSResponse\<close>.\<close>

definition responseSwitch :: "u16 \<Rightarrow> nat \<Rightarrow> responseScan \<Rightarrow> responseMetadata doh" where
  "responseSwitch rcode answerCount st =
     (if rcode = 0 \<and> answerCount > 0 then
        (if \<not> rs_answerSeen st then Err ErrInvalidDNSMessage
         else Ok \<lparr> rm_ttl = rs_minAnswerTTL st, rm_cacheable = rs_minAnswerTTL st > 0, rm_negative = False \<rparr>)
      else if rcode = 0 \<and> answerCount = 0 \<or> rcode = 3 then
        (if \<not> rs_negativeSOASeen st then Err ErrInvalidDNSMessage
         else Ok \<lparr> rm_ttl = rs_minNegativeTTL st, rm_cacheable = rs_minNegativeTTL st > 0, rm_negative = True \<rparr>)
      else Err ErrUpstreamFailed)"

definition validateDNSResponse :: "parsedQuery \<Rightarrow> wire \<Rightarrow> (responseMetadata \<times> wire) doh" where
  "validateDNSResponse query wire =
     (if length wire > MaxDNSResponseBytes then Err ErrResponseTooLarge
      else if length wire < 17 then Err ErrResponseMismatch
      else rbind (be16 wire 0) (\<lambda>ident.
      if ident \<noteq> pq_id query then Err ErrResponseMismatch
      else rbind (be16 wire 2) (\<lambda>flags. rbind (be16 wire 4) (\<lambda>qdcount.
      if flags AND 0x8000 = 0 \<or> flags AND 0x7800 \<noteq> 0 \<or> qdcount \<noteq> 1 then Err ErrInvalidDNSMessage
      else case parseQuestionName wire 12 of
        Panic \<Rightarrow> Panic
      | Err e \<Rightarrow> Err ErrInvalidDNSMessage
      | Ok (questionEnd, canonicalName) \<Rightarrow>
        if questionEnd + 4 > length wire then Err ErrInvalidDNSMessage
        else rbind (slice wire questionEnd (questionEnd + 4)) (\<lambda>tail.
        if canonicalName @ tail \<noteq> pq_question query then Err ErrResponseMismatch
        else rbind (be16 wire 6) (\<lambda>an. rbind (be16 wire 8) (\<lambda>au. rbind (be16 wire 10) (\<lambda>ad.
        let answerCount = unat an; authorityCount = unat au; additionalCount = unat ad in
        rbind (validateRecords (answerCount + authorityCount + additionalCount) wire 0
            answerCount authorityCount
            \<lparr> rs_offset = questionEnd + 4, rs_minAnswerTTL = 0, rs_minNegativeTTL = 0,
              rs_answerSeen = False, rs_negativeSOASeen = False \<rparr>) (\<lambda>st.
        if rs_offset st \<noteq> length wire then Err ErrInvalidDNSMessage
        else rbind (responseSwitch (flags AND 0x000f) answerCount st) (\<lambda>metadata.
          rbind (put_at wire 0 [0, 0]) (\<lambda>normalized. Ok (metadata, normalized))))))))))))"

section \<open>Rewriting TTLs\<close>

text \<open>
  The body of the record loop of \<^verbatim>\<open>clampDNSResponseTTLs\<close> for one parsed record, and the loop,
  which returns the rewritten message and the final offset.
\<close>

definition clampRecord :: "wire \<Rightarrow> resourceRecord \<Rightarrow> bool \<Rightarrow> u32 \<Rightarrow> wire doh" where
  "clampRecord result r inAuthority limit =
     rbind (if rr_type r \<noteq> 41 \<and> rr_ttl r > limit then put_be32 result (rr_ttlOffset r) limit
            else Ok result) (\<lambda>result1.
       if inAuthority \<and> rr_type r = 6 then
         rbind (parseSOAMinimum result1 (rr_rdataStart r) (rr_rdataEnd r)) (\<lambda>minimum.
           if minimum > limit then put_be32 result1 (rr_rdataEnd r - 4) limit else Ok result1)
       else Ok result1)"

fun clampRecords :: "nat \<Rightarrow> wire \<Rightarrow> nat \<Rightarrow> nat \<Rightarrow> nat \<Rightarrow> nat \<Rightarrow> u32 \<Rightarrow> (wire \<times> nat) doh" where
  "clampRecords 0 result offset index answerCount authorityCount limit = Ok (result, offset)"
| "clampRecords (Suc n) result offset index answerCount authorityCount limit =
     rbind (parseResourceRecord result offset) (\<lambda>r.
       rbind (clampRecord result r (answerCount \<le> index \<and> index < answerCount + authorityCount) limit) (\<lambda>result2.
         clampRecords n result2 (rr_rdataEnd r) (index + 1) answerCount authorityCount limit))"

definition clampDNSResponseTTLs :: "wire \<Rightarrow> u32 \<Rightarrow> wire doh" where
  "clampDNSResponseTTLs wire limit =
     (if length wire < 17 then Err ErrInvalidDNSMessage
      else case parseQuestionName wire 12 of
        Panic \<Rightarrow> Panic
      | Err e \<Rightarrow> Err ErrInvalidDNSMessage
      | Ok (questionEnd, _) \<Rightarrow>
        if questionEnd + 4 > length wire then Err ErrInvalidDNSMessage
        else rbind (be16 wire 6) (\<lambda>an. rbind (be16 wire 8) (\<lambda>au. rbind (be16 wire 10) (\<lambda>ad.
        let answerCount = unat an; authorityCount = unat au; additionalCount = unat ad in
        rbind (clampRecords (answerCount + authorityCount + additionalCount) wire (questionEnd + 4) 0
            answerCount authorityCount limit) (\<lambda>(result, offset).
        if offset \<noteq> length result then Err ErrInvalidDNSMessage else Ok result)))))"

text \<open>\<^verbatim>\<open>responseWithID\<close>; a nil result is the empty list.\<close>

definition responseWithID :: "wire \<Rightarrow> u16 \<Rightarrow> wire doh" where
  "responseWithID normalized ident =
     (if length normalized < 2 then Ok [] else put_be16 normalized 0 ident)"

section \<open>Names: bounds\<close>

lemma skipDNSNameLoop_no_panic [no_panic]:
  "skipDNSNameLoop n wire offset consumedEnd expandedLength visited \<noteq> Panic"
  by (induction n arbitrary: offset consumedEnd expandedLength visited)
    (auto simp: Let_def split: option.split)

lemma skipDNSName_no_panic [no_panic]: "skipDNSName wire offset \<noteq> Panic"
  by (simp add: skipDNSName_def no_panic)

text \<open>The three ways a step of the loop can go on to success.\<close>

lemma skipDNSNameLoop_step:
  assumes "skipDNSNameLoop n wire offset ce len vis = Ok e"
  obtains
    (pointer) m p where "n = Suc m" "12 \<le> offset" "offset + 1 < length wire" "offset \<notin> set vis"
      "wire ! offset AND 0xc0 = 0xc0" "p = unat (be16_of (seg wire offset (offset + 2)) AND 0x3fff)"
      "12 \<le> p" "p < offset"
      "skipDNSNameLoop m wire p (Some (case ce of None \<Rightarrow> offset + 2 | Some e \<Rightarrow> e)) len (offset # vis) = Ok e"
  | (root) m where "n = Suc m" "12 \<le> offset" "offset < length wire" "offset \<notin> set vis"
      "wire ! offset = 0" "len < 255" "e = (case ce of None \<Rightarrow> offset + 1 | Some e \<Rightarrow> e)"
  | (label) m where "n = Suc m" "12 \<le> offset" "offset < length wire" "offset \<notin> set vis"
      "wire ! offset AND 0xc0 = 0" "0 < unat (wire ! offset)" "unat (wire ! offset) \<le> 63"
      "offset + 1 + unat (wire ! offset) \<le> length wire" "len + (unat (wire ! offset) + 1) \<le> 255"
      "skipDNSNameLoop m wire (offset + 1 + unat (wire ! offset)) ce (len + (unat (wire ! offset) + 1))
         (offset # vis) = Ok e"
proof (cases n)
  case (Suc m)
  let ?b = "wire ! offset"
  from assms Suc have range: "12 \<le> offset" "offset < length wire" "offset \<notin> set vis"
    by (auto split: if_splits)
  have opt: "(case ce of None \<Rightarrow> Some (offset + 2) | Some e \<Rightarrow> Some e) = Some (case ce of None \<Rightarrow> offset + 2 | Some e \<Rightarrow> e)"
    by (cases ce) auto
  show thesis
  proof (cases "?b AND 0xc0 = 0xc0")
    case True
    with assms Suc range show thesis
      by (intro pointer [OF Suc]) (auto simp: Let_def opt not_less not_le split: if_splits)
  next
    case False
    show thesis
    proof (cases "unat ?b = 0")
      case True
      with assms Suc range False show thesis
        by (intro root [OF Suc]) (auto simp: unat_eq_0 split: if_splits option.splits)
    next
      case nz: False
      with assms Suc range False show thesis
        by (intro label [OF Suc]) (auto simp: not_less split: if_splits)
    qed
  qed
qed (use assms in simp)

text \<open>A name that is accepted ends behind its start and inside the message.\<close>

lemma skipDNSNameLoop_Ok:
  assumes "skipDNSNameLoop n wire offset consumedEnd expandedLength visited = Ok e"
  shows "(case consumedEnd of Some c \<Rightarrow> e = c | None \<Rightarrow> offset < e \<and> e \<le> length wire)"
  using assms
proof (induction n arbitrary: offset consumedEnd expandedLength visited)
  case (Suc n)
  from Suc.prems show ?case
  proof (cases rule: skipDNSNameLoop_step)
    case (pointer m p)
    with Suc.IH [of p "Some (case consumedEnd of None \<Rightarrow> offset + 2 | Some e \<Rightarrow> e)" expandedLength "offset # visited"]
    show ?thesis
      by (auto split: option.splits)
  next
    case (label m)
    with Suc.IH [of "offset + 1 + unat (wire ! offset)" consumedEnd
      "expandedLength + (unat (wire ! offset) + 1)" "offset # visited"] show ?thesis
      by (auto split: option.splits)
  qed (auto split: option.splits)
qed simp

lemma skipDNSName_Ok:
  assumes "skipDNSName wire offset = Ok e"
  shows "offset < e" and "e \<le> length wire"
  using skipDNSNameLoop_Ok [of 128 wire offset None 0 "[]" e] assms by (auto simp: skipDNSName_def)

section \<open>Names: locality\<close>

text \<open>
  The positions the loop reads. A compression pointer can lead anywhere before the name, and
  the labels there can run past the name again, so the positions read are not an interval.
\<close>

fun nameReadsLoop :: "nat \<Rightarrow> wire \<Rightarrow> nat \<Rightarrow> nat list" where
  "nameReadsLoop 0 wire offset = []"
| "nameReadsLoop (Suc n) wire offset =
     (if offset \<ge> length wire then []
      else if wire ! offset AND 0xc0 = 0xc0 then
        offset # (offset + 1) # nameReadsLoop n wire (unat (be16_of (seg wire offset (offset + 2)) AND 0x3fff))
      else if wire ! offset = 0 then [offset]
      else offset # nameReadsLoop n wire (offset + 1 + unat (wire ! offset)))"

definition nameReads :: "wire \<Rightarrow> nat \<Rightarrow> nat list" where
  "nameReads wire offset = nameReadsLoop 128 wire offset"

lemma seg_pair_cong:
  assumes "offset + 1 < length wire" and "length wire' = length wire"
    and "wire' ! offset = wire ! offset" and "wire' ! (offset + 1) = wire ! (offset + 1)"
  shows "seg wire' offset (offset + 2) = seg wire offset (offset + 2)"
proof (rule seg_cong)
  fix i
  assume "offset \<le> i" "i < offset + 2"
  then have "i = offset \<or> i = offset + 1" by linarith
  then show "wire' ! i = wire ! i" using assms by auto
qed (use assms in auto)

lemma skipDNSNameLoop_reads:
  assumes "skipDNSNameLoop n wire offset ce len vis = Ok e" and "length wire' = length wire"
    and "\<forall>i \<in> set (nameReadsLoop n wire offset). i < length wire \<longrightarrow> wire' ! i = wire ! i"
  shows "skipDNSNameLoop n wire' offset ce len vis = Ok e
    \<and> nameReadsLoop n wire' offset = nameReadsLoop n wire offset"
  using assms
proof (induction n arbitrary: offset ce len vis)
  case (Suc n)
  from Suc.prems(1) show ?case
  proof (cases rule: skipDNSNameLoop_step)
    case (pointer m p)
    have rd: "wire' ! offset = wire ! offset" "wire' ! (offset + 1) = wire ! (offset + 1)"
      and rest: "\<forall>i \<in> set (nameReadsLoop n wire p). i < length wire \<longrightarrow> wire' ! i = wire ! i"
      using Suc.prems(3) pointer by auto
    have sg: "seg wire' offset (offset + 2) = seg wire offset (offset + 2)"
      using pointer rd Suc.prems(2) by (intro seg_pair_cong) auto
    have rec: "skipDNSNameLoop n wire' p (Some (case ce of None \<Rightarrow> offset + 2 | Some e \<Rightarrow> e)) len (offset # vis) = Ok e"
      "nameReadsLoop n wire' p = nameReadsLoop n wire p"
      using Suc.IH [OF _ Suc.prems(2) rest] pointer by auto
    have opt: "(case ce of None \<Rightarrow> Some (offset + 2) | Some e \<Rightarrow> Some e) = Some (case ce of None \<Rightarrow> offset + 2 | Some e \<Rightarrow> e)"
      by (cases ce) auto
    show ?thesis
      using pointer rd sg rec Suc.prems(2) by (simp add: Let_def opt)
  next
    case (root m)
    then have "wire' ! offset = 0" using Suc.prems(3) by simp
    then show ?thesis
      using root Suc.prems(2) by (cases ce) simp_all
  next
    case (label m)
    then have nz: "wire ! offset \<noteq> 0" "wire ! offset AND 0xc0 \<noteq> 0xc0" by auto
    then have rd: "wire' ! offset = wire ! offset"
      and rest: "\<forall>i \<in> set (nameReadsLoop n wire (offset + 1 + unat (wire ! offset))). i < length wire \<longrightarrow> wire' ! i = wire ! i"
      using Suc.prems(3) label by auto
    show ?thesis
      using Suc.IH [OF _ Suc.prems(2) rest] label rd nz Suc.prems(2) by simp
  qed
qed simp

lemma skipDNSName_reads:
  assumes "skipDNSName wire offset = Ok e" and "length wire' = length wire"
    and "\<forall>i \<in> set (nameReads wire offset). i < length wire \<longrightarrow> wire' ! i = wire ! i"
  shows "skipDNSName wire' offset = Ok e" and "nameReads wire' offset = nameReads wire offset"
  using skipDNSNameLoop_reads [of 128 wire offset None 0 "[]" e wire'] assms
  by (auto simp: skipDNSName_def nameReads_def)

section \<open>Records\<close>

lemma parseResourceRecord_no_panic [no_panic]: "parseResourceRecord wire offset \<noteq> Panic"
  by (auto simp: parseResourceRecord_def no_panic Let_def split: res.split)

lemma parseSOAMinimum_no_panic [no_panic]: "parseSOAMinimum wire start stop \<noteq> Panic"
  by (auto simp: parseSOAMinimum_def no_panic split: res.split)

lemma parseResourceRecord_iff:
  "parseResourceRecord wire offset = Ok r \<longleftrightarrow>
     (\<exists>next. skipDNSName wire offset = Ok next \<and> next + 10 \<le> length wire
       \<and> next + 10 + unat (be16_of (seg wire (next + 8) (next + 10))) \<le> length wire
       \<and> r = \<lparr> rr_type = be16_of (seg wire next (next + 2)),
           rr_class = be16_of (seg wire (next + 2) (next + 4)),
           rr_ttl = be32_of (seg wire (next + 4) (next + 8)), rr_ttlOffset = next + 4,
           rr_rdataStart = next + 10,
           rr_rdataEnd = next + 10 + unat (be16_of (seg wire (next + 8) (next + 10))) \<rparr>)"
  by (auto simp: parseResourceRecord_def Let_def split: res.split)

lemma parseResourceRecord_Ok:
  assumes "parseResourceRecord wire offset = Ok r"
  shows "offset + 4 < rr_ttlOffset r" and "rr_ttlOffset r + 6 = rr_rdataStart r"
    and "rr_rdataStart r \<le> rr_rdataEnd r" and "rr_rdataEnd r \<le> length wire"
    and "rr_ttl r = be32_of (seg wire (rr_ttlOffset r) (rr_ttlOffset r + 4))"
  using assms skipDNSName_Ok [of wire offset] by (auto simp: parseResourceRecord_iff)

lemma parseSOAMinimum_iff:
  "parseSOAMinimum wire start stop = Ok m \<longleftrightarrow>
     stop \<le> length wire \<and> start < stop
     \<and> (\<exists>next. skipDNSName wire start = Ok next \<and> next \<le> stop \<and> skipDNSName wire next = Ok (stop - 20))
     \<and> 20 \<le> stop \<and> m = be32_of (seg wire (stop - 4) stop)"
  by (auto simp: parseSOAMinimum_def split: res.split)

text \<open>A record of another message of the same length that agrees on what the parser reads.\<close>

definition soaAt :: "nat \<Rightarrow> nat \<Rightarrow> nat \<Rightarrow> resourceRecord \<Rightarrow> bool" where
  "soaAt index answerCount authorityCount r \<longleftrightarrow>
     answerCount \<le> index \<and> index < answerCount + authorityCount \<and> rr_type r = 6"

definition soaReads :: "wire \<Rightarrow> resourceRecord \<Rightarrow> nat list" where
  "soaReads wire r = nameReads wire (rr_rdataStart r)
     @ (case skipDNSName wire (rr_rdataStart r) of Ok next \<Rightarrow> nameReads wire next | _ \<Rightarrow> [])"

definition recordReads :: "wire \<Rightarrow> nat \<Rightarrow> resourceRecord \<Rightarrow> bool \<Rightarrow> nat list" where
  "recordReads wire offset r soa =
     nameReads wire offset @ [rr_ttlOffset r - 4..<rr_ttlOffset r] @ [rr_ttlOffset r + 4..<rr_ttlOffset r + 6]
     @ (if soa then soaReads wire r else [])"

definition recordTTLs :: "resourceRecord \<Rightarrow> bool \<Rightarrow> nat list" where
  "recordTTLs r soa =
     (if rr_type r \<noteq> 41 then [rr_ttlOffset r..<rr_ttlOffset r + 4] else [])
     @ (if soa then [rr_rdataEnd r - 4..<rr_rdataEnd r] else [])"

lemma agree_intro:
  "length wire' = length wire \<Longrightarrow> hi \<le> length wire \<Longrightarrow> (\<And>i. lo \<le> i \<Longrightarrow> i < hi \<Longrightarrow> wire' ! i = wire ! i) \<Longrightarrow>
    agree wire wire' lo hi"
  by (simp add: agree_def)

lemma parseResourceRecord_reads:
  assumes "parseResourceRecord wire offset = Ok r" and "length wire' = length wire"
    and "\<forall>i \<in> set (recordReads wire offset r soa). i < length wire \<longrightarrow> wire' ! i = wire ! i"
  shows "parseResourceRecord wire' offset
    = Ok (r\<lparr> rr_ttl := be32_of (seg wire' (rr_ttlOffset r) (rr_ttlOffset r + 4)) \<rparr>)"
proof -
  from assms(1) obtain nx where n: "skipDNSName wire offset = Ok nx" "nx + 10 \<le> length wire"
    "rr_ttlOffset r = nx + 4"
    by (auto simp: parseResourceRecord_iff)
  have same: "wire' ! i = wire ! i" if "i < length wire" "i \<in> set (nameReads wire offset) \<or> nx \<le> i \<and> i < nx + 4
      \<or> nx + 8 \<le> i \<and> i < nx + 10" for i
    using assms(3) that n by (auto simp: recordReads_def)
  have skip: "skipDNSName wire' offset = Ok nx"
    by (rule skipDNSName_reads [OF n(1) assms(2)]) (use same in auto)
  have ag: "agree wire wire' nx (nx + 4)" "agree wire wire' (nx + 8) (nx + 10)"
    by (rule agree_intro; use assms(2) n same in auto)+
  then have "seg wire' nx (nx + 2) = seg wire nx (nx + 2)"
    "seg wire' (nx + 2) (nx + 4) = seg wire (nx + 2) (nx + 4)"
    "seg wire' (nx + 8) (nx + 10) = seg wire (nx + 8) (nx + 10)"
    using agree_seg [OF ag(1), of nx "nx + 2"] agree_seg [OF ag(1), of "nx + 2" "nx + 4"]
      agree_seg [OF ag(2), of "nx + 8" "nx + 10"] by simp_all
  then show ?thesis
    using assms(1,2) n skip by (auto simp: parseResourceRecord_iff)
qed

lemma parseSOAMinimum_reads:
  assumes "parseSOAMinimum wire (rr_rdataStart r) (rr_rdataEnd r) = Ok m" and "length wire' = length wire"
    and "\<forall>i \<in> set (soaReads wire r). i < length wire \<longrightarrow> wire' ! i = wire ! i"
  shows "parseSOAMinimum wire' (rr_rdataStart r) (rr_rdataEnd r)
    = Ok (be32_of (seg wire' (rr_rdataEnd r - 4) (rr_rdataEnd r)))"
proof -
  from assms(1) obtain nx where n: "skipDNSName wire (rr_rdataStart r) = Ok nx"
    "skipDNSName wire nx = Ok (rr_rdataEnd r - 20)"
    by (auto simp: parseSOAMinimum_iff)
  have "skipDNSName wire' (rr_rdataStart r) = Ok nx" "skipDNSName wire' nx = Ok (rr_rdataEnd r - 20)"
    using skipDNSName_reads(1) [OF n(1) assms(2)] skipDNSName_reads(1) [OF n(2) assms(2)] assms(3) n
    by (auto simp: soaReads_def)
  then show ?thesis
    using assms(1,2) n by (auto simp: parseSOAMinimum_iff)
qed

section \<open>Walking the records\<close>

text \<open>
  The records from an offset on, each with its index: the reads of the walk, the fields the
  clamp may write, and what the clamp must achieve. \<open>limitedWalk\<close> relates a message and its
  rewritten form record by record.
\<close>

fun walkReads :: "nat \<Rightarrow> wire \<Rightarrow> nat \<Rightarrow> nat \<Rightarrow> nat \<Rightarrow> nat \<Rightarrow> nat list" where
  "walkReads 0 wire offset index ac au = []"
| "walkReads (Suc n) wire offset index ac au = (case parseResourceRecord wire offset of
     Ok r \<Rightarrow> recordReads wire offset r (soaAt index ac au r) @ walkReads n wire (rr_rdataEnd r) (index + 1) ac au
   | _ \<Rightarrow> [])"

fun walkTTLs :: "nat \<Rightarrow> wire \<Rightarrow> nat \<Rightarrow> nat \<Rightarrow> nat \<Rightarrow> nat \<Rightarrow> nat list" where
  "walkTTLs 0 wire offset index ac au = []"
| "walkTTLs (Suc n) wire offset index ac au = (case parseResourceRecord wire offset of
     Ok r \<Rightarrow> recordTTLs r (soaAt index ac au r) @ walkTTLs n wire (rr_rdataEnd r) (index + 1) ac au
   | _ \<Rightarrow> [])"

text \<open>The walk succeeds and ends at a given offset.\<close>

fun walkEnds :: "nat \<Rightarrow> wire \<Rightarrow> nat \<Rightarrow> nat \<Rightarrow> nat \<Rightarrow> nat \<Rightarrow> nat \<Rightarrow> bool" where
  "walkEnds 0 wire offset index ac au e \<longleftrightarrow> e = offset"
| "walkEnds (Suc n) wire offset index ac au e \<longleftrightarrow> (case parseResourceRecord wire offset of
     Ok r \<Rightarrow> (soaAt index ac au r \<longrightarrow> is_ok (parseSOAMinimum wire (rr_rdataStart r) (rr_rdataEnd r)))
       \<and> walkEnds n wire (rr_rdataEnd r) (index + 1) ac au e
   | _ \<Rightarrow> False)"

fun limitedWalk :: "nat \<Rightarrow> wire \<Rightarrow> wire \<Rightarrow> nat \<Rightarrow> nat \<Rightarrow> nat \<Rightarrow> nat \<Rightarrow> u32 \<Rightarrow> bool" where
  "limitedWalk 0 wire wire' offset index ac au limit \<longleftrightarrow> True"
| "limitedWalk (Suc n) wire wire' offset index ac au limit \<longleftrightarrow> (case parseResourceRecord wire offset of
     Ok r \<Rightarrow> parseResourceRecord wire' offset
          = Ok (r\<lparr> rr_ttl := (if rr_type r = 41 then rr_ttl r else min (rr_ttl r) limit) \<rparr>)
       \<and> (soaAt index ac au r \<longrightarrow> (case parseSOAMinimum wire (rr_rdataStart r) (rr_rdataEnd r) of
            Ok m \<Rightarrow> parseSOAMinimum wire' (rr_rdataStart r) (rr_rdataEnd r) = Ok (min m limit)
          | _ \<Rightarrow> False))
       \<and> limitedWalk n wire wire' (rr_rdataEnd r) (index + 1) ac au limit
   | _ \<Rightarrow> False)"

lemma put_be32_effect:
  assumes "at + 4 \<le> length xs"
  obtains ys where "put_be32 xs at v = Ok ys" and "length ys = length xs"
    and "be32_of (seg ys at (at + 4)) = v" and "\<And>i. i < at \<or> at + 4 \<le> i \<Longrightarrow> i < length xs \<Longrightarrow> ys ! i = xs ! i"
proof -
  obtain ys where ys: "put_at xs at (be32_bytes v) = (Ok ys :: wire doh)"
    using assms by simp
  show thesis
  proof (rule that)
    show "put_be32 xs at v = Ok ys" using ys by (simp add: put_be32_def put_at_eq_Ok)
    show "length ys = length xs" by (rule put_at_length [OF ys])
    show "be32_of (seg ys at (at + 4)) = v" using seg_put_at [OF ys] by simp
    show "ys ! i = xs ! i" if "i < at \<or> at + 4 \<le> i" "i < length xs" for i
      using nth_put_at [OF ys that(2)] that(1) by auto
  qed
qed

lemma clamp_field:
  assumes "at + 4 \<le> length xs" and v: "be32_of (seg xs at (at + 4)) = v"
  obtains ys where "(if c \<and> v > limit then put_be32 xs at limit else Ok xs) = (Ok ys :: wire doh)"
    and "length ys = length xs" and "be32_of (seg ys at (at + 4)) = (if c then min v limit else v)"
    and "\<And>i. i < at \<or> at + 4 \<le> i \<Longrightarrow> i < length xs \<Longrightarrow> ys ! i = xs ! i"
proof (cases "c \<and> v > limit")
  case True
  obtain ys where "put_be32 xs at limit = (Ok ys :: wire doh)" "length ys = length xs"
    "be32_of (seg ys at (at + 4)) = limit" "\<And>i. i < at \<or> at + 4 \<le> i \<Longrightarrow> i < length xs \<Longrightarrow> ys ! i = xs ! i"
    using assms(1) by (rule put_be32_effect [where v = limit]) blast
  with True show thesis by (intro that [of ys]) (auto simp: min_def)
next
  case False
  then show thesis by (intro that [of xs]) (auto simp: min_def v)
qed

lemma clampSOA_step:
  assumes m: "parseSOAMinimum wire (rr_rdataStart r) (rr_rdataEnd r) = Ok m"
    and len: "length result = length wire"
    and reads: "\<forall>i \<in> set (soaReads wire r). i < length wire \<longrightarrow> result ! i = wire ! i"
    and same: "seg result (rr_rdataEnd r - 4) (rr_rdataEnd r) = seg wire (rr_rdataEnd r - 4) (rr_rdataEnd r)"
  obtains result2 where "rbind (parseSOAMinimum result (rr_rdataStart r) (rr_rdataEnd r)) (\<lambda>minimum.
        if minimum > limit then put_be32 result (rr_rdataEnd r - 4) limit else Ok result) = Ok result2"
    and "length result2 = length wire" and "be32_of (seg result2 (rr_rdataEnd r - 4) (rr_rdataEnd r)) = min m limit"
    and "\<And>i. i < rr_rdataEnd r - 4 \<or> rr_rdataEnd r \<le> i \<Longrightarrow> i < length wire \<Longrightarrow> result2 ! i = result ! i"
proof -
  let ?e = "rr_rdataEnd r"
  have e: "20 \<le> ?e" "?e \<le> length wire" and m_eq: "m = be32_of (seg wire (?e - 4) ?e)"
    using m by (auto simp: parseSOAMinimum_iff)
  then have e4: "?e - 4 + 4 = ?e" by simp
  have rd: "be32_of (seg result (?e - 4) (?e - 4 + 4)) = m"
    using same m_eq e4 by simp
  have pm: "parseSOAMinimum result (rr_rdataStart r) ?e = Ok m"
    using parseSOAMinimum_reads [OF m len reads] rd e4 by simp
  show thesis
    by (rule clamp_field [OF _ rd, of True limit]) (use pm len e e4 in \<open>auto intro: that\<close>)
qed

lemma clampRecord_step:
  assumes r: "parseResourceRecord wire offset = Ok r" and len: "length result = length wire"
    and ahead: "\<And>i. offset \<le> i \<Longrightarrow> i < length wire \<Longrightarrow> result ! i = wire ! i"
    and off: "\<And>i. i \<notin> T \<Longrightarrow> i < length wire \<Longrightarrow> result ! i = wire ! i"
    and reads: "set (recordReads wire offset r (soaAt index ac au r)) \<inter> T = {}"
    and ttls: "set (recordTTLs r (soaAt index ac au r)) \<subseteq> T"
    and soa: "soaAt index ac au r \<Longrightarrow> parseSOAMinimum wire (rr_rdataStart r) (rr_rdataEnd r) = Ok m"
  obtains result2 where "parseResourceRecord result offset = Ok r"
    and "clampRecord result r (ac \<le> index \<and> index < ac + au) limit = Ok result2"
    and "length result2 = length wire"
    and "\<And>i. rr_rdataEnd r \<le> i \<Longrightarrow> i < length wire \<Longrightarrow> result2 ! i = wire ! i"
    and "\<And>i. i \<notin> T \<Longrightarrow> i < length wire \<Longrightarrow> result2 ! i = wire ! i"
    and "\<And>i. i < offset \<Longrightarrow> i < length wire \<Longrightarrow> result2 ! i = result ! i"
    and "be32_of (seg result2 (rr_ttlOffset r) (rr_ttlOffset r + 4))
      = (if rr_type r = 41 then rr_ttl r else min (rr_ttl r) limit)"
    and "soaAt index ac au r \<Longrightarrow> be32_of (seg result2 (rr_rdataEnd r - 4) (rr_rdataEnd r)) = min m limit"
proof -
  note b = parseResourceRecord_Ok [OF r]
  let ?t = "rr_ttlOffset r" and ?e = "rr_rdataEnd r" and ?soa = "soaAt index ac au r"
  have same_reads: "\<forall>i \<in> set (recordReads wire offset r ?soa). i < length wire \<longrightarrow> result ! i = wire ! i"
    using reads off by auto
  have ttl: "seg result ?t (?t + 4) = seg wire ?t (?t + 4)"
    by (rule seg_cong) (use b len ahead in auto)
  have p: "parseResourceRecord result offset = Ok r"
    using parseResourceRecord_reads [OF r len same_reads] b(5) ttl by simp
  obtain result1 where r1: "(if rr_type r \<noteq> 41 \<and> rr_ttl r > limit then put_be32 result ?t limit else Ok result)
      = (Ok result1 :: wire doh)" "length result1 = length result"
    "be32_of (seg result1 ?t (?t + 4)) = (if rr_type r \<noteq> 41 then min (rr_ttl r) limit else rr_ttl r)"
    and same1: "\<And>i. i < ?t \<or> ?t + 4 \<le> i \<Longrightarrow> i < length result \<Longrightarrow> result1 ! i = result ! i"
    by (rule clamp_field [of ?t result "rr_ttl r" "rr_type r \<noteq> 41" limit]) (use b ttl len in auto)
  have off1: "result1 ! i = wire ! i" if "i \<notin> T" "i < length wire" for i
  proof (cases "?t \<le> i \<and> i < ?t + 4 \<and> rr_type r = 41")
    case True
    with r1 off that show ?thesis by simp
  next
    case False
    have "i \<notin> set (recordTTLs r ?soa)" using ttls that by blast
    with False have "i < ?t \<or> ?t + 4 \<le> i" by (auto simp: recordTTLs_def split: if_splits)
    then show ?thesis using same1 off that len by simp
  qed
  have ahead1: "result1 ! i = wire ! i" if "?t + 4 \<le> i" "i < length wire" for i
    using that same1 ahead b len by simp
  show thesis
  proof (cases ?soa)
    case False
    show thesis
    proof (rule that [OF p])
      show "clampRecord result r (ac \<le> index \<and> index < ac + au) limit = Ok result1"
        using r1(1) False by (auto simp: clampRecord_def soaAt_def)
    qed (use r1 off1 same1 ahead1 b len False in \<open>auto\<close>)
  next
    case True
    have e20: "rr_rdataStart r + 20 \<le> ?e"
      using soa [OF True] by (auto simp: parseSOAMinimum_iff dest!: skipDNSName_Ok(1))
    have same: "seg result1 (?e - 4) ?e = seg wire (?e - 4) ?e"
      by (rule seg_cong) (use b len r1 e20 ahead1 in auto)
    have reads1: "\<forall>i \<in> set (soaReads wire r). i < length wire \<longrightarrow> result1 ! i = wire ! i"
      using off1 reads True by (auto simp: recordReads_def)
    obtain result2 where r2: "rbind (parseSOAMinimum result1 (rr_rdataStart r) ?e) (\<lambda>minimum.
        if minimum > limit then put_be32 result1 (?e - 4) limit else Ok result1) = Ok result2"
      "length result2 = length wire" "be32_of (seg result2 (?e - 4) ?e) = min m limit"
      and same2: "\<And>i. i < ?e - 4 \<or> ?e \<le> i \<Longrightarrow> i < length wire \<Longrightarrow> result2 ! i = result1 ! i"
      by (rule clampSOA_step [OF soa [OF True] _ reads1 same, of limit]) (use r1 len in auto)
    have ttl2: "seg result2 ?t (?t + 4) = seg result1 ?t (?t + 4)"
      by (rule seg_cong) (use b len r1 r2 e20 same2 in auto)
    show thesis
    proof (rule that [OF p])
      show "clampRecord result r (ac \<le> index \<and> index < ac + au) limit = Ok result2"
        using r1(1) r2(1) True by (simp add: clampRecord_def soaAt_def)
      show "result2 ! i = wire ! i" if "i \<notin> T" "i < length wire" for i
      proof -
        have "i \<notin> set (recordTTLs r ?soa)" using ttls that by blast
        with True have "i < ?e - 4 \<or> ?e \<le> i" by (auto simp: recordTTLs_def)
        then show ?thesis using same2 off1 that by simp
      qed
    qed (use r1 r2 e20 same1 same2 ahead1 b len ttl2 in \<open>auto\<close>)
  qed
qed

lemma is_ok_iff: "is_ok x \<longleftrightarrow> (\<exists>a. x = Ok a)"
  by (cases x) auto

lemma clampRecords_walk:
  assumes "walkEnds n wire offset index ac au e" and "length result = length wire"
    and "\<And>i. offset \<le> i \<Longrightarrow> i < length wire \<Longrightarrow> result ! i = wire ! i"
    and "\<And>i. i \<notin> T \<Longrightarrow> i < length wire \<Longrightarrow> result ! i = wire ! i"
    and "set (walkReads n wire offset index ac au) \<inter> T = {}"
    and "set (walkTTLs n wire offset index ac au) \<subseteq> T"
  shows "\<exists>result'. clampRecords n result offset index ac au limit = Ok (result', e)
    \<and> length result' = length wire
    \<and> (\<forall>i. i \<notin> T \<and> i < length wire \<longrightarrow> result' ! i = wire ! i)
    \<and> (\<forall>i. i < offset \<and> i < length wire \<longrightarrow> result' ! i = result ! i)
    \<and> limitedWalk n wire result' offset index ac au limit"
  using assms
proof (induction n arbitrary: result offset index)
  case (Suc n)
  from Suc.prems(1) obtain r where r: "parseResourceRecord wire offset = Ok r"
    and soa: "soaAt index ac au r \<longrightarrow> is_ok (parseSOAMinimum wire (rr_rdataStart r) (rr_rdataEnd r))"
    and rest: "walkEnds n wire (rr_rdataEnd r) (index + 1) ac au e"
    by (auto split: res.splits)
  obtain m where m: "soaAt index ac au r \<Longrightarrow> parseSOAMinimum wire (rr_rdataStart r) (rr_rdataEnd r) = Ok m"
    using soa by (auto simp: is_ok_iff)
  have disj: "set (recordReads wire offset r (soaAt index ac au r)) \<inter> T = {}"
    "set (walkReads n wire (rr_rdataEnd r) (index + 1) ac au) \<inter> T = {}"
    and sub: "set (recordTTLs r (soaAt index ac au r)) \<subseteq> T"
    "set (walkTTLs n wire (rr_rdataEnd r) (index + 1) ac au) \<subseteq> T"
    using Suc.prems(5,6) r by auto
  obtain result2 where step: "parseResourceRecord result offset = Ok r"
    "clampRecord result r (ac \<le> index \<and> index < ac + au) limit = Ok result2"
    and len2: "length result2 = length wire"
    and ahead2: "\<And>i. rr_rdataEnd r \<le> i \<Longrightarrow> i < length wire \<Longrightarrow> result2 ! i = wire ! i"
    and off2: "\<And>i. i \<notin> T \<Longrightarrow> i < length wire \<Longrightarrow> result2 ! i = wire ! i"
    and before2: "\<And>i. i < offset \<Longrightarrow> i < length wire \<Longrightarrow> result2 ! i = result ! i"
    and ttl2: "be32_of (seg result2 (rr_ttlOffset r) (rr_ttlOffset r + 4))
      = (if rr_type r = 41 then rr_ttl r else min (rr_ttl r) limit)"
    and min2: "soaAt index ac au r \<Longrightarrow> be32_of (seg result2 (rr_rdataEnd r - 4) (rr_rdataEnd r)) = min m limit"
    by (rule clampRecord_step [OF r Suc.prems(2,3,4) disj(1) sub(1) m]) auto
  from Suc.IH [OF rest len2 ahead2 off2 disj(2) sub(2)] obtain result' where
    rec: "clampRecords n result2 (rr_rdataEnd r) (index + 1) ac au limit = Ok (result', e)"
    and len': "length result' = length wire"
    and off': "\<forall>i. i \<notin> T \<and> i < length wire \<longrightarrow> result' ! i = wire ! i"
    and before': "\<forall>i. i < rr_rdataEnd r \<and> i < length wire \<longrightarrow> result' ! i = result2 ! i"
    and lim': "limitedWalk n wire result' (rr_rdataEnd r) (index + 1) ac au limit"
    by blast
  note b = parseResourceRecord_Ok [OF r]
  have segs: "seg result' lo hi = seg result2 lo hi" if "hi \<le> rr_rdataEnd r" for lo hi
    by (rule seg_cong) (use before' len' len2 b that in auto)
  have reads': "\<forall>i \<in> set (recordReads wire offset r (soaAt index ac au r)). i < length wire \<longrightarrow> result' ! i = wire ! i"
    using disj(1) off' by auto
  have "parseResourceRecord result' offset
      = Ok (r\<lparr> rr_ttl := (if rr_type r = 41 then rr_ttl r else min (rr_ttl r) limit) \<rparr>)"
    using parseResourceRecord_reads [OF r len' reads'] ttl2 segs [of "rr_ttlOffset r + 4"] b by simp
  moreover have "parseSOAMinimum result' (rr_rdataStart r) (rr_rdataEnd r) = Ok (min m limit)"
    if "soaAt index ac au r"
    using parseSOAMinimum_reads [OF m [OF that] len'] reads' min2 [OF that] segs that
    by (auto simp: recordReads_def)
  ultimately have "limitedWalk (Suc n) wire result' offset index ac au limit"
    using r lim' m by simp
  moreover have "clampRecords (Suc n) result offset index ac au limit = Ok (result', e)"
    using step rec by simp
  ultimately show ?case
    using len' off' before2 before' b by (intro exI [of _ result']) auto
qed simp

section \<open>Checking a rewritten response\<close>

definition limitedScan :: "u32 \<Rightarrow> responseScan \<Rightarrow> responseScan \<Rightarrow> bool" where
  "limitedScan limit st st' \<longleftrightarrow>
     rs_offset st' = rs_offset st \<and> rs_answerSeen st' = rs_answerSeen st
     \<and> rs_negativeSOASeen st' = rs_negativeSOASeen st
     \<and> (rs_answerSeen st \<longrightarrow> rs_minAnswerTTL st' = min (rs_minAnswerTTL st) limit)
     \<and> (rs_negativeSOASeen st \<longrightarrow> rs_minNegativeTTL st' = min (rs_minNegativeTTL st) limit)"

text \<open>No record of the answer section is an OPT pseudo-record.\<close>

fun answersPlain :: "nat \<Rightarrow> wire \<Rightarrow> nat \<Rightarrow> nat \<Rightarrow> nat \<Rightarrow> bool" where
  "answersPlain 0 wire offset index ac \<longleftrightarrow> True"
| "answersPlain (Suc n) wire offset index ac \<longleftrightarrow> (case parseResourceRecord wire offset of
     Ok r \<Rightarrow> (index < ac \<longrightarrow> rr_type r \<noteq> 41) \<and> answersPlain n wire (rr_rdataEnd r) (index + 1) ac
   | _ \<Rightarrow> True)"

text \<open>The effect of one record on the scan.\<close>

definition scanRecord :: "nat \<Rightarrow> nat \<Rightarrow> nat \<Rightarrow> resourceRecord \<Rightarrow> u32 \<Rightarrow> responseScan \<Rightarrow> responseScan" where
  "scanRecord index ac au r m st =
     (let st1 = (if index < ac \<and> (\<not> rs_answerSeen st \<or> rr_ttl r < rs_minAnswerTTL st)
                 then st\<lparr> rs_minAnswerTTL := rr_ttl r, rs_answerSeen := True \<rparr> else st);
          st2 = (if soaAt index ac au r then
            st1\<lparr> rs_minNegativeTTL := (if \<not> rs_negativeSOASeen st1 \<or> min m (rr_ttl r) < rs_minNegativeTTL st1
                 then min m (rr_ttl r) else rs_minNegativeTTL st1), rs_negativeSOASeen := True \<rparr> else st1)
      in st2\<lparr> rs_offset := rr_rdataEnd r \<rparr>)"

lemma validateRecords_Suc:
  "validateRecords (Suc n) wire index ac au st = Ok st' \<longleftrightarrow>
     (\<exists>r m. parseResourceRecord wire (rs_offset st) = Ok r \<and> (index < ac + au \<longrightarrow> rr_class r = 1)
       \<and> (soaAt index ac au r \<longrightarrow> parseSOAMinimum wire (rr_rdataStart r) (rr_rdataEnd r) = Ok m)
       \<and> validateRecords n wire (index + 1) ac au (scanRecord index ac au r m st) = Ok st')"
proof (cases "parseResourceRecord wire (rs_offset st)")
  case (Ok r)
  have mins: "(if a < b then a else b) = min a b" for a b :: u32
    by (auto simp: min_def)
  have upd: "st\<lparr> rs_minNegativeTTL := x, rs_negativeSOASeen := True \<rparr>\<lparr> rs_offset := o' \<rparr>
      = st\<lparr> rs_offset := o', rs_minNegativeTTL := x, rs_negativeSOASeen := True \<rparr>" for st :: responseScan and x o'
    by simp
  show ?thesis
  proof (cases "soaAt index ac au r")
    case True
    then have auth: "ac \<le> index" "index < ac + au" "rr_type r = 6" by (auto simp: soaAt_def)
    then show ?thesis
      using Ok True
      by (cases "parseSOAMinimum wire (rr_rdataStart r) (rr_rdataEnd r)")
        (simp_all add: scanRecord_def Let_def mins)
  next
    case False
    then have "\<not> (ac \<le> index \<and> index < ac + au \<and> rr_type r = 6)" by (simp add: soaAt_def)
    then show ?thesis
      using Ok False by (simp add: scanRecord_def Let_def del: de_Morgan_conj) blast
  qed
qed simp_all

lemma limitedScan_scanRecord:
  assumes "limitedScan limit st st2" and "index < ac \<longrightarrow> rr_type r \<noteq> 41"
    and "soaAt index ac au r \<longrightarrow> m' = min m limit"
    and "r' = r\<lparr> rr_ttl := (if rr_type r = 41 then rr_ttl r else min (rr_ttl r) limit) \<rparr>"
  shows "limitedScan limit (scanRecord index ac au r m st) (scanRecord index ac au r' m' st2)"
proof -
  have soa: "soaAt index ac au r' = soaAt index ac au r" "soaAt index ac au r \<Longrightarrow> \<not> index < ac"
    "soaAt index ac au r \<Longrightarrow> rr_type r \<noteq> 41"
    using assms(4) by (auto simp: soaAt_def)
  have ttl: "index < ac \<or> soaAt index ac au r \<Longrightarrow> rr_ttl r' = min (rr_ttl r) limit"
    and "rr_rdataEnd r' = rr_rdataEnd r"
    using assms(2,4) soa(3) by auto
  then show ?thesis
    using assms(1,3) soa
    by (cases "index < ac"; cases "soaAt index ac au r")
      (auto simp: scanRecord_def limitedScan_def Let_def min_def split: if_splits)
qed

lemma validateRecords_limited:
  assumes "validateRecords n wire index ac au st = Ok st'" and "limitedScan limit st st2"
    and "limitedWalk n wire wire' (rs_offset st) index ac au limit"
    and "answersPlain n wire (rs_offset st) index ac"
  shows "\<exists>st2'. validateRecords n wire' index ac au st2 = Ok st2' \<and> limitedScan limit st' st2'"
  using assms
proof (induction n arbitrary: index st st2)
  case (Suc n)
  from Suc.prems(1) obtain r m where r: "parseResourceRecord wire (rs_offset st) = Ok r"
    "index < ac + au \<longrightarrow> rr_class r = 1"
    "soaAt index ac au r \<longrightarrow> parseSOAMinimum wire (rr_rdataStart r) (rr_rdataEnd r) = Ok m"
    "validateRecords n wire (index + 1) ac au (scanRecord index ac au r m st) = Ok st'"
    by (auto simp: validateRecords_Suc simp del: validateRecords.simps)
  define r' where "r' = r\<lparr> rr_ttl := (if rr_type r = 41 then rr_ttl r else min (rr_ttl r) limit) \<rparr>"
  have off: "rs_offset (scanRecord index ac au r m st) = rr_rdataEnd r"
    by (simp add: scanRecord_def Let_def)
  have r': "parseResourceRecord wire' (rs_offset st) = Ok r'"
    "soaAt index ac au r \<longrightarrow> parseSOAMinimum wire' (rr_rdataStart r) (rr_rdataEnd r) = Ok (min m limit)"
    using Suc.prems(3) r by (auto simp: r'_def)
  have scan: "limitedScan limit (scanRecord index ac au r m st) (scanRecord index ac au r' (min m limit) st2)"
    using Suc.prems(2,4) r by (intro limitedScan_scanRecord) (auto simp: r'_def)
  obtain st2' where rec: "validateRecords n wire' (index + 1) ac au (scanRecord index ac au r' (min m limit) st2) = Ok st2'"
    and lim: "limitedScan limit st' st2'"
    using Suc.prems(3,4) r Suc.IH [OF r(4) scan] by (auto simp add: off)
  have same: "rs_offset st2 = rs_offset st" "rr_class r' = rr_class r" "soaAt index ac au r' = soaAt index ac au r"
    "rr_rdataStart r' = rr_rdataStart r" "rr_rdataEnd r' = rr_rdataEnd r"
    using Suc.prems(2) by (simp_all add: limitedScan_def r'_def soaAt_def)
  have "validateRecords (Suc n) wire' index ac au st2 = Ok st2'"
    unfolding validateRecords_Suc using r' r(2) rec same
    by (intro exI [of _ r'] exI [of _ "min m limit"]) simp
  with lim show ?case by blast
qed simp

lemma validateRecords_walkEnds:
  assumes "validateRecords n wire index ac au st = Ok st'"
  shows "walkEnds n wire (rs_offset st) index ac au (rs_offset st')"
  using assms
proof (induction n arbitrary: index st)
  case (Suc n)
  from Suc.prems obtain r m where r: "parseResourceRecord wire (rs_offset st) = Ok r"
    "soaAt index ac au r \<longrightarrow> parseSOAMinimum wire (rr_rdataStart r) (rr_rdataEnd r) = Ok m"
    "validateRecords n wire (index + 1) ac au (scanRecord index ac au r m st) = Ok st'"
    by (auto simp: validateRecords_Suc simp del: validateRecords.simps)
  have "rs_offset (scanRecord index ac au r m st) = rr_rdataEnd r"
    by (simp add: scanRecord_def Let_def)
  with Suc.IH [OF r(3)] r show ?case by auto
qed simp

section \<open>The shape of an accepted response\<close>

definition responseCount :: "wire \<Rightarrow> nat" where
  "responseCount w = unat (be16_of (seg w 6 8)) + unat (be16_of (seg w 8 10)) + unat (be16_of (seg w 10 12))"

definition scanStart :: "nat \<Rightarrow> responseScan" where
  "scanStart offset = \<lparr> rs_offset = offset, rs_minAnswerTTL = 0, rs_minNegativeTTL = 0,
     rs_answerSeen = False, rs_negativeSOASeen = False \<rparr>"

lemma put_at_zero: "2 \<le> length w \<Longrightarrow> put_at w 0 [0, 0] = Ok ([0, 0] @ drop 2 w)"
  by (simp add: numeral_2_eq_2)

lemma validateDNSResponse_iff:
  "validateDNSResponse q w = Ok (meta, norm) \<longleftrightarrow>
     17 \<le> length w \<and> length w \<le> MaxDNSResponseBytes \<and> be16_of (seg w 0 2) = pq_id q
     \<and> be16_of (seg w 2 4) AND 0x8000 \<noteq> 0 \<and> be16_of (seg w 2 4) AND 0x7800 = 0 \<and> be16_of (seg w 4 6) = 1
     \<and> (\<exists>e c st. parseQuestionName w 12 = Ok (e, c) \<and> e + 4 \<le> length w \<and> c @ seg w e (e + 4) = pq_question q
       \<and> validateRecords (responseCount w) w 0 (unat (be16_of (seg w 6 8))) (unat (be16_of (seg w 8 10)))
           (scanStart (e + 4)) = Ok st
       \<and> rs_offset st = length w
       \<and> responseSwitch (be16_of (seg w 2 4) AND 0xf) (unat (be16_of (seg w 6 8))) st = Ok meta)
     \<and> norm = [0, 0] @ drop 2 w"
proof (cases "17 \<le> length w")
  case True
  show ?thesis
  proof (cases "parseQuestionName w 12")
    case (Ok ec)
    obtain e c where ec: "parseQuestionName w 12 = Ok (e, c)" using Ok by (cases ec) auto
    show ?thesis
      using True put_at_zero [of w]
      by (auto simp: validateDNSResponse_def ec Let_def responseCount_def scanStart_def seg_def
        simp del: put_at_Ok validateRecords.simps split: if_splits)
  qed (use True in \<open>auto simp: validateDNSResponse_def split: if_splits\<close>)
qed (auto simp: validateDNSResponse_def split: if_splits)

section \<open>Absence of panics\<close>

lemma clampRecord_no_panic [no_panic]:
  assumes "parseResourceRecord result offset = Ok r"
  shows "clampRecord result r inAuthority limit \<noteq> Panic"
  using parseResourceRecord_Ok [OF assms]
  by (auto simp: clampRecord_def rbind_eq_Panic no_panic put_be32_not_Panic parseSOAMinimum_iff)

lemma clampRecords_no_panic [no_panic]: "clampRecords n result offset index ac au limit \<noteq> Panic"
  by (induction n arbitrary: result offset index) (auto intro!: rbind_not_Panic simp: no_panic)

lemma validateRecords_no_panic [no_panic]: "validateRecords n wire index ac au st \<noteq> Panic"
  by (induction n arbitrary: index st)
    (auto simp: no_panic Let_def intro!: rbind_not_Panic split: res.split)

lemma responseSwitch_no_panic [no_panic]: "responseSwitch rcode ac st \<noteq> Panic"
  by (simp add: responseSwitch_def)

lemma validateDNSResponse_no_panic [no_panic]: "validateDNSResponse q w \<noteq> Panic"
  by (auto simp: validateDNSResponse_def no_panic Let_def intro!: rbind_not_Panic split: res.split)

lemma clampDNSResponseTTLs_no_panic [no_panic]: "clampDNSResponseTTLs w limit \<noteq> Panic"
  by (auto simp: clampDNSResponseTTLs_def no_panic Let_def rbind_eq_Panic split: res.split if_splits)

section \<open>The message ID\<close>

text \<open>No check reads the two ID bytes except the comparison with the query.\<close>

lemma skipDNSNameLoop_agree:
  assumes "length wire' = length wire" and "agree wire wire' 12 (length wire)"
  shows "skipDNSNameLoop n wire' offset ce len vis = skipDNSNameLoop n wire offset ce len vis"
proof (induction n arbitrary: offset ce len vis)
  case (Suc n)
  show ?case
  proof (cases "12 \<le> offset \<and> offset < length wire")
    case True
    then have "wire' ! offset = wire ! offset" using assms(2) by (simp add: agree_def)
    moreover have "be16 wire' offset = (be16 wire offset :: u16 doh)" if "offset + 1 < length wire"
      using agree_seg [OF assms(2), of offset "offset + 2"] assms(1) True that by simp
    ultimately show ?thesis
      using True assms(1) Suc.IH by (simp cong: rbind_cong if_cong)
  qed (use assms(1) in auto)
qed simp

lemma parseResourceRecord_agree:
  assumes "length wire' = length wire" and "agree wire wire' 12 (length wire)"
  shows "parseResourceRecord wire' offset = parseResourceRecord wire offset"
proof (cases "skipDNSName wire offset")
  case (Ok nx)
  have "skipDNSName wire' offset = skipDNSName wire offset"
    by (simp add: skipDNSName_def skipDNSNameLoop_agree [OF assms])
  moreover have "12 \<le> offset"
    using Ok by (auto simp: skipDNSName_def elim: skipDNSNameLoop_step)
  ultimately show ?thesis
    using Ok skipDNSName_Ok(1) [OF Ok] assms(1)
    by (simp add: parseResourceRecord_def agree_seg [OF assms(2)] Let_def)
qed (simp_all add: parseResourceRecord_def skipDNSName_def skipDNSNameLoop_agree [OF assms])

lemma parseSOAMinimum_agree:
  assumes "length wire' = length wire" and "agree wire wire' 12 (length wire)"
  shows "parseSOAMinimum wire' start stop = parseSOAMinimum wire start stop"
proof -
  have skip: "skipDNSName wire' i = skipDNSName wire i" for i
    by (simp add: skipDNSName_def skipDNSNameLoop_agree [OF assms])
  have "seg wire' (stop - 4) stop = seg wire (stop - 4) stop" if "skipDNSName wire i = Ok (stop - 20)" "20 \<le> stop"
      "stop \<le> length wire" for i
  proof -
    have "12 \<le> i" using that(1) by (auto simp: skipDNSName_def elim: skipDNSNameLoop_step)
    then show ?thesis
      using agree_seg [OF assms(2), of "stop - 4" stop] skipDNSName_Ok(1) [OF that(1)] that by simp
  qed
  then show ?thesis
    using assms(1) by (auto simp: parseSOAMinimum_def skip split: res.split)
qed

lemma validateRecords_agree:
  assumes "length wire' = length wire" and "agree wire wire' 12 (length wire)"
  shows "validateRecords n wire' index ac au st = validateRecords n wire index ac au st"
proof (induction n arbitrary: index st)
  case (Suc n)
  then show ?case
    by (cases "parseResourceRecord wire (rs_offset st)")
      (simp_all add: parseResourceRecord_agree [OF assms] parseSOAMinimum_agree [OF assms] Let_def)
qed simp

lemma responseWithID_Ok:
  "2 \<le> length w \<Longrightarrow> responseWithID w i = Ok (be16_bytes i @ drop 2 w)"
  by (simp add: responseWithID_def put_be16_def)

lemma validateDNSResponse_ID:
  assumes "validateDNSResponse q w = Ok (meta, norm)" and "pq_question q' = pq_question q"
  shows "\<exists>w'. responseWithID norm (pq_id q') = Ok w' \<and> validateDNSResponse q' w' = Ok (meta, norm)"
proof -
  define w' where "w' = be16_bytes (pq_id q') @ drop 2 w"
  have norm: "norm = [0, 0] @ drop 2 w" and len: "17 \<le> length w"
    using assms(1) by (auto simp: validateDNSResponse_iff)
  have len': "length w' = length w" using len by (simp add: w'_def)
  have ag: "agree w w' 2 (length w)"
    using len by (auto simp: agree_def w'_def nth_append be16_bytes_def)
  have ag12: "agree w w' 12 (length w)" using ag by (auto intro: agree_mono)
  have id': "seg w' 0 2 = be16_bytes (pq_id q')"
    by (simp add: w'_def seg_def)
  obtain e c st where body: "parseQuestionName w 12 = Ok (e, c)" "e + 4 \<le> length w"
    "c @ seg w e (e + 4) = pq_question q"
    "validateRecords (responseCount w) w 0 (unat (be16_of (seg w 6 8))) (unat (be16_of (seg w 8 10)))
       (scanStart (e + 4)) = Ok st" "rs_offset st = length w"
    "responseSwitch (be16_of (seg w 2 4) AND 0xf) (unat (be16_of (seg w 6 8))) st = Ok meta"
    using assms(1) by (auto simp: validateDNSResponse_iff)
  have e: "12 < e" by (rule parseQuestionName_Ok(1) [OF body(1)])
  note reads = agree_seg [OF ag, symmetric]
  have "parseQuestionName w' 12 = Ok (e, c)"
    using body by (intro parseQuestionName_agree [OF body(1)] agree_mono [OF ag]) auto
  then have "validateDNSResponse q' w' = Ok (meta, [0, 0] @ drop 2 w')"
    using assms body e len len' unfolding validateDNSResponse_iff
    by (auto simp: reads id' responseCount_def validateRecords_agree [OF len' ag12])
  then show ?thesis
    using len by (simp add: norm responseWithID_Ok w'_def)
qed

section \<open>Rewriting keeps a response acceptable\<close>

text \<open>
  A response is tame when no name it contains, followed through its compression pointers,
  leads into a TTL field that the rewriting may change, and no answer record is an OPT record.
\<close>

definition tameResponse :: "wire \<Rightarrow> bool" where
  "tameResponse w = (case parseQuestionName w 12 of
     Ok (e, c) \<Rightarrow>
       (let n = responseCount w; ac = unat (be16_of (seg w 6 8)); au = unat (be16_of (seg w 8 10));
            ttls = walkTTLs n w (e + 4) 0 ac au in
        list_all (\<lambda>i. i \<notin> set ttls) (walkReads n w (e + 4) 0 ac au) \<and> answersPlain n w (e + 4) 0 ac)
   | _ \<Rightarrow> False)"

lemma responseSwitch_limited:
  assumes "responseSwitch rcode ac st = Ok meta" and "limitedScan limit st st'"
  shows "responseSwitch rcode ac st'
    = Ok (meta\<lparr> rm_ttl := min (rm_ttl meta) limit, rm_cacheable := min (rm_ttl meta) limit > 0 \<rparr>)"
  using assms by (auto simp: responseSwitch_def limitedScan_def split: if_splits)

lemma clampDNSResponseTTLs_valid:
  assumes "validateDNSResponse q w = Ok (meta, norm)" and "tameResponse w"
  shows "\<exists>w'. clampDNSResponseTTLs w limit = Ok w' \<and> validateDNSResponse q w'
    = Ok (meta\<lparr> rm_ttl := min (rm_ttl meta) limit, rm_cacheable := min (rm_ttl meta) limit > 0 \<rparr>, [0, 0] @ drop 2 w')"
proof -
  let ?n = "responseCount w" and ?ac = "unat (be16_of (seg w 6 8))" and ?au = "unat (be16_of (seg w 8 10))"
  obtain e c st where body: "parseQuestionName w 12 = Ok (e, c)" "e + 4 \<le> length w"
    "c @ seg w e (e + 4) = pq_question q"
    "validateRecords ?n w 0 ?ac ?au (scanStart (e + 4)) = Ok st" "rs_offset st = length w"
    "responseSwitch (be16_of (seg w 2 4) AND 0xf) ?ac st = Ok meta" and len: "17 \<le> length w"
    using assms(1) by (auto simp: validateDNSResponse_iff)
  have off: "rs_offset (scanStart (e + 4)) = e + 4" by (simp add: scanStart_def)
  let ?T = "set (walkTTLs ?n w (e + 4) 0 ?ac ?au)"
  have tame: "set (walkReads ?n w (e + 4) 0 ?ac ?au) \<inter> ?T = {}" "answersPlain ?n w (e + 4) 0 ?ac"
    using assms(2) body(1) by (auto simp: tameResponse_def Let_def list_all_iff)
  have "walkEnds ?n w (e + 4) 0 ?ac ?au (length w)"
    using validateRecords_walkEnds [OF body(4)] off body(5) by simp
  from clampRecords_walk [OF this refl refl refl tame(1) subset_refl, of limit] obtain w' where
    clamp: "clampRecords ?n w (e + 4) 0 ?ac ?au limit = Ok (w', length w)" and len': "length w' = length w"
    and before: "\<forall>i. i < e + 4 \<and> i < length w \<longrightarrow> w' ! i = w ! i"
    and lim: "limitedWalk ?n w w' (e + 4) 0 ?ac ?au limit"
    by auto
  have ag: "agree w w' 0 (e + 4)" using before body(2) len' by (simp add: agree_def)
  note reads = agree_seg [OF ag, symmetric]
  have e: "12 < e" by (rule parseQuestionName_Ok(1) [OF body(1)])
  have name': "parseQuestionName w' 12 = Ok (e, c)"
    by (rule parseQuestionName_agree [OF body(1) agree_mono [OF ag]]) auto
  obtain st' where st': "validateRecords ?n w' 0 ?ac ?au (scanStart (e + 4)) = Ok st'" "limitedScan limit st st'"
    using validateRecords_limited [OF body(4), of limit "scanStart (e + 4)" w'] lim tame(2) off
    by (auto simp: limitedScan_def scanStart_def)
  have "clampDNSResponseTTLs w limit = Ok w'"
    using clamp body len len' by (simp add: clampDNSResponseTTLs_def responseCount_def)
  moreover have "validateDNSResponse q w'
    = Ok (meta\<lparr> rm_ttl := min (rm_ttl meta) limit, rm_cacheable := min (rm_ttl meta) limit > 0 \<rparr>, [0, 0] @ drop 2 w')"
    using assms(1) st' responseSwitch_limited [OF body(6) st'(2)] name' e body(2,3,5) len len'
    unfolding validateDNSResponse_iff by (auto simp: reads responseCount_def limitedScan_def)
  ultimately show ?thesis by blast
qed

lemma nameReadsLoop_bound:
  assumes "skipDNSNameLoop n wire offset ce len vis = Ok e"
  shows "\<forall>i \<in> set (nameReadsLoop n wire offset). 12 \<le> i \<and> i < length wire"
  using assms
proof (induction n arbitrary: offset ce len vis)
  case (Suc n)
  from Suc.prems show ?case
  proof (cases rule: skipDNSNameLoop_step)
    case (pointer m p)
    with Suc.IH [of p "Some (case ce of None \<Rightarrow> offset + 2 | Some e \<Rightarrow> e)" len "offset # vis"] show ?thesis
      by auto
  next
    case (label m)
    with Suc.IH [of "offset + 1 + unat (wire ! offset)" ce "len + (unat (wire ! offset) + 1)" "offset # vis"]
    show ?thesis by auto
  qed auto
qed simp

lemma nameReads_agree:
  assumes "skipDNSName wire offset = Ok e" and "length wire' = length wire" and "agree wire wire' 12 (length wire)"
  shows "nameReads wire' offset = nameReads wire offset"
proof -
  have "\<forall>i \<in> set (nameReads wire offset). i < length wire \<longrightarrow> wire' ! i = wire ! i"
    using nameReadsLoop_bound [of 128 wire offset None 0 "[]" e] assms(1,3)
    by (auto simp: skipDNSName_def nameReads_def agree_def)
  then show ?thesis by (rule skipDNSName_reads(2) [OF assms(1,2)])
qed

lemma skipDNSName_agree:
  assumes "length wire' = length wire" and "agree wire wire' 12 (length wire)"
  shows "skipDNSName wire' offset = skipDNSName wire offset"
  by (simp add: skipDNSName_def skipDNSNameLoop_agree [OF assms])

lemma recordReads_agree:
  assumes "length wire' = length wire" and "agree wire wire' 12 (length wire)"
    and "parseResourceRecord wire offset = Ok r"
    and "soa \<longrightarrow> is_ok (parseSOAMinimum wire (rr_rdataStart r) (rr_rdataEnd r))"
  shows "recordReads wire' offset r soa = recordReads wire offset r soa"
proof -
  obtain nx where nx: "skipDNSName wire offset = Ok nx"
    using assms(3) by (auto simp: parseResourceRecord_iff)
  have "soaReads wire' r = soaReads wire r" if s: soa
  proof -
    obtain a b where "skipDNSName wire (rr_rdataStart r) = Ok a" "skipDNSName wire a = Ok b"
      using assms(4) s by (auto simp: is_ok_iff parseSOAMinimum_iff)
    then show ?thesis
      using nameReads_agree assms(1,2) skipDNSName_agree [OF assms(1,2)] by (simp add: soaReads_def)
  qed
  then show ?thesis
    using nameReads_agree [OF nx assms(1,2)] by (simp add: recordReads_def)
qed

lemma walk_agree:
  assumes "length wire' = length wire" and "agree wire wire' 12 (length wire)"
    and "walkEnds n wire offset index ac au e"
  shows "walkReads n wire' offset index ac au = walkReads n wire offset index ac au
    \<and> walkTTLs n wire' offset index ac au = walkTTLs n wire offset index ac au
    \<and> answersPlain n wire' offset index ac = answersPlain n wire offset index ac"
  using assms(3)
proof (induction n arbitrary: offset index)
  case (Suc n)
  then obtain r where r: "parseResourceRecord wire offset = Ok r"
    "soaAt index ac au r \<longrightarrow> is_ok (parseSOAMinimum wire (rr_rdataStart r) (rr_rdataEnd r))"
    "walkEnds n wire (rr_rdataEnd r) (index + 1) ac au e"
    by (auto split: res.splits)
  with Suc.IH [OF r(3)] recordReads_agree [OF assms(1,2) r(1,2)] parseResourceRecord_agree [OF assms(1,2), of offset]
  show ?case by simp
qed simp

text \<open>Whether a response is tame does not depend on its ID.\<close>

lemma tameResponse_ID:
  assumes "validateDNSResponse q w = Ok (meta, nrm)" and "length w' = length w" and "agree w w' 2 (length w)"
  shows "tameResponse w' = tameResponse w"
proof -
  obtain e c st where body: "parseQuestionName w 12 = Ok (e, c)" "e + 4 \<le> length w"
    "validateRecords (responseCount w) w 0 (unat (be16_of (seg w 6 8))) (unat (be16_of (seg w 8 10)))
       (scanStart (e + 4)) = Ok st"
    and len: "17 \<le> length w"
    using assms(1) by (auto simp: validateDNSResponse_iff)
  have ag: "agree w w' 12 (length w)" using assms(3) by (auto intro: agree_mono)
  have name': "parseQuestionName w' 12 = Ok (e, c)"
    using body by (intro parseQuestionName_agree [OF body(1)] agree_mono [OF assms(3)]) auto
  have "walkEnds (responseCount w) w (e + 4) 0 (unat (be16_of (seg w 6 8))) (unat (be16_of (seg w 8 10))) (rs_offset st)"
    using validateRecords_walkEnds [OF body(3)] by (simp add: scanStart_def)
  from walk_agree [OF assms(2) ag this] show ?thesis
    using len by (simp add: tameResponse_def name' body(1) responseCount_def agree_seg [OF assms(3), symmetric] Let_def)
qed
section \<open>Properties\<close>

text \<open>
  C4. Serving a stored response later: for an accepted, tame response and any limit, the
  rewriting succeeds, and its result is again accepted for the same query, with the same
  classification and with the smaller of the old lifetime and the limit as its lifetime.
\<close>

theorem clamp_valid:
  assumes "validateDNSResponse q w = Ok (meta, norm)" and "tameResponse w"
  shows "\<exists>w'. clampDNSResponseTTLs w limit = Ok w' \<and> validateDNSResponse q w'
    = Ok (meta\<lparr> rm_ttl := min (rm_ttl meta) limit, rm_cacheable := min (rm_ttl meta) limit > 0 \<rparr>, [0, 0] @ drop 2 w')"
  using assms by (rule clampDNSResponseTTLs_valid)

theorem clamp_valid_witness:
  "\<exists>w' meta. clampDNSResponseTTLs [0, 7, 0x81, 0x80, 0, 1, 0, 1, 0, 0, 0, 0, 1, 97, 2, 110, 108, 0, 0, 1, 0, 1,
     0xc0, 12, 0, 1, 0, 1, 0, 0, 1, 44, 0, 4, 192, 0, 2, 1] 60 = Ok w'
     \<and> validateDNSResponse \<lparr> pq_wire = [], pq_normalized = [], pq_question = [1, 97, 2, 110, 108, 0, 0, 1, 0, 1], pq_key = [],
     pq_digest = [], pq_qtype = ''1'', pq_id = 7, pq_hasECS = False \<rparr> w' = Ok (meta, [0, 0] @ drop 2 w') \<and> rm_ttl meta = 60"
proof -
  let ?w = "[0, 7, 0x81, 0x80, 0, 1, 0, 1, 0, 0, 0, 0, 1, 97, 2, 110, 108, 0, 0, 1, 0, 1,
     0xc0, 12, 0, 1, 0, 1, 0, 0, 1, 44, 0, 4, 192, 0, 2, 1] :: wire"
  let ?q = "\<lparr> pq_wire = [], pq_normalized = [], pq_question = [1, 97, 2, 110, 108, 0, 0, 1, 0, 1], pq_key = [],
     pq_digest = [], pq_qtype = ''1'', pq_id = 7, pq_hasECS = False \<rparr>"
  have "case validateDNSResponse ?q ?w of Ok (meta, norm) \<Rightarrow> rm_ttl meta = 300 | _ \<Rightarrow> False"
    by code_simp
  then obtain meta norm where v: "validateDNSResponse ?q ?w = Ok (meta, norm)" "rm_ttl meta = 300"
    by (auto split: res.splits)
  have "tameResponse ?w" by code_simp
  from clamp_valid [OF v(1) this, of 60] v(2) show ?thesis by (auto simp: min_def)
qed

text \<open>
  C5. A stored response fits every later query for the same question: putting that query's
  ID into the normalized form gives a message that is accepted for it, with the same metadata.
\<close>

theorem response_reusable:
  assumes "validateDNSResponse q w = Ok (meta, norm)" and "pq_question q' = pq_question q"
  shows "\<exists>w'. responseWithID norm (pq_id q') = Ok w' \<and> validateDNSResponse q' w' = Ok (meta, norm)"
  using assms by (rule validateDNSResponse_ID)

theorem response_reusable_witness:
  "\<exists>w' meta norm. validateDNSResponse \<lparr> pq_wire = [], pq_normalized = [], pq_question = [1, 97, 2, 110, 108, 0, 0, 1, 0, 1], pq_key = [],
     pq_digest = [], pq_qtype = ''1'', pq_id = 9, pq_hasECS = False \<rparr> w' = Ok (meta, norm) \<and> rm_ttl meta = 300"
proof -
  let ?w = "[0, 7, 0x81, 0x80, 0, 1, 0, 1, 0, 0, 0, 0, 1, 97, 2, 110, 108, 0, 0, 1, 0, 1,
     0xc0, 12, 0, 1, 0, 1, 0, 0, 1, 44, 0, 4, 192, 0, 2, 1] :: wire"
  let ?q = "\<lparr> pq_wire = [], pq_normalized = [], pq_question = [1, 97, 2, 110, 108, 0, 0, 1, 0, 1], pq_key = [],
     pq_digest = [], pq_qtype = ''1'', pq_id = 7, pq_hasECS = False \<rparr>"
  let ?q' = "\<lparr> pq_wire = [], pq_normalized = [], pq_question = [1, 97, 2, 110, 108, 0, 0, 1, 0, 1], pq_key = [],
     pq_digest = [], pq_qtype = ''1'', pq_id = 9, pq_hasECS = False \<rparr>"
  have "case validateDNSResponse ?q ?w of Ok (meta, norm) \<Rightarrow> rm_ttl meta = 300 | _ \<Rightarrow> False"
    by code_simp
  then obtain meta norm where v: "validateDNSResponse ?q ?w = Ok (meta, norm)" "rm_ttl meta = 300"
    by (auto split: res.splits)
  have "pq_question ?q' = pq_question ?q" by simp
  from response_reusable [OF v(1) this] v(2) show ?thesis by blast
qed

text \<open>
  C6. No upstream response makes the response checks or the rewriting index or slice
  outside the message.
\<close>

theorem response_total: "validateDNSResponse q w \<noteq> Panic \<and> clampDNSResponseTTLs w limit \<noteq> Panic"
  by (simp add: no_panic)

end
