(* ===== verification/Doh_Cache.thy ===== *)
theory Doh_Cache
  imports Doh_Query "HOL-Library.List_Lexorder" "HOL-Library.Char_ord"
begin

text \<open>
  The in-process response cache of \<^verbatim>\<open>src/plugins/doh/cache.go\<close>. The Go map is an association
  list with distinct keys; \<^verbatim>\<open>Put\<close> iterates over it only to find the record with the smallest
  order, and \<open>oldestRecord_perm\<close> shows that the iteration order does not matter. Every
  method takes the error of its context, \<open>None\<close> while the context is live; the mutex
  makes each method one atomic step.
\<close>

section \<open>Model\<close>

record cacheEntry =
  ce_response :: wire
  ce_storedAt :: u64
  ce_expiresAt :: u64

record memoryCacheRecord =
  mcr_entry :: cacheEntry
  mcr_size :: int
  mcr_order :: u64

record memoryCache =
  mc_entries :: "(string \<times> memoryCacheRecord) list"
  mc_maxEntries :: int
  mc_maxBytes :: int
  mc_bytes :: int
  mc_order :: u64

definition NewMemoryCache :: "int \<Rightarrow> int \<Rightarrow> memoryCache" where
  "NewMemoryCache maxEntries maxBytes =
     \<lparr> mc_entries = [], mc_maxEntries = maxEntries, mc_maxBytes = maxBytes, mc_bytes = 0, mc_order = 0 \<rparr>"

text \<open>\<^verbatim>\<open>delete(cache.entries, key)\<close>.\<close>

definition deleteKey :: "'k \<Rightarrow> ('k \<times> 'v) list \<Rightarrow> ('k \<times> 'v) list" where
  "deleteKey key es = filter (\<lambda>(k, _). k \<noteq> key) es"

definition cacheGet :: "doh_error option \<Rightarrow> string \<Rightarrow> u64 \<Rightarrow> memoryCache \<Rightarrow> memoryCache \<times> cacheEntry option doh" where
  "cacheGet ctxErr key now cache =
     (case ctxErr of Some e \<Rightarrow> (cache, Err e)
      | None \<Rightarrow> (case map_of (mc_entries cache) key of
          None \<Rightarrow> (cache, Ok None)
        | Some r \<Rightarrow>
            if now \<ge> ce_expiresAt (mcr_entry r) then
              (cache\<lparr> mc_entries := deleteKey key (mc_entries cache),
                 mc_bytes := mc_bytes cache - mcr_size r \<rparr>, Ok None)
            else (cache, Ok (Some (mcr_entry r)))))"

text \<open>The scan of \<^verbatim>\<open>Put\<close> for the record to evict: the key and order found so far.\<close>

definition oldestStep :: "string \<times> u64 \<Rightarrow> string \<times> memoryCacheRecord \<Rightarrow> string \<times> u64" where
  "oldestStep best current =
     (if fst best = [] \<or> mcr_order (snd current) < snd best
         \<or> mcr_order (snd current) = snd best \<and> fst current < fst best
      then (fst current, mcr_order (snd current)) else best)"

definition oldestRecord :: "(string \<times> memoryCacheRecord) list \<Rightarrow> string" where
  "oldestRecord es = fst (foldl oldestStep ([], 0) es)"

lemma oldestStep_mem: "fst (oldestStep best current) \<in> {fst best, fst current}"
  by (auto simp: oldestStep_def)

lemma foldl_oldestStep_mem: "fst (foldl oldestStep best es) \<in> insert (fst best) (fst ` set es)"
proof (induction es arbitrary: best)
  case (Cons e es)
  show ?case using Cons [of "oldestStep best e"] oldestStep_mem [of best e] by auto
qed simp

lemma oldestRecord_mem: "oldestRecord es \<noteq> [] \<Longrightarrow> oldestRecord es \<in> fst ` set es"
  using foldl_oldestStep_mem [of "([], 0)" es] by (auto simp: oldestRecord_def)

text \<open>
  The eviction loop: \<open>None\<close> is the return of \<^verbatim>\<open>ErrCacheUnavailable\<close>, which leaves what has
  been evicted so far evicted.
\<close>

function evictLoop :: "int \<Rightarrow> memoryCache \<Rightarrow> memoryCache \<times> bool" where
  "evictLoop sz cache =
     (if int (length (mc_entries cache)) \<ge> mc_maxEntries cache \<or> mc_bytes cache + sz > mc_maxBytes cache then
        (let oldestKey = oldestRecord (mc_entries cache) in
         if oldestKey = [] then (cache, False)
         else evictLoop sz
           (cache\<lparr> mc_bytes := mc_bytes cache - (case map_of (mc_entries cache) oldestKey of
                       Some r \<Rightarrow> mcr_size r | None \<Rightarrow> 0),
              mc_entries := deleteKey oldestKey (mc_entries cache) \<rparr>))
      else (cache, True))"
  by pat_completeness auto

lemma length_deleteKey_less: "k \<in> fst ` set es \<Longrightarrow> length (deleteKey k es) < length es"
  unfolding deleteKey_def by (auto intro: length_filter_less)

termination evictLoop
  by (relation "measure (\<lambda>(sz, cache). length (mc_entries cache))")
    (auto intro!: length_deleteKey_less dest: oldestRecord_mem)

declare evictLoop.simps [simp del]

definition cachePut :: "doh_error option \<Rightarrow> string \<Rightarrow> cacheEntry \<Rightarrow> memoryCache \<Rightarrow> memoryCache \<times> unit doh" where
  "cachePut ctxErr key entry cache =
     (case ctxErr of Some e \<Rightarrow> (cache, Err e)
      | None \<Rightarrow>
        if length key = 0 \<or> int (length (ce_response entry)) > mc_maxBytes cache
        then (cache, Err ErrCacheUnavailable)
        else
          let cache1 = (case map_of (mc_entries cache) key of
                 None \<Rightarrow> cache
               | Some previous \<Rightarrow> cache\<lparr> mc_bytes := mc_bytes cache - mcr_size previous,
                   mc_entries := deleteKey key (mc_entries cache) \<rparr>);
              cache2 = cache1\<lparr> mc_order := mc_order cache1 + 1 \<rparr>;
              r = \<lparr> mcr_entry = entry, mcr_size = int (length key) + int (length (ce_response entry)),
                    mcr_order = mc_order cache2 \<rparr>;
              (cache3, room) = evictLoop (mcr_size r) cache2 in
          if \<not> room then (cache3, Err ErrCacheUnavailable)
          else (cache3\<lparr> mc_entries := (key, r) # deleteKey key (mc_entries cache3),
                  mc_bytes := mc_bytes cache3 + mcr_size r \<rparr>, Ok ()))"

definition cacheReset :: "doh_error option \<Rightarrow> memoryCache \<Rightarrow> memoryCache \<times> unit doh" where
  "cacheReset ctxErr cache =
     (case ctxErr of Some e \<Rightarrow> (cache, Err e)
      | None \<Rightarrow> (cache\<lparr> mc_entries := [], mc_bytes := 0 \<rparr>, Ok ()))"

definition cacheStats :: "memoryCache \<Rightarrow> nat \<times> int" where
  "cacheStats cache = (length (mc_entries cache), mc_bytes cache)"

section \<open>Association lists\<close>

lemma map_of_deleteKey [simp]: "map_of (deleteKey k es) = (map_of es)(k := None)"
  unfolding deleteKey_def by (induction es) (auto simp: fun_eq_iff)

lemma fst_deleteKey [simp]: "fst ` set (deleteKey k es) = fst ` set es - {k}"
  by (auto simp: deleteKey_def image_iff)

lemma distinct_deleteKey: "distinct (map fst es) \<Longrightarrow> distinct (map fst (deleteKey k es))"
  unfolding deleteKey_def by (induction es) auto

lemma deleteKey_absent: "k \<notin> fst ` set es \<Longrightarrow> deleteKey k es = es"
  unfolding deleteKey_def by (rule filter_True) force

definition submap :: "('k \<times> 'v) list \<Rightarrow> ('k \<times> 'v) list \<Rightarrow> bool" where
  "submap es' es \<longleftrightarrow> map_of es' \<subseteq>\<^sub>m map_of es"

lemma submapD: "submap es' es \<Longrightarrow> map_of es' k = Some r \<Longrightarrow> map_of es k = Some r"
  by (force simp: submap_def map_le_def)

lemma submap_refl [simp]: "submap es es"
  by (simp add: submap_def)

lemma submap_trans: "submap a b \<Longrightarrow> submap b c \<Longrightarrow> submap a c"
  unfolding submap_def by (rule map_le_trans)

lemma submap_deleteKey [simp]: "submap (deleteKey k es) es"
  by (simp add: submap_def map_le_def)

definition bytesOf :: "(string \<times> memoryCacheRecord) list \<Rightarrow> int" where
  "bytesOf es = sum_list (map (mcr_size \<circ> snd) es)"

lemma bytesOf_deleteKey:
  assumes "distinct (map fst es)" and "map_of es k = Some r"
  shows "bytesOf (deleteKey k es) = bytesOf es - mcr_size r"
  using assms
proof (induction es)
  case (Cons e es)
  show ?case
  proof (cases "fst e = k")
    case True
    with Cons.prems have "deleteKey k es = es" by (intro deleteKey_absent) auto
    with True Cons.prems show ?thesis by (cases e) (auto simp: bytesOf_def deleteKey_def)
  next
    case False
    with Cons show ?thesis by (cases e) (auto simp: bytesOf_def deleteKey_def)
  qed
qed simp

section \<open>The invariant\<close>

text \<open>
  Keys are distinct and not empty, the accounting is exact and the bounds hold once anything is
  held. What the orders of the records mean is a separate invariant, \<open>ageInv\<close>.
\<close>

definition cacheInv :: "memoryCache \<Rightarrow> bool" where
  "cacheInv cache \<longleftrightarrow>
     distinct (map fst (mc_entries cache)) \<and> [] \<notin> fst ` set (mc_entries cache)
     \<and> (\<forall>(k, r) \<in> set (mc_entries cache). mcr_size r = int (length k) + int (length (ce_response (mcr_entry r))))
     \<and> mc_bytes cache = bytesOf (mc_entries cache)
     \<and> (mc_entries cache = [] \<or> int (length (mc_entries cache)) \<le> mc_maxEntries cache)
     \<and> (mc_entries cache = [] \<or> mc_bytes cache \<le> mc_maxBytes cache)"

lemma set_deleteKey: "set (deleteKey k es) \<subseteq> set es"
  by (auto simp: deleteKey_def)

lemma bytesOf_nonneg:
  assumes "\<forall>(k, r) \<in> set es. mcr_size r = int (length k) + int (length (ce_response (mcr_entry r)))"
  shows "0 \<le> bytesOf es"
  using assms by (induction es) (auto simp: bytesOf_def)

lemma cacheInv_delete:
  assumes "cacheInv cache" and "map_of (mc_entries cache) k = Some r"
  shows "cacheInv (cache\<lparr> mc_bytes := mc_bytes cache - mcr_size r, mc_entries := deleteKey k (mc_entries cache) \<rparr>)"
proof -
  have "mcr_size r \<ge> 0"
    using assms by (force simp: cacheInv_def dest!: map_of_SomeD)
  moreover have "length (deleteKey k (mc_entries cache)) \<le> length (mc_entries cache)"
    by (simp add: deleteKey_def)
  moreover have "mc_entries cache \<noteq> []" using assms(2) by auto
  ultimately show ?thesis
    using assms set_deleteKey [of k "mc_entries cache"]
    by (auto simp: cacheInv_def distinct_deleteKey bytesOf_deleteKey)
qed

lemma evictLoop_step:
  assumes "oldestRecord (mc_entries cache) \<noteq> []"
    and "int (length (mc_entries cache)) \<ge> mc_maxEntries cache \<or> mc_bytes cache + sz > mc_maxBytes cache"
  obtains r where "map_of (mc_entries cache) (oldestRecord (mc_entries cache)) = Some r"
    and "evictLoop sz cache = evictLoop sz
      (cache\<lparr> mc_bytes := mc_bytes cache - mcr_size r,
         mc_entries := deleteKey (oldestRecord (mc_entries cache)) (mc_entries cache) \<rparr>)"
proof -
  have "oldestRecord (mc_entries cache) \<in> fst ` set (mc_entries cache)"
    by (rule oldestRecord_mem [OF assms(1)])
  then obtain r where r: "map_of (mc_entries cache) (oldestRecord (mc_entries cache)) = Some r"
    by (metis map_of_eq_None_iff not_None_eq)
  show thesis
    by (rule that [OF r]) (use assms r in \<open>subst evictLoop.simps, simp add: Let_def\<close>)
qed

lemma oldestRecord_nonempty:
  assumes "[] \<notin> fst ` set es" and "es \<noteq> []"
  shows "oldestRecord es \<noteq> []"
proof -
  obtain e es' where es: "es = e # es'" using assms(2) by (cases es) auto
  have "fst (oldestStep ([], 0) e) = fst e" by (simp add: oldestStep_def)
  then have "oldestRecord es \<in> insert (fst e) (fst ` set es')"
    using es foldl_oldestStep_mem [of "oldestStep ([], 0) e" es'] by (simp add: oldestRecord_def)
  moreover have "[] \<notin> insert (fst e) (fst ` set es')" using assms(1) es by simp
  ultimately show ?thesis by metis
qed

text \<open>What the eviction loop does: it keeps the invariant and only removes records.\<close>

lemma evictLoop_inv:
  "cacheInv cache \<Longrightarrow> evictLoop sz cache = (cache', room) \<Longrightarrow>
    cacheInv cache' \<and> mc_maxEntries cache' = mc_maxEntries cache \<and> mc_maxBytes cache' = mc_maxBytes cache
    \<and> mc_order cache' = mc_order cache
    \<and> submap (mc_entries cache') (mc_entries cache)
    \<and> (if room then int (length (mc_entries cache')) < mc_maxEntries cache' \<and> mc_bytes cache' + sz \<le> mc_maxBytes cache'
       else mc_entries cache' = [] \<and> (mc_maxEntries cache' \<le> 0 \<or> sz > mc_maxBytes cache'))"
proof (induction sz cache rule: evictLoop.induct)
  case (1 sz cache)
  let ?over = "int (length (mc_entries cache)) \<ge> mc_maxEntries cache \<or> mc_bytes cache + sz > mc_maxBytes cache"
  let ?old = "oldestRecord (mc_entries cache)"
  show ?case
  proof (cases "?over \<and> ?old \<noteq> []")
    case True
    then obtain r where r: "map_of (mc_entries cache) ?old = Some r"
      and step: "evictLoop sz cache = evictLoop sz
        (cache\<lparr> mc_bytes := mc_bytes cache - mcr_size r, mc_entries := deleteKey ?old (mc_entries cache) \<rparr>)"
      using evictLoop_step [of cache sz] by blast
    let ?c = "cache\<lparr> mc_bytes := mc_bytes cache - mcr_size r, mc_entries := deleteKey ?old (mc_entries cache) \<rparr>"
    have "cacheInv cache' \<and> mc_maxEntries cache' = mc_maxEntries ?c \<and> mc_maxBytes cache' = mc_maxBytes ?c
      \<and> mc_order cache' = mc_order ?c \<and> submap (mc_entries cache') (mc_entries ?c)
      \<and> (if room then int (length (mc_entries cache')) < mc_maxEntries cache' \<and> mc_bytes cache' + sz \<le> mc_maxBytes cache'
         else mc_entries cache' = [] \<and> (mc_maxEntries cache' \<le> 0 \<or> sz > mc_maxBytes cache'))"
      using 1(1) [OF _ refl] True r cacheInv_delete [OF 1(2) r] 1(3) step by (simp split: if_splits) auto
    then show ?thesis
      using submap_trans [OF _ submap_deleteKey, of "mc_entries cache'" ?old "mc_entries cache"] by (simp split: if_splits) auto
  next
    case False
    show ?thesis
    proof (cases ?over)
      case True
      with False have old: "?old = []" by simp
      then have "mc_entries cache = []"
        using oldestRecord_nonempty [of "mc_entries cache"] 1(2) by (auto simp: cacheInv_def)
      moreover have "evictLoop sz cache = (cache, False)"
        using True old by (simp add: evictLoop.simps [of sz cache])
      ultimately show ?thesis
        using 1(2,3) True by (auto simp: cacheInv_def bytesOf_def)
    next
      case False
      then have "evictLoop sz cache = (cache, True)" by (simp add: evictLoop.simps [of sz cache])
      with 1(2,3) False show ?thesis by auto
    qed
  qed
qed

section \<open>Eviction is by age\<close>

definition older :: "string \<times> u64 \<Rightarrow> string \<times> u64 \<Rightarrow> bool" where
  "older a b \<longleftrightarrow> snd a < snd b \<or> snd a = snd b \<and> fst a \<le> fst b"

definition keyOrder :: "string \<times> memoryCacheRecord \<Rightarrow> string \<times> u64" where
  "keyOrder e = (fst e, mcr_order (snd e))"

lemma older_refl: "older a a"
  by (simp add: older_def)

lemma older_trans: "older a b \<Longrightarrow> older b c \<Longrightarrow> older a c"
  by (auto simp: older_def)

lemma older_antisym: "older a b \<Longrightarrow> older b a \<Longrightarrow> a = b"
  by (auto simp: older_def prod_eq_iff)

lemma oldestStep_older:
  assumes "fst best \<noteq> []"
  shows "older (oldestStep best e) best" and "older (oldestStep best e) (keyOrder e)"
    and "oldestStep best e \<in> {best, keyOrder e}"
  using assms by (auto simp: oldestStep_def older_def keyOrder_def not_less)

lemma foldl_oldestStep_older:
  assumes "fst best \<noteq> []" and "[] \<notin> fst ` set es"
  shows "older (foldl oldestStep best es) best
    \<and> (\<forall>e \<in> set es. older (foldl oldestStep best es) (keyOrder e))
    \<and> foldl oldestStep best es \<in> insert best (keyOrder ` set es)"
  using assms
proof (induction es arbitrary: best)
  case (Cons e es)
  note step = oldestStep_older [OF Cons.prems(1), of e]
  have "fst (oldestStep best e) \<noteq> []"
    using step(3) Cons.prems by (auto simp: keyOrder_def)
  from Cons.IH [OF this] Cons.prems(2) step show ?case
    by (auto intro: older_trans)
qed (simp add: older_refl)

text \<open>The record found is the oldest one, whatever the order of iteration.\<close>

lemma oldestRecord_oldest:
  assumes "[] \<notin> fst ` set es" and "es \<noteq> []"
  obtains e where "e \<in> set es" and "oldestRecord es = fst e" and "\<forall>e' \<in> set es. older (keyOrder e) (keyOrder e')"
proof -
  obtain a es' where es: "es = a # es'" using assms(2) by (cases es) auto
  have a: "oldestStep ([], 0) a = keyOrder a" by (simp add: oldestStep_def keyOrder_def)
  have "fst (keyOrder a) \<noteq> []" "[] \<notin> fst ` set es'"
    using assms(1) es by (auto simp: keyOrder_def)
  note f = foldl_oldestStep_older [OF this]
  then have "foldl oldestStep (keyOrder a) es' \<in> keyOrder ` set es"
    by (simp add: es)
  then obtain e where e: "foldl oldestStep (keyOrder a) es' = keyOrder e" "e \<in> set es"
    by (rule imageE)
  then have "oldestRecord es = fst e"
    by (simp add: oldestRecord_def es a) (simp add: keyOrder_def)
  then show thesis
    using e f by (intro that [of e]) (auto simp: es)
qed

lemma oldestRecord_perm:
  assumes "set es = set es'" and "[] \<notin> fst ` set es"
  shows "oldestRecord es = oldestRecord es'"
proof (cases "es = []")
  case False
  with assms have ne': "[] \<notin> fst ` set es'" "es' \<noteq> []" by auto
  obtain e where e: "e \<in> set es" "oldestRecord es = fst e" "\<forall>e' \<in> set es. older (keyOrder e) (keyOrder e')"
    by (rule oldestRecord_oldest [OF assms(2) False])
  obtain f where f: "f \<in> set es'" "oldestRecord es' = fst f" "\<forall>e' \<in> set es'. older (keyOrder f) (keyOrder e')"
    by (rule oldestRecord_oldest [OF ne'])
  have "keyOrder e = keyOrder f"
    using e f assms(1) by (intro older_antisym) auto
  with e f show ?thesis by (simp add: keyOrder_def)
qed (use assms in simp)

lemma evictLoop_fifo:
  "cacheInv cache \<Longrightarrow> evictLoop sz cache = (cache', room) \<Longrightarrow>
    map_of (mc_entries cache) k = Some r \<Longrightarrow> map_of (mc_entries cache') k = None \<Longrightarrow>
    map_of (mc_entries cache') k' = Some r' \<Longrightarrow> older (k, mcr_order r) (k', mcr_order r')"
proof (induction sz cache rule: evictLoop.induct)
  case (1 sz cache)
  let ?over = "int (length (mc_entries cache)) \<ge> mc_maxEntries cache \<or> mc_bytes cache + sz > mc_maxBytes cache"
  let ?old = "oldestRecord (mc_entries cache)"
  show ?case
  proof (cases "?over \<and> ?old \<noteq> []")
    case True
    then obtain q where q: "map_of (mc_entries cache) ?old = Some q"
      and step: "evictLoop sz cache = evictLoop sz
        (cache\<lparr> mc_bytes := mc_bytes cache - mcr_size q, mc_entries := deleteKey ?old (mc_entries cache) \<rparr>)"
      using evictLoop_step [of cache sz] by blast
    note inv' = cacheInv_delete [OF 1(2) q]
    have "submap (mc_entries cache') (deleteKey ?old (mc_entries cache))"
      using evictLoop_inv [OF inv', of sz cache' room] step 1(3) by simp
    then have kept: "map_of (mc_entries cache) k' = Some r'"
      using submapD [OF submap_trans [OF _ submap_deleteKey] 1(6)] by blast
    show ?thesis
    proof (cases "k = ?old")
      case True
      have ne: "[] \<notin> fst ` set (mc_entries cache)" "mc_entries cache \<noteq> []"
        using 1(2) q by (auto simp: cacheInv_def)
      obtain e where e: "e \<in> set (mc_entries cache)" "?old = fst e"
        "\<forall>e' \<in> set (mc_entries cache). older (keyOrder e) (keyOrder e')"
        by (rule oldestRecord_oldest [OF ne])
      have "map_of (mc_entries cache) (fst e) = Some (snd e)"
        using e(1) 1(2) by (auto simp: cacheInv_def)
      then have "keyOrder e = (k, mcr_order r)"
        using 1(4) True e(2) by (simp add: keyOrder_def)
      then show ?thesis
        using bspec [OF e(3) map_of_SomeD [OF kept]] by (simp add: keyOrder_def)
    next
      case False
      have over: ?over and ne: "?old \<noteq> []" using \<open>?over \<and> ?old \<noteq> []\<close> by simp_all
      show ?thesis
        using 1(1) [OF over refl ne] q inv' step 1(3-6) False by simp
    qed
  next
    case False
    then show ?thesis
      using 1(3-5) by (auto simp: evictLoop.simps [of sz cache] split: if_splits)
  qed
qed

section \<open>The operations keep the invariant\<close>

definition cacheLookup :: "memoryCache \<Rightarrow> string \<Rightarrow> cacheEntry option" where
  "cacheLookup cache k = map_option mcr_entry (map_of (mc_entries cache) k)"

lemma cacheLookup_submap: "submap (mc_entries c') (mc_entries c) \<Longrightarrow> cacheLookup c' k = Some en \<Longrightarrow> cacheLookup c k = Some en"
  by (auto simp: cacheLookup_def dest: submapD)

lemma NewMemoryCache_inv: "cacheInv (NewMemoryCache maxEntries maxBytes)"
  by (simp add: cacheInv_def NewMemoryCache_def bytesOf_def)

lemma cacheGet_cases:
  assumes "cacheInv c" and "cacheGet ctxErr k now c = (c', r)"
  shows "cacheInv c'" and "submap (mc_entries c') (mc_entries c)"
    and "r = Ok (Some en) \<Longrightarrow> cacheLookup c k = Some en \<and> now < ce_expiresAt en \<and> c' = c"
proof -
  have upd: "c\<lparr> mc_entries := x, mc_bytes := y \<rparr> = c\<lparr> mc_bytes := y, mc_entries := x \<rparr>" for x y by simp
  show "cacheInv c'"
    using assms cacheInv_delete [OF assms(1)]
    by (auto simp: cacheGet_def upd split: option.splits if_splits)
  show "submap (mc_entries c') (mc_entries c)"
    using assms by (auto simp: cacheGet_def split: option.splits if_splits)
  show "r = Ok (Some en) \<Longrightarrow> cacheLookup c k = Some en \<and> now < ce_expiresAt en \<and> c' = c"
    using assms by (auto simp: cacheGet_def cacheLookup_def split: option.splits if_splits)
qed

lemma cacheGet_fresh:
  "cacheLookup c k = Some en \<Longrightarrow> now < ce_expiresAt en \<Longrightarrow> cacheGet None k now c = (c, Ok (Some en))"
  by (auto simp: cacheGet_def cacheLookup_def)

text \<open>
  The cache as \<^verbatim>\<open>Put\<close> sees it when the eviction loop starts: without the key, with the order
  counter advanced.
\<close>

definition putStart :: "string \<Rightarrow> memoryCache \<Rightarrow> memoryCache" where
  "putStart key cache =
     (let cache1 = (case map_of (mc_entries cache) key of
        None \<Rightarrow> cache
      | Some previous \<Rightarrow> cache\<lparr> mc_bytes := mc_bytes cache - mcr_size previous,
          mc_entries := deleteKey key (mc_entries cache) \<rparr>)
      in cache1\<lparr> mc_order := mc_order cache1 + 1 \<rparr>)"

definition newRecord :: "string \<Rightarrow> cacheEntry \<Rightarrow> memoryCache \<Rightarrow> memoryCacheRecord" where
  "newRecord key entry cache =
     \<lparr> mcr_entry = entry, mcr_size = int (length key) + int (length (ce_response entry)),
       mcr_order = mc_order (putStart key cache) \<rparr>"

lemma putStart_facts:
  assumes "cacheInv c"
  shows "cacheInv (putStart k c)" and "submap (mc_entries (putStart k c)) (mc_entries c)"
    and "mc_maxEntries (putStart k c) = mc_maxEntries c" and "mc_maxBytes (putStart k c) = mc_maxBytes c"
    and "map_of (mc_entries (putStart k c)) = (map_of (mc_entries c))(k := None)"
    and "k \<notin> fst ` set (mc_entries (putStart k c))"
proof -
  have order: "cacheInv (x\<lparr> mc_order := n \<rparr>) = cacheInv x" for x n
    by (simp add: cacheInv_def)
  show "cacheInv (putStart k c)"
    using assms cacheInv_delete [OF assms] by (simp add: putStart_def Let_def order split: option.split)
  show m: "map_of (mc_entries (putStart k c)) = (map_of (mc_entries c))(k := None)"
    by (auto simp: putStart_def Let_def fun_eq_iff split: option.split)
  then show "k \<notin> fst ` set (mc_entries (putStart k c))"
    by (metis fun_upd_same map_of_eq_None_iff)
qed (simp_all add: putStart_def Let_def split: option.split)

lemma cachePut_cases:
  assumes "cachePut ctxErr k en c = (c', r)"
  obtains (unchanged) e where "c' = c" and "r = Err e"
      and "ctxErr \<noteq> None \<or> k = [] \<or> int (length (ce_response en)) > mc_maxBytes c"
  | (full) "ctxErr = None" and "k \<noteq> []" and "int (length (ce_response en)) \<le> mc_maxBytes c"
      and "evictLoop (mcr_size (newRecord k en c)) (putStart k c) = (c', False)" and "r = Err ErrCacheUnavailable"
  | (stored) c3 where "ctxErr = None" and "k \<noteq> []" and "int (length (ce_response en)) \<le> mc_maxBytes c"
      and "evictLoop (mcr_size (newRecord k en c)) (putStart k c) = (c3, True)" and "r = Ok ()"
      and "c' = c3\<lparr> mc_entries := (k, newRecord k en c) # deleteKey k (mc_entries c3),
        mc_bytes := mc_bytes c3 + mcr_size (newRecord k en c) \<rparr>"
proof -
  show thesis
  proof (cases "ctxErr = None \<and> k \<noteq> [] \<and> int (length (ce_response en)) \<le> mc_maxBytes c")
    case False
    then show thesis
      using assms by (intro unchanged [of "case ctxErr of Some e \<Rightarrow> e | None \<Rightarrow> ErrCacheUnavailable"])
        (auto simp: cachePut_def split: option.splits)
  next
    case True
    obtain c3 room where ev: "evictLoop (mcr_size (newRecord k en c)) (putStart k c) = (c3, room)"
      by fastforce
    have put: "cachePut ctxErr k en c = (if \<not> room then (c3, Err ErrCacheUnavailable)
        else (c3\<lparr> mc_entries := (k, newRecord k en c) # deleteKey k (mc_entries c3),
          mc_bytes := mc_bytes c3 + mcr_size (newRecord k en c) \<rparr>, Ok ()))"
      using True ev by (simp add: cachePut_def newRecord_def putStart_def Let_def)
    show thesis
      using assms put ev True by (cases room) (auto intro: full stored)
  qed
qed

lemma cachePut_inv:
  assumes inv: "cacheInv c" and put: "cachePut ctxErr k en c = (c', r)"
  shows "cacheInv c' \<and> mc_maxEntries c' = mc_maxEntries c \<and> mc_maxBytes c' = mc_maxBytes c"
  using put
proof (cases rule: cachePut_cases)
  case full
  then show ?thesis
    using evictLoop_inv [OF putStart_facts(1) [OF inv]] putStart_facts(3,4) [OF inv] by metis
next
  case (stored c3)
  let ?r = "newRecord k en c"
  have c3: "cacheInv c3" "mc_maxEntries c3 = mc_maxEntries c" "mc_maxBytes c3 = mc_maxBytes c"
    "int (length (mc_entries c3)) < mc_maxEntries c3" "mc_bytes c3 + mcr_size ?r \<le> mc_maxBytes c3"
    "submap (mc_entries c3) (mc_entries (putStart k c))"
    using evictLoop_inv [OF putStart_facts(1) [OF inv] stored(4)] putStart_facts(3,4) [OF inv, of k] by auto
  have "map_of (mc_entries c3) k = None"
    using submapD [OF c3(6), of k] putStart_facts(5) [OF inv, of k] by (cases "map_of (mc_entries c3) k") auto
  then have k: "k \<notin> fst ` set (mc_entries c3)" by (simp add: map_of_eq_None_iff)
  then show ?thesis
    using c3 stored(2,6) by (auto simp: cacheInv_def deleteKey_absent bytesOf_def newRecord_def)
qed (use inv in simp)

lemma cachePut_lookup:
  assumes inv: "cacheInv c" and put: "cachePut ctxErr k en c = (c', r)"
  shows "(r = Ok () \<longrightarrow> cacheLookup c' k = Some en)
    \<and> (\<forall>k' x. cacheLookup c' k' = Some x \<longrightarrow> cacheLookup c k' = Some x \<or> r = Ok () \<and> k' = k \<and> x = en)"
  using put
proof (cases rule: cachePut_cases)
  case full
  have "submap (mc_entries c') (mc_entries c)"
    using evictLoop_inv [OF putStart_facts(1) [OF inv] full(4)] putStart_facts(2) [OF inv] submap_trans by metis
  then show ?thesis using full cacheLookup_submap by auto
next
  case (stored c3)
  have sub: "submap (mc_entries c3) (mc_entries c)"
    using evictLoop_inv [OF putStart_facts(1) [OF inv] stored(4)] putStart_facts(2) [OF inv] submap_trans by metis
  have look: "cacheLookup c' j = (if j = k then Some en else cacheLookup c3 j)" for j
    using stored(6) by (simp add: cacheLookup_def newRecord_def)
  show ?thesis
    using stored(5) cacheLookup_submap [OF sub] by (auto simp: look split: if_splits)
qed auto

lemma cachePut_succeeds:
  assumes inv: "cacheInv c" and "k \<noteq> []" and "0 < mc_maxEntries c"
    and "int (length k) + int (length (ce_response en)) \<le> mc_maxBytes c"
  shows "\<exists>c'. cachePut None k en c = (c', Ok ())"
proof -
  obtain c' r where put: "cachePut None k en c = (c', r)" by fastforce
  then show ?thesis
  proof (cases rule: cachePut_cases)
    case (unchanged e)
    with assms(2,4) show ?thesis by auto
  next
    case full
    have "mcr_size (newRecord k en c) \<le> mc_maxBytes c" using assms(4) by (simp add: newRecord_def)
    with evictLoop_inv [OF putStart_facts(1) [OF inv] full(4)] putStart_facts(3,4) [OF inv, of k] assms(3)
    show ?thesis by auto
  qed (use put in auto)
qed

lemma cacheReset_inv: "cacheInv c \<Longrightarrow> cacheReset ctxErr c = (c', r) \<Longrightarrow> cacheInv c' \<and> submap (mc_entries c') (mc_entries c)"
  by (auto simp: cacheReset_def cacheInv_def bytesOf_def submap_def split: option.splits)

section \<open>The contract of a response cache\<close>

text \<open>
  What the service relies on: a cache holds entries under keys, returns only entries that are
  held and not yet expired, holds an entry it accepted, and otherwise only forgets.
\<close>

locale response_cache =
  fixes inv :: "'c \<Rightarrow> bool"
    and lookup :: "'c \<Rightarrow> string \<Rightarrow> cacheEntry option"
    and get :: "doh_error option \<Rightarrow> string \<Rightarrow> u64 \<Rightarrow> 'c \<Rightarrow> 'c \<times> cacheEntry option doh"
    and put :: "doh_error option \<Rightarrow> string \<Rightarrow> cacheEntry \<Rightarrow> 'c \<Rightarrow> 'c \<times> unit doh"
    and reset :: "doh_error option \<Rightarrow> 'c \<Rightarrow> 'c \<times> unit doh"
  assumes get_inv: "inv c \<Longrightarrow> get e k now c = (c', r) \<Longrightarrow> inv c'"
    and get_sub: "inv c \<Longrightarrow> get e k now c = (c', r) \<Longrightarrow> lookup c' k' = Some x \<Longrightarrow> lookup c k' = Some x"
    and get_hit: "inv c \<Longrightarrow> get e k now c = (c', Ok (Some en)) \<Longrightarrow> lookup c k = Some en \<and> now < ce_expiresAt en"
    and get_fresh: "inv c \<Longrightarrow> lookup c k = Some en \<Longrightarrow> now < ce_expiresAt en \<Longrightarrow> get None k now c = (c, Ok (Some en))"
    and put_inv: "inv c \<Longrightarrow> put e k en c = (c', s) \<Longrightarrow> inv c'"
    and put_holds: "inv c \<Longrightarrow> put e k en c = (c', Ok ()) \<Longrightarrow> lookup c' k = Some en"
    and put_sub: "inv c \<Longrightarrow> put e k en c = (c', s) \<Longrightarrow> lookup c' k' = Some x \<Longrightarrow>
      lookup c k' = Some x \<or> s = Ok () \<and> k' = k \<and> x = en"
    and reset_inv: "inv c \<Longrightarrow> reset e c = (c', s) \<Longrightarrow> inv c'"
    and reset_sub: "inv c \<Longrightarrow> reset e c = (c', s) \<Longrightarrow> lookup c' k' = Some x \<Longrightarrow> lookup c k' = Some x"
begin

lemma put_then_get:
  assumes "inv c" and "put e k en c = (c', Ok ())" and "now < ce_expiresAt en"
  shows "get None k now c' = (c', Ok (Some en))"
  using assms put_inv put_holds get_fresh by metis

text \<open>A property of every held entry survives all operations, if it holds of what is put.\<close>

lemma held_get:
  assumes "inv c" and "\<And>k en. lookup c k = Some en \<Longrightarrow> P k en" and "get e k now c = (c', r)"
  shows "lookup c' k' = Some x \<Longrightarrow> P k' x" and "r = Ok (Some en) \<Longrightarrow> P k en"
  using assms get_sub get_hit by metis+

lemma held_put:
  assumes "inv c" and "\<And>k en. lookup c k = Some en \<Longrightarrow> P k en" and "put e k en c = (c', s)" and "P k en"
  shows "lookup c' k' = Some x \<Longrightarrow> P k' x"
  using assms put_sub by metis

end

interpretation mc: response_cache cacheInv cacheLookup cacheGet cachePut cacheReset
proof (unfold_locales, goal_cases)
  case (1 c e k now c' r)
  then show ?case by (rule cacheGet_cases)
next
  case (2 c e k now c' r k' x)
  then show ?case using cacheGet_cases(2) cacheLookup_submap by metis
next
  case (3 c e k now c' en)
  then show ?case using cacheGet_cases(3) by blast
next
  case (4 c k en now)
  then show ?case by (intro cacheGet_fresh)
next
  case (5 c e k en c' s)
  then show ?case using cachePut_inv by blast
next
  case (6 c e k en c')
  then show ?case using cachePut_lookup by blast
next
  case (7 c e k en c' s k' x)
  then show ?case using cachePut_lookup by blast
next
  case (8 c e c' s)
  then show ?case using cacheReset_inv by blast
next
  case (9 c e c' s k' x)
  then show ?case using cacheReset_inv cacheLookup_submap by metis
qed

section \<open>Properties\<close>

text \<open>Sequences of cache operations.\<close>

datatype cacheOp = OpGet "doh_error option" string u64 | OpPut "doh_error option" string cacheEntry
  | OpReset "doh_error option"

fun cacheRun :: "cacheOp list \<Rightarrow> memoryCache \<Rightarrow> memoryCache" where
  "cacheRun [] c = c"
| "cacheRun (OpGet e k now # ops) c = cacheRun ops (fst (cacheGet e k now c))"
| "cacheRun (OpPut e k en # ops) c = cacheRun ops (fst (cachePut e k en c))"
| "cacheRun (OpReset e # ops) c = cacheRun ops (fst (cacheReset e c))"

lemma cacheGet_limits: "mc_maxEntries (fst (cacheGet e k now c)) = mc_maxEntries c \<and> mc_maxBytes (fst (cacheGet e k now c)) = mc_maxBytes c"
  by (simp add: cacheGet_def split: option.split)

lemma cacheRun_inv:
  "cacheInv c \<Longrightarrow> cacheInv (cacheRun ops c) \<and> mc_maxEntries (cacheRun ops c) = mc_maxEntries c
    \<and> mc_maxBytes (cacheRun ops c) = mc_maxBytes c"
proof (induction ops c rule: cacheRun.induct)
  case (2 e k now ops c)
  then show ?case
    using cacheGet_cases(1) [of c e k now] cacheGet_limits [of e k now c] by (cases "cacheGet e k now c") auto
next
  case (3 e k en ops c)
  then show ?case using cachePut_inv [of c e k en] by (cases "cachePut e k en c") auto
next
  case (4 e ops c)
  then show ?case
    using cacheReset_inv [of c e] by (cases "cacheReset e c") (auto simp: cacheReset_def split: option.splits)
qed simp

text \<open>
  C7. The cache stays within its bounds: whatever sequence of lookups, insertions and resets
  runs on a new cache, the byte count is exactly the size of the keys and responses held, and
  once anything is held the entry and byte limits are respected.
\<close>

theorem cache_bounds:
  "let c = cacheRun ops (NewMemoryCache maxEntries maxBytes) in
     distinct (map fst (mc_entries c))
     \<and> mc_bytes c = (\<Sum>(k, r) \<leftarrow> mc_entries c. int (length k) + int (length (ce_response (mcr_entry r))))
     \<and> (mc_entries c \<noteq> [] \<longrightarrow> int (length (mc_entries c)) \<le> maxEntries \<and> mc_bytes c \<le> maxBytes)"
proof -
  let ?c = "cacheRun ops (NewMemoryCache maxEntries maxBytes)"
  have inv: "cacheInv ?c" "mc_maxEntries ?c = maxEntries" "mc_maxBytes ?c = maxBytes"
    using cacheRun_inv [OF NewMemoryCache_inv, of ops maxEntries maxBytes] by (auto simp: NewMemoryCache_def)
  have "map (mcr_size \<circ> snd) (mc_entries ?c)
      = map (\<lambda>(k, r). int (length k) + int (length (ce_response (mcr_entry r)))) (mc_entries ?c)"
    using inv(1) by (auto simp: cacheInv_def)
  from arg_cong [OF this, of sum_list] show ?thesis
    using inv by (auto simp: cacheInv_def bytesOf_def Let_def)
qed

theorem cache_bounds_witness:
  "let c = cacheRun [OpPut None ''k'' \<lparr> ce_response = [1, 2], ce_storedAt = 1, ce_expiresAt = 9 \<rparr>] (NewMemoryCache 4 100) in
     mc_entries c \<noteq> [] \<and> int (length (mc_entries c)) \<le> 4 \<and> mc_bytes c \<le> 100"
proof -
  let ?c = "cacheRun [OpPut None ''k'' \<lparr> ce_response = [1, 2], ce_storedAt = 1, ce_expiresAt = 9 \<rparr>] (NewMemoryCache 4 100)"
  have "mc_entries ?c \<noteq> []" by code_simp
  then show ?thesis
    using cache_bounds [of "[OpPut None ''k'' \<lparr> ce_response = [1, 2], ce_storedAt = 1, ce_expiresAt = 9 \<rparr>]" 4 100]
    by (simp add: Let_def)
qed

text \<open>
  C8. A stored response is found again until it expires: on a cache that satisfies its
  invariant, storing under a non-empty key an entry that fits the byte limit succeeds, and a
  later lookup of that key returns exactly this entry as long as the clock is before its expiry,
  and nothing afterwards.
\<close>

theorem cache_put_get:
  assumes "cacheInv c" and "k \<noteq> []" and "0 < mc_maxEntries c"
    and "int (length k) + int (length (ce_response en)) \<le> mc_maxBytes c"
  shows "\<exists>c'. cachePut None k en c = (c', Ok ()) \<and> cacheInv c'
    \<and> (\<forall>now. snd (cacheGet None k now c') = Ok (if now < ce_expiresAt en then Some en else None))"
proof -
  obtain c' where put: "cachePut None k en c = (c', Ok ())"
    using cachePut_succeeds [OF assms] by blast
  then have inv: "cacheInv c'" and look: "cacheLookup c' k = Some en"
    using mc.put_inv [OF assms(1)] mc.put_holds [OF assms(1)] by auto
  have "snd (cacheGet None k now c') = Ok (if now < ce_expiresAt en then Some en else None)" for now
    using look by (auto simp: cacheGet_def cacheLookup_def)
  with put inv show ?thesis by blast
qed

theorem cache_put_get_witness:
  "\<exists>c'. cachePut None ''k'' \<lparr> ce_response = [1, 2], ce_storedAt = 1, ce_expiresAt = 9 \<rparr> (NewMemoryCache 1 10) = (c', Ok ())
     \<and> snd (cacheGet None ''k'' 8 c') = Ok (Some \<lparr> ce_response = [1, 2], ce_storedAt = 1, ce_expiresAt = 9 \<rparr>)"
  using cache_put_get [OF NewMemoryCache_inv [of 1 10], of "''k''" "\<lparr> ce_response = [1, 2], ce_storedAt = 1, ce_expiresAt = 9 \<rparr>"]
  by (auto simp: NewMemoryCache_def)

text \<open>
  The age of what a run of operations leaves in a cache: the position in the run of the last
  successful \<^verbatim>\<open>Put\<close> of each key (\<open>n\<close> counts the operations, \<open>t\<close> holds the positions so far).
  This is read off the history alone, not off the orders the cache keeps.
\<close>

fun storedAt :: "cacheOp list \<Rightarrow> nat \<Rightarrow> memoryCache \<Rightarrow> (string \<Rightarrow> nat) \<Rightarrow> string \<Rightarrow> nat" where
  "storedAt [] n c t = t"
| "storedAt (OpGet e k now # ops) n c t = storedAt ops (n + 1) (fst (cacheGet e k now c)) t"
| "storedAt (OpPut e k en # ops) n c t =
     storedAt ops (n + 1) (fst (cachePut e k en c)) (if snd (cachePut e k en c) = Ok () then t(k := n) else t)"
| "storedAt (OpReset e # ops) n c t = storedAt ops (n + 1) (fst (cacheReset e c)) t"

text \<open>
  After \<open>n\<close> operations the counter is at most \<open>n\<close>, no record is ahead of it, and of two records
  the one with the smaller order was stored earlier.
\<close>

definition ageInv :: "nat \<Rightarrow> (string \<Rightarrow> nat) \<Rightarrow> memoryCache \<Rightarrow> bool" where
  "ageInv n t c \<longleftrightarrow> unat (mc_order c) \<le> n
     \<and> (\<forall>k r. map_of (mc_entries c) k = Some r \<longrightarrow> mcr_order r \<le> mc_order c \<and> t k < n)
     \<and> (\<forall>k1 r1 k2 r2. map_of (mc_entries c) k1 = Some r1 \<longrightarrow> map_of (mc_entries c) k2 = Some r2 \<longrightarrow>
          k1 \<noteq> k2 \<longrightarrow> mcr_order r1 \<le> mcr_order r2 \<longrightarrow> t k1 < t k2)"

lemma ageInv_D:
  assumes "ageInv n t c"
  shows "unat (mc_order c) \<le> n"
    and "map_of (mc_entries c) k = Some r \<Longrightarrow> mcr_order r \<le> mc_order c \<and> t k < n"
    and "map_of (mc_entries c) k1 = Some r1 \<Longrightarrow> map_of (mc_entries c) k2 = Some r2 \<Longrightarrow> k1 \<noteq> k2 \<Longrightarrow>
      mcr_order r1 \<le> mcr_order r2 \<Longrightarrow> t k1 < t k2"
  using assms unfolding ageInv_def by blast+

lemma ageInv_submap:
  assumes "ageInv n t c" and "submap (mc_entries c') (mc_entries c)" and "mc_order c \<le> mc_order c'"
    and "unat (mc_order c') \<le> n'" and "n \<le> n'"
  shows "ageInv n' t c'"
  unfolding ageInv_def
proof (intro conjI allI impI)
  fix k r
  assume "map_of (mc_entries c') k = Some r"
  from ageInv_D(2) [OF assms(1) submapD [OF assms(2) this]] assms(3,5)
  show "mcr_order r \<le> mc_order c'" "t k < n'" by auto
next
  fix k1 r1 k2 r2
  assume "map_of (mc_entries c') k1 = Some r1" "map_of (mc_entries c') k2 = Some r2" "k1 \<noteq> k2" "mcr_order r1 \<le> mcr_order r2"
  then show "t k1 < t k2"
    using ageInv_D(3) [OF assms(1)] submapD [OF assms(2)] by blast
qed (rule assms(4))

lemma mc_order_putStart: "mc_order (putStart k c) = mc_order c + 1"
  by (simp add: putStart_def Let_def split: option.split)

lemma ageInv_put:
  assumes inv: "cacheInv c" and age: "ageInv n t c" and n: "n + 1 < 2 ^ 64" and put: "cachePut e k en c = (c', r)"
  shows "ageInv (n + 1) (if r = Ok () then t(k := n) else t) c'"
proof -
  have up: "mc_order c < mc_order c + 1" "unat (mc_order c + 1) \<le> n + 1"
    using ageInv_D(1) [OF age] n by (auto simp: word_less_nat_alt unat_word_ariths)
  have ev: "ageInv (n + 1) t c3 \<and> mc_order c3 = mc_order c + 1 \<and> submap (mc_entries c3) (mc_entries c)"
    if "evictLoop sz (putStart k c) = (c3, room)" for sz c3 room
  proof -
    have sub: "submap (mc_entries c3) (mc_entries c)" and o: "mc_order c3 = mc_order c + 1"
      using evictLoop_inv [OF putStart_facts(1) [OF inv] that] putStart_facts(2) [OF inv] submap_trans
      by (metis, metis mc_order_putStart)
    then show ?thesis using ageInv_submap [OF age sub] up by simp
  qed
  from put show ?thesis
  proof (cases rule: cachePut_cases)
    case (unchanged e')
    with ageInv_submap [OF age, of c "n + 1"] ageInv_D(1) [OF age] show ?thesis by simp
  next
    case full
    with ev [OF full(4)] show ?thesis by simp
  next
    case (stored c3)
    note c3 = ev [OF stored(4)]
    have new: "mcr_order (newRecord k en c) = mc_order c + 1" by (simp add: newRecord_def mc_order_putStart)
    have held: "mcr_order q \<le> mc_order c \<and> t j < n" if "map_of (mc_entries c3) j = Some q" for j q
      using ageInv_D(2) [OF age] submapD [OF conjunct2 [OF conjunct2 [OF c3]] that] by blast
    have look: "map_of (mc_entries c') j = (if j = k then Some (newRecord k en c) else map_of (mc_entries c3) j)" for j
      by (simp add: stored(6))
    show ?thesis
      unfolding ageInv_def look
    proof (intro conjI allI impI)
      show "unat (mc_order c') \<le> n + 1" using c3 up by (simp add: stored(6))
    next
      fix j q
      assume "(if j = k then Some (newRecord k en c) else map_of (mc_entries c3) j) = Some q"
      then show "mcr_order q \<le> mc_order c'" "(if r = Ok () then t(k := n) else t) j < n + 1"
        using held [of j q] new c3 up(1) by (auto simp: stored(5,6) split: if_splits)
    next
      fix k1 r1 k2 r2
      assume *: "(if k1 = k then Some (newRecord k en c) else map_of (mc_entries c3) k1) = Some r1"
        "(if k2 = k then Some (newRecord k en c) else map_of (mc_entries c3) k2) = Some r2"
        "k1 \<noteq> k2" "mcr_order r1 \<le> mcr_order r2"
      then show "(if r = Ok () then t(k := n) else t) k1 < (if r = Ok () then t(k := n) else t) k2"
        using held [of k1 r1] held [of k2 r2] new up(1) ageInv_D(3) [OF conjunct1 [OF c3], of k1 r1 k2 r2]
        by (auto simp: stored(5) split: if_splits)
    qed
  qed
qed

lemma ageInv_run:
  "cacheInv c \<Longrightarrow> ageInv n t c \<Longrightarrow> n + length ops < 2 ^ 64 \<Longrightarrow>
    ageInv (n + length ops) (storedAt ops n c t) (cacheRun ops c)"
proof (induction ops n c t rule: storedAt.induct)
  case (2 e k now ops n c t)
  obtain c' r where g: "cacheGet e k now c = (c', r)" by fastforce
  note inv = cacheGet_cases(1,2) [OF 2(2) g]
  have "mc_order c' = mc_order c" using g by (auto simp: cacheGet_def split: option.splits if_splits)
  then have "ageInv (n + 1) t c'" using ageInv_submap [OF 2(3) inv(2), of "n + 1"] ageInv_D(1) [OF 2(3)] by simp
  with 2(1,4) inv(1) g show ?case by simp
next
  case (3 e k en ops n c t)
  obtain c' r where p: "cachePut e k en c = (c', r)" by fastforce
  have "cacheInv c'" using cachePut_inv [OF 3(2) p] by blast
  moreover have "ageInv (n + 1) (if r = Ok () then t(k := n) else t) c'"
    using ageInv_put [OF 3(2,3) _ p] 3(4) by simp
  ultimately show ?case using 3(1,4) p by simp
next
  case (4 e ops n c t)
  obtain c' r where g: "cacheReset e c = (c', r)" by fastforce
  note inv = cacheReset_inv [OF 4(2) g]
  have "mc_order c' = mc_order c" using g by (auto simp: cacheReset_def split: option.splits)
  then have "ageInv (n + 1) t c'" using ageInv_submap [OF 4(3), of c' "n + 1"] inv ageInv_D(1) [OF 4(3)] by simp
  with 4(1,4) inv g show ?case by simp
qed simp

text \<open>One insertion: what it evicts has a smaller order than what it keeps.\<close>

lemma cachePut_evicts_older:
  assumes "cacheInv c" and "cachePut ctxErr k en c = (c', r)" and "k1 \<noteq> k" and "k2 \<noteq> k"
    and "map_of (mc_entries c) k1 = Some r1" and "map_of (mc_entries c') k1 = None"
    and "map_of (mc_entries c') k2 = Some r2"
  shows "map_of (mc_entries c) k2 = Some r2 \<and> mcr_order r1 \<le> mcr_order r2"
proof -
  have key: "map_of (mc_entries c) k2 = Some r2 \<and> older (k1, mcr_order r1) (k2, mcr_order r2)"
    if ev: "evictLoop sz (putStart k c) = (c3, room)" and none: "map_of (mc_entries c3) k1 = None"
      and some: "map_of (mc_entries c3) k2 = Some r2" for sz c3 room
  proof -
    note p = putStart_facts [OF assms(1), of k]
    have "map_of (mc_entries (putStart k c)) k1 = Some r1" using p(5) assms(3,5) by simp
    then have "older (k1, mcr_order r1) (k2, mcr_order r2)"
      using evictLoop_fifo [OF p(1) ev _ none some] by blast
    moreover have "submap (mc_entries c3) (mc_entries (putStart k c))"
      using evictLoop_inv [OF p(1) ev] by blast
    from submapD [OF this some] p(5) assms(4) have "map_of (mc_entries c) k2 = Some r2" by simp
    ultimately show ?thesis by simp
  qed
  have "map_of (mc_entries c) k2 = Some r2 \<and> older (k1, mcr_order r1) (k2, mcr_order r2)"
    using assms(2)
  proof (cases rule: cachePut_cases)
    case full
    with key [OF full(4)] assms(6,7) show ?thesis by simp
  next
    case (stored c3)
    with key [OF stored(4)] assms(3,4,6,7) show ?thesis by simp
  qed (use assms(5,6) in simp)
  then show ?thesis by (auto simp: older_def)
qed

text \<open>
  C9. Eviction is first in, first out. Take any run of fewer than \<open>2 ^ 64\<close> lookups, insertions and
  resets on a new cache and then one more insertion. If it removes a record of another key and keeps
  another one, then the removed one was stored before the kept one in that run, where a record's
  time is that of the last successful insertion of its key (lookups do not renew it, storing again
  does); and the kept one holds the entry it held before.
\<close>

theorem cache_fifo:
  assumes "length ops < 2 ^ 64" and "c = cacheRun ops (NewMemoryCache maxEntries maxBytes)"
    and "cachePut ctxErr k en c = (c', r)" and "k1 \<noteq> k" and "k2 \<noteq> k"
    and "cacheLookup c k1 \<noteq> None" and "cacheLookup c' k1 = None" and "cacheLookup c' k2 = Some x"
  shows "cacheLookup c k2 = Some x
    \<and> storedAt ops 0 (NewMemoryCache maxEntries maxBytes) (\<lambda>_. 0) k1
      < storedAt ops 0 (NewMemoryCache maxEntries maxBytes) (\<lambda>_. 0) k2"
proof -
  have inv: "cacheInv c" using cacheRun_inv [OF NewMemoryCache_inv] assms(2) by blast
  have "ageInv 0 (\<lambda>_. 0) (NewMemoryCache maxEntries maxBytes)" by (simp add: ageInv_def NewMemoryCache_def)
  then have age: "ageInv (length ops) (storedAt ops 0 (NewMemoryCache maxEntries maxBytes) (\<lambda>_. 0)) c"
    using ageInv_run [OF NewMemoryCache_inv, of 0 "\<lambda>_. 0" maxEntries maxBytes ops] assms(1,2) by simp
  obtain r1 r2 where r: "map_of (mc_entries c) k1 = Some r1" "map_of (mc_entries c') k2 = Some r2" "x = mcr_entry r2"
    using assms(6,8) by (auto simp: cacheLookup_def)
  have none: "map_of (mc_entries c') k1 = None" using assms(7) by (simp add: cacheLookup_def)
  note e = cachePut_evicts_older [OF inv assms(3-5) r(1) none r(2)]
  have "k1 \<noteq> k2" using none r(2) by auto
  with ageInv_D(3) [OF age r(1), of k2 r2] e r(3) show ?thesis by (simp add: cacheLookup_def)
qed

theorem cache_fifo_witness:
  "\<exists>c c' x. cachePut None ''c'' \<lparr> ce_response = [3], ce_storedAt = 1, ce_expiresAt = 9 \<rparr> c = (c', Ok ())
     \<and> cacheLookup c' ''b'' = None \<and> cacheLookup c' ''a'' = Some x \<and> cacheLookup c ''a'' = Some x"
proof -
  let ?e = "\<lparr> ce_response = [3], ce_storedAt = 1, ce_expiresAt = 9 \<rparr>"
  let ?ops = "[OpPut None ''a'' ?e, OpPut None ''b'' ?e, OpGet None ''b'' 3, OpPut None ''a'' ?e]"
  let ?c = "cacheRun ?ops (NewMemoryCache 2 100)"
  let ?p = "cachePut None ''c'' ?e ?c"
  have ev: "snd ?p = Ok () \<and> cacheLookup ?c ''b'' \<noteq> None
      \<and> cacheLookup (fst ?p) ''b'' = None \<and> cacheLookup (fst ?p) ''a'' = Some ?e"
    by code_simp
  have put: "?p = (fst ?p, Ok ())" using ev by (simp add: prod_eq_iff)
  have "cacheLookup ?c ''a'' = Some ?e"
    using cache_fifo [OF _ refl put, of "''b''" "''a''" ?e] ev by simp
  with put ev show ?thesis by blast
qed

end
