(* ===== verification/Doh_Upstreams.thy ===== *)
theory Doh_Upstreams
  imports Doh_Http
begin

text \<open>
  Configuration of the DoH plugin: the upstream text of \<^verbatim>\<open>src/plugins/doh/upstream_text.go\<close>
  and the defaults, validation and upstream selection of \<^verbatim>\<open>src/plugins/doh/model.go\<close>.
\<close>

section \<open>Model\<close>

definition MaxUpstreams :: nat where "MaxUpstreams = 32"
definition MaxUpstreamLines :: nat where "MaxUpstreamLines = 64"
definition MaxUpstreamLineBytes :: nat where "MaxUpstreamLineBytes = 512"
definition MaxUpstreamDomainBytes :: nat where "MaxUpstreamDomainBytes = 253"

record upstream =
  up_id :: string
  up_endpoint :: string
  up_domain :: string
  up_priority :: int
  up_enabled :: bool

record configuration =
  cf_requestTimeoutMS :: int
  cf_upstreamTimeoutMS :: int
  cf_maxConcurrency :: int
  cf_cacheEntries :: int
  cf_cacheBytes :: int
  cf_minTTL :: u32
  cf_maxTTL :: u32
  cf_upstreams :: "upstream list"

subsection \<open>Domains and names\<close>

definition normalizeDomain :: "dohLib \<Rightarrow> string \<Rightarrow> string" where
  "normalizeDomain lib value = toLower (lib_unicodeLower lib) (trimSuffix (trimSpace value) ''.'')"

definition domainMatches :: "string \<Rightarrow> string \<Rightarrow> bool" where
  "domainMatches qname domain =
     (if qname = [] \<or> domain = [] then False else qname = domain \<or> hasSuffix qname (''.'' @ domain))"

text \<open>The loop of \<^verbatim>\<open>questionName\<close>; \<open>None\<close> is the early return of the empty string.\<close>

function questionLabels :: "wire \<Rightarrow> nat \<Rightarrow> string list \<Rightarrow> string list option" where
  "questionLabels name index labels =
     (if index < length name then
        let len = unat (name ! index) in
        if len = 0 then Some labels
        else if index + 1 + len > length name then None
        else questionLabels name (index + 1 + len)
          (labels @ [bytesText (seg name (index + 1) (index + 1 + len))])
      else Some labels)"
  by pat_completeness auto
termination
  by (relation "measure (\<lambda>(name, index, labels). length name - index)") auto

declare questionLabels.simps [simp del]

definition questionName :: "wire \<Rightarrow> string" where
  "questionName question =
     (if length question < 5 then []
      else case questionLabels (take (length question - 4) question) 0 [] of
        None \<Rightarrow> [] | Some labels \<Rightarrow> joinWith ''.'' labels)"

definition isHostname :: "string \<Rightarrow> bool" where
  "isHostname host =
     (if host = [] \<or> length host > 253 \<or> containsSub host '' '' then False
      else list_all (\<lambda>label. label \<noteq> [] \<and> length label \<le> 63
        \<and> list_all (\<lambda>c. let n = (of_char (asciiLower c) :: nat) in
            n = 45 \<or> (48 \<le> n \<and> n \<le> 57) \<or> (97 \<le> n \<and> n \<le> 122)) label) (splitByte CHR ''.'' host))"

subsection \<open>Upstream text\<close>

text \<open>\<^verbatim>\<open>isUpstreamSeparator\<close> as the encodings of the runes it accepts.\<close>

definition upstreamSeparators :: "string list" where
  "upstreamSeparators = [[CHR '',''], map char_of [0xef, 0xbc, 0x8c :: nat],
     [CHR '';''], map char_of [0xef, 0xbc, 0x9b :: nat]] @ spaceRunes"

definition splitUpstreamFields :: "string \<Rightarrow> string list" where
  "splitUpstreamFields line = fieldsLoop upstreamSeparators [] line"

definition splitDomainPrefix :: "dohLib \<Rightarrow> string \<Rightarrow> (string \<times> string) doh" where
  "splitDomainPrefix lib line =
     (if \<not> hasPrefix line ''[/'' then Ok ([], line)
      else case indexSub line ''/]'' of
        None \<Rightarrow> Err ErrInvalidRequest
      | Some e \<Rightarrow>
        if e < 2 then Err ErrInvalidRequest
        else let domain = normalizeDomain lib (seg line 2 e) in
          if domain = [] \<or> length domain > MaxUpstreamDomainBytes then Err ErrInvalidRequest
          else Ok (domain, trimSpace (drop (e + 2) line)))"

definition validateDNSStamp :: "string \<Rightarrow> unit doh" where
  "validateDNSStamp token =
     (let raw = trimPrefix token ''sdns://'' in
      if raw = [] then Err ErrInvalidRequest
      else case (case rawURLDecode False (rev (dropWhile (\<lambda>c. c = CHR ''='') (rev raw))) of
            Some payload \<Rightarrow> Some payload | None \<Rightarrow> urlDecode raw) of
        None \<Rightarrow> Err ErrInvalidRequest
      | Some payload \<Rightarrow>
        if length payload < 1 then Err ErrInvalidRequest
        else rbind (idx payload 0) (\<lambda>b. if b \<le> 4 then Ok () else Err ErrInvalidRequest))"

text \<open>\<^verbatim>\<open>strconv.Atoi\<close> on the texts that can denote a port: an optional sign and digits.\<close>

definition atoi :: "string \<Rightarrow> int option" where
  "atoi s =
     (let (neg, ds) = (case s of [] \<Rightarrow> (False, s) | c # cs \<Rightarrow>
        if c = CHR ''-'' then (True, cs) else if c = CHR ''+'' then (False, cs) else (False, s)) in
      if ds = [] \<or> \<not> list_all (\<lambda>c. 48 \<le> (of_char c :: nat) \<and> of_char c \<le> (57 :: nat)) ds then None
      else let n = foldl (\<lambda>acc c. acc * 10 + (of_char c - 48)) 0 ds; v = (if neg then - n else n) in
        if v < - (2 ^ 63) \<or> v \<ge> 2 ^ 63 then None else Some v)"

definition validateUpstreamToken :: "dohLib \<Rightarrow> string \<Rightarrow> unit doh" where
  "validateUpstreamToken lib token =
     (if token = [] \<or> length token > MaxUpstreamLineBytes then Err ErrInvalidRequest
      else if hasPrefix token ''sdns://'' then validateDNSStamp token
      else if containsSub token ''://'' then
        (case lib_urlParse lib token of
           None \<Rightarrow> Err ErrInvalidRequest
         | Some (scheme, host, opaque) \<Rightarrow>
           if host = [] \<or> opaque \<noteq> [] then Err ErrInvalidRequest
           else if scheme \<in> set [''udp'', ''tcp'', ''tls'', ''quic'', ''https'', ''http'', ''h3''] then Ok ()
           else Err ErrInvalidRequest)
      else if lib_parseIP lib token \<noteq> None then Ok ()
      else case splitHostPort token of
        None \<Rightarrow> Err ErrInvalidRequest
      | Some (host, port) \<Rightarrow>
        if host = [] \<or> lib_parseIP lib host = None \<and> \<not> isHostname host then Err ErrInvalidRequest
        else (case atoi port of None \<Rightarrow> Err ErrInvalidRequest
          | Some number \<Rightarrow> if number < 1 \<or> number > 65535 then Err ErrInvalidRequest else Ok ()))"

text \<open>
  The loops of \<^verbatim>\<open>parseUpstreamText\<close> over the tokens of a line (with the domain, the number
  of upstreams the line added and all upstreams so far) and over the lines.
\<close>

fun upstreamTokens :: "dohLib \<Rightarrow> string list \<Rightarrow> string \<Rightarrow> nat \<Rightarrow> upstream list \<Rightarrow> (nat \<times> upstream list) doh" where
  "upstreamTokens lib [] domain added upstreams = Ok (added, upstreams)"
| "upstreamTokens lib (token # tokens) domain added upstreams =
     rbind (splitDomainPrefix lib token) (\<lambda>(nextDomain, rest).
       let domain' = (if hasPrefix token ''[/'' then nextDomain else domain); remainder = trimSpace rest in
       if remainder = [] then upstreamTokens lib tokens domain' added upstreams
       else rbind (validateUpstreamToken lib remainder) (\<lambda>_.
         let upstreams' = upstreams @ [\<lparr> up_id = ''u'' @ itoa (length upstreams + 1), up_endpoint = remainder,
               up_domain = domain', up_priority = 0, up_enabled = True \<rparr>] in
         if length upstreams' > MaxUpstreams then Err ErrInvalidRequest
         else upstreamTokens lib tokens domain' (added + 1) upstreams'))"

fun upstreamLines :: "dohLib \<Rightarrow> string list \<Rightarrow> upstream list \<Rightarrow> upstream list doh" where
  "upstreamLines lib [] upstreams = Ok upstreams"
| "upstreamLines lib (line # lines) upstreams =
     (let line' = trimSuffix line [CHR 0x0d] in
      if length line' > MaxUpstreamLineBytes then Err ErrInvalidRequest
      else let trimmed = trimSpace line' in
        if trimmed = [] \<or> hasPrefix trimmed ''#'' then upstreamLines lib lines upstreams
        else let tokens = splitUpstreamFields trimmed in
          if tokens = [] then Err ErrInvalidRequest
          else rbind (upstreamTokens lib tokens [] 0 upstreams) (\<lambda>(added, upstreams').
            if added = 0 then Err ErrInvalidRequest else upstreamLines lib lines upstreams'))"

text \<open>\<^verbatim>\<open>strings.ReplaceAll(text, "\r\n", "\n")\<close>.\<close>

fun dropCRLF :: "string \<Rightarrow> string" where
  "dropCRLF (a # b # s) = (if a = CHR 0x0d \<and> b = CHR 0x0a then b # dropCRLF s else a # dropCRLF (b # s))"
| "dropCRLF s = s"

definition parseUpstreamText :: "dohLib \<Rightarrow> string \<Rightarrow> upstream list doh" where
  "parseUpstreamText lib text0 =
     (let txt = trimPrefix text0 (map char_of [0xef, 0xbb, 0xbf :: nat]) in
      if trimSpace txt = [] then Ok []
      else let lines = splitByte CHR 0x0a (dropCRLF txt) in
        if length lines > MaxUpstreamLines then Err ErrInvalidRequest
        else upstreamLines lib lines [])"

subsection \<open>Configuration\<close>

definition emptyConfiguration :: configuration where
  "emptyConfiguration = \<lparr> cf_requestTimeoutMS = 0, cf_upstreamTimeoutMS = 0, cf_maxConcurrency = 0,
     cf_cacheEntries = 0, cf_cacheBytes = 0, cf_minTTL = 0, cf_maxTTL = 0, cf_upstreams = [] \<rparr>"

definition ConfigurationFromPlugin :: "dohLib \<Rightarrow> string \<Rightarrow> configuration" where
  "ConfigurationFromPlugin lib upstreams =
     (case parseUpstreamText lib upstreams of
        Ok us \<Rightarrow> emptyConfiguration\<lparr> cf_upstreams := us \<rparr>
      | _ \<Rightarrow> emptyConfiguration)"

definition applyConfigurationDefaults :: "configuration \<Rightarrow> configuration" where
  "applyConfigurationDefaults c =
     (let c = (if cf_requestTimeoutMS c = 0 then c\<lparr> cf_requestTimeoutMS := 2000 \<rparr> else c);
          c = (if cf_upstreamTimeoutMS c = 0 then c\<lparr> cf_upstreamTimeoutMS := 1000 \<rparr> else c);
          c = (if cf_maxConcurrency c = 0 then c\<lparr> cf_maxConcurrency := 8 \<rparr> else c);
          c = (if cf_cacheEntries c = 0 then c\<lparr> cf_cacheEntries := 256 \<rparr> else c);
          c = (if cf_cacheBytes c = 0 then c\<lparr> cf_cacheBytes := 2 ^ 20 \<rparr> else c);
          c = (if cf_minTTL c = 0 \<and> cf_maxTTL c = 0 then c\<lparr> cf_minTTL := 1, cf_maxTTL := 3600 \<rparr> else c);
          c = (if cf_upstreams c = [] then
            c\<lparr> cf_upstreams := [\<lparr> up_id = ''default'', up_endpoint = ''https://dns.google/dns-query'', up_domain = [],
              up_priority = 0, up_enabled = True \<rparr>] \<rparr> else c)
      in c)"

text \<open>\<^verbatim>\<open>opaqueRefPattern\<close>.\<close>

definition opaqueRef :: "string \<Rightarrow> bool" where
  "opaqueRef s =
     (let alnum = (\<lambda>c. (97 \<le> (of_char c :: nat) \<and> of_char c \<le> (122 :: nat)) \<or> (48 \<le> (of_char c :: nat) \<and> of_char c \<le> (57 :: nat))) in
      case s of [] \<Rightarrow> False
      | c # cs \<Rightarrow> alnum c \<and> length cs \<le> 127 \<and> list_all (\<lambda>d. alnum d \<or> d \<in> set ''._:/-'') cs)"

fun validateUpstreams :: "upstream list \<Rightarrow> string list \<Rightarrow> unit doh" where
  "validateUpstreams [] seen = Ok ()"
| "validateUpstreams (u # us) seen =
     (if \<not> opaqueRef (up_id u) \<or> length (up_endpoint u) = 0 \<or> length (up_endpoint u) > MaxUpstreamLineBytes
         \<or> length (up_domain u) > MaxUpstreamDomainBytes \<or> up_priority u < -1000 \<or> up_priority u > 1000
      then Err ErrInvalidRequest
      else if up_id u \<in> set seen then Err ErrInvalidRequest
      else validateUpstreams us (up_id u # seen))"

definition validateConfiguration :: "configuration \<Rightarrow> unit doh" where
  "validateConfiguration c =
     (if cf_requestTimeoutMS c < 1 \<or> cf_requestTimeoutMS c > 10000 \<or> cf_upstreamTimeoutMS c < 1
         \<or> cf_upstreamTimeoutMS c > cf_requestTimeoutMS c \<or> cf_maxConcurrency c < 1 \<or> cf_maxConcurrency c > 256
         \<or> cf_cacheEntries c < 1 \<or> cf_cacheEntries c > 4096 \<or> cf_cacheBytes c < int MaxDNSResponseBytes
         \<or> cf_cacheBytes c > 64 * 2 ^ 20 \<or> cf_minTTL c > cf_maxTTL c \<or> cf_maxTTL c > 86400
         \<or> length (cf_upstreams c) > MaxUpstreams
      then Err ErrInvalidRequest
      else validateUpstreams (cf_upstreams c) [])"

subsection \<open>Selection\<close>

text \<open>The first loop of \<^verbatim>\<open>upstreamsForName\<close> with its variables \<open>best\<close> and \<open>matched\<close>.\<close>

fun matchUpstreams :: "string \<Rightarrow> upstream list \<Rightarrow> string \<Rightarrow> upstream list \<Rightarrow> upstream list" where
  "matchUpstreams qname [] best matched = matched"
| "matchUpstreams qname (u # us) best matched =
     (if \<not> up_enabled u \<or> up_domain u = [] \<or> \<not> domainMatches qname (up_domain u)
      then matchUpstreams qname us best matched
      else let (best', matched') = (if length (up_domain u) > length best then (up_domain u, []) else (best, matched)) in
        matchUpstreams qname us best' (if up_domain u = best' then matched' @ [u] else matched'))"

definition upstreamsForName :: "dohLib \<Rightarrow> configuration \<Rightarrow> string \<Rightarrow> upstream list" where
  "upstreamsForName lib c qname0 =
     (let qname = normalizeDomain lib qname0; matched = matchUpstreams qname (cf_upstreams c) [] [] in
      if length matched > 0 then matched
      else filter (\<lambda>u. up_enabled u \<and> up_domain u = []) (cf_upstreams c))"

section \<open>Selection picks the longest suffix\<close>

lemma domainMatches_suffix: "domainMatches qname d \<Longrightarrow> hasSuffix qname d"
  by (auto simp: domainMatches_def hasSuffix_iff split: if_splits)

lemma suffix_same_length: "hasSuffix s a \<Longrightarrow> hasSuffix s b \<Longrightarrow> length a = length b \<Longrightarrow> a = b"
  by (auto simp: hasSuffix_iff)

definition candidate :: "string \<Rightarrow> upstream \<Rightarrow> bool" where
  "candidate qname u \<longleftrightarrow> up_enabled u \<and> up_domain u \<noteq> [] \<and> domainMatches qname (up_domain u)"

text \<open>
  The loop keeps \<open>matched\<close> equal to the candidates seen so far whose domain is as long as
  the longest one.
\<close>

lemma matchUpstreams_spec:
  assumes "\<forall>u \<in> set seen. candidate qname u \<longrightarrow> length (up_domain u) \<le> length best"
    and "best \<noteq> [] \<longrightarrow> hasSuffix qname best"
    and "matched = filter (\<lambda>u. candidate qname u \<and> length (up_domain u) = length best) seen"
  shows "\<exists>m. (\<forall>u \<in> set (seen @ us). candidate qname u \<longrightarrow> length (up_domain u) \<le> m)
    \<and> matchUpstreams qname us best matched = filter (\<lambda>u. candidate qname u \<and> length (up_domain u) = m) (seen @ us)
    \<and> (m = length best \<or> (\<exists>u \<in> set us. candidate qname u \<and> length (up_domain u) = m))"
  using assms
proof (induction us arbitrary: seen best matched)
  case Nil
  then show ?case by (intro exI [of _ "length best"]) auto
next
  case (Cons u us)
  show ?case
  proof (cases "candidate qname u")
    case False
    then have skip: "matchUpstreams qname (u # us) best matched = matchUpstreams qname us best matched"
      by (auto simp: candidate_def)
    from Cons.IH [of "seen @ [u]" best matched] Cons.prems False show ?thesis
      unfolding skip by auto
  next
    case True
    then have suf: "hasSuffix qname (up_domain u)" by (simp add: candidate_def domainMatches_suffix)
    show ?thesis
    proof (cases "length (up_domain u) > length best")
      case longer: True
      have step: "matchUpstreams qname (u # us) best matched = matchUpstreams qname us (up_domain u) [u]"
        using True longer by (simp add: candidate_def)
      have flt: "[u] = filter (\<lambda>v. candidate qname v \<and> length (up_domain v) = length (up_domain u)) (seen @ [u])"
        using Cons.prems(1) longer True by (auto simp: filter_empty_conv)
      have "\<forall>v \<in> set (seen @ [u]). candidate qname v \<longrightarrow> length (up_domain v) \<le> length (up_domain u)"
        using Cons.prems(1) longer by auto
      from Cons.IH [OF this _ flt] suf True show ?thesis
        unfolding step by auto
    next
      case shorter: False
      have "best \<noteq> []" using True shorter by (auto simp: candidate_def)
      then have eq: "up_domain u = best \<longleftrightarrow> length (up_domain u) = length best"
        using suf Cons.prems(2) suffix_same_length by auto
      have step: "matchUpstreams qname (u # us) best matched
          = matchUpstreams qname us best (if up_domain u = best then matched @ [u] else matched)"
        using True shorter by (simp add: candidate_def)
      have flt: "(if up_domain u = best then matched @ [u] else matched)
          = filter (\<lambda>v. candidate qname v \<and> length (up_domain v) = length best) (seen @ [u])"
        using Cons.prems(3) True eq by simp
      have "\<forall>v \<in> set (seen @ [u]). candidate qname v \<longrightarrow> length (up_domain v) \<le> length best"
        using Cons.prems(1) shorter by auto
      from Cons.IH [OF this Cons.prems(2) flt] show ?thesis
        unfolding step by auto
    qed
  qed
qed

text \<open>The upstreams a name should go to, as a specification.\<close>

definition bestUpstreams :: "string \<Rightarrow> upstream list \<Rightarrow> upstream list" where
  "bestUpstreams qname us =
     (if \<exists>u \<in> set us. candidate qname u
      then filter (\<lambda>u. candidate qname u
        \<and> (\<forall>v \<in> set us. candidate qname v \<longrightarrow> length (up_domain v) \<le> length (up_domain u))) us
      else filter (\<lambda>u. up_enabled u \<and> up_domain u = []) us)"

lemma matchUpstreams_best:
  assumes "candidate qname w" and "w \<in> set us"
  shows "matchUpstreams qname us [] [] = filter (\<lambda>u. candidate qname u
    \<and> (\<forall>v \<in> set us. candidate qname v \<longrightarrow> length (up_domain v) \<le> length (up_domain u))) us"
proof -
  obtain m where m: "\<forall>u \<in> set us. candidate qname u \<longrightarrow> length (up_domain u) \<le> m"
    "matchUpstreams qname us [] [] = filter (\<lambda>u. candidate qname u \<and> length (up_domain u) = m) us"
    "m = 0 \<or> (\<exists>u \<in> set us. candidate qname u \<and> length (up_domain u) = m)"
    using matchUpstreams_spec [of "[]" qname "[]" "[]" us] by auto
  have "\<exists>u \<in> set us. candidate qname u \<and> length (up_domain u) = m"
    using m assms by (auto simp: candidate_def)
  then have "length (up_domain u) = m \<longleftrightarrow> (\<forall>v \<in> set us. candidate qname v \<longrightarrow> length (up_domain v) \<le> length (up_domain u))"
    if "u \<in> set us" "candidate qname u" for u
    using m(1) that by force
  then show ?thesis unfolding m(2) by (intro filter_cong) auto
qed

lemma upstreamsForName_best:
  "upstreamsForName lib c qname = bestUpstreams (normalizeDomain lib qname) (cf_upstreams c)"
proof -
  let ?q = "normalizeDomain lib qname" and ?us = "cf_upstreams c"
  show ?thesis
  proof (cases "\<exists>u \<in> set ?us. candidate ?q u")
    case True
    then obtain w where w: "w \<in> set ?us" "candidate ?q w" by blast
    note best = matchUpstreams_best [OF w(2,1)]
    obtain x where "x \<in> set ?us" "candidate ?q x"
      "\<forall>v \<in> set ?us. candidate ?q v \<longrightarrow> length (up_domain v) \<le> length (up_domain x)"
      using w matchUpstreams_spec [of "[]" ?q "[]" "[]" ?us] by (auto simp: candidate_def)
    then have "matchUpstreams ?q ?us [] [] \<noteq> []"
      unfolding best by (auto simp: filter_empty_conv)
    then show ?thesis
      using True by (simp add: upstreamsForName_def bestUpstreams_def best)
  next
    case False
    have "matchUpstreams ?q ?us [] [] = []"
      using False matchUpstreams_spec [of "[]" ?q "[]" "[]" ?us] by (auto simp: filter_empty_conv)
    then show ?thesis using False by (simp add: upstreamsForName_def bestUpstreams_def)
  qed
qed

section \<open>Parsed upstreams are valid\<close>

lemma opaqueRef_numbered: "n < 100 \<Longrightarrow> opaqueRef (''u'' @ itoa n)"
  using itoa_digits [of n] itoa_short [of n] by (auto simp: opaqueRef_def list_all_iff)

definition parsedUpstream :: "nat \<Rightarrow> upstream \<Rightarrow> bool" where
  "parsedUpstream i u \<longleftrightarrow>
     up_id u = ''u'' @ itoa (i + 1) \<and> up_endpoint u \<noteq> [] \<and> length (up_endpoint u) \<le> MaxUpstreamLineBytes
     \<and> length (up_domain u) \<le> MaxUpstreamDomainBytes \<and> up_priority u = 0 \<and> up_enabled u"

definition parsedUpstreams :: "upstream list \<Rightarrow> bool" where
  "parsedUpstreams us \<longleftrightarrow> length us \<le> MaxUpstreams \<and> (\<forall>i < length us. parsedUpstream i (us ! i))"

lemma validateUpstreamToken_Ok:
  "validateUpstreamToken lib token = Ok () \<Longrightarrow> token \<noteq> [] \<and> length token \<le> MaxUpstreamLineBytes"
  by (auto simp: validateUpstreamToken_def split: if_splits)

lemma splitDomainPrefix_Ok:
  "splitDomainPrefix lib line = Ok (domain, rest) \<Longrightarrow> length domain \<le> MaxUpstreamDomainBytes"
  by (auto simp: splitDomainPrefix_def Let_def split: if_splits option.splits)

lemma upstreamTokens_parsed:
  assumes "upstreamTokens lib tokens domain added us = Ok (added', us')"
    and "parsedUpstreams us" and "length domain \<le> MaxUpstreamDomainBytes"
  shows "parsedUpstreams us'"
  using assms
proof (induction tokens arbitrary: domain added us)
  case (Cons token tokens)
  from Cons.prems(1) obtain nextDomain rest where sp: "splitDomainPrefix lib token = Ok (nextDomain, rest)"
    by (auto split: prod.splits)
  let ?domain = "if hasPrefix token ''[/'' then nextDomain else domain"
  have dom: "length ?domain \<le> MaxUpstreamDomainBytes"
    using splitDomainPrefix_Ok [OF sp] Cons.prems(3) by simp
  show ?case
  proof (cases "trimSpace rest = []")
    case True
    with Cons.prems sp dom Cons.IH [of ?domain added us] show ?thesis by simp
  next
    case False
    let ?us = "us @ [\<lparr> up_id = ''u'' @ itoa (length us + 1), up_endpoint = trimSpace rest,
      up_domain = ?domain, up_priority = 0, up_enabled = True \<rparr>]"
    have tok: "validateUpstreamToken lib (trimSpace rest) = Ok ()" and len: "length ?us \<le> MaxUpstreams"
      and rec: "upstreamTokens lib tokens ?domain (added + 1) ?us = Ok (added', us')"
      using Cons.prems(1) sp False by (auto simp: Let_def split: if_splits)
    have "parsedUpstreams ?us"
      using Cons.prems(2) len dom validateUpstreamToken_Ok [OF tok]
      by (auto simp: parsedUpstreams_def parsedUpstream_def nth_append less_Suc_eq)
    with Cons.IH [OF rec] dom show ?thesis by blast
  qed
qed simp

lemma upstreamLines_parsed:
  assumes "upstreamLines lib lines us = Ok us'" and "parsedUpstreams us"
  shows "parsedUpstreams us'"
  using assms
proof (induction lines arbitrary: us)
  case (Cons line lines)
  then show ?case
    by (auto simp: Let_def split: if_splits prod.splits dest: upstreamTokens_parsed)
qed simp

lemma parseUpstreamText_parsed: "parseUpstreamText lib txt = Ok us \<Longrightarrow> parsedUpstreams us"
  by (auto simp: parseUpstreamText_def Let_def parsedUpstreams_def [of "[]"] split: if_splits
    intro: upstreamLines_parsed)

lemma validateUpstreams_numbered:
  assumes "\<forall>i < length us. parsedUpstream (n + i) (us ! i)" and "n + length us < 100"
    and "\<forall>s \<in> set seen. \<exists>j < n. s = ''u'' @ itoa (j + 1)"
  shows "validateUpstreams us seen = Ok ()"
  using assms
proof (induction us arbitrary: n seen)
  case (Cons u us)
  have u: "parsedUpstream n u" using Cons.prems(1) by force
  have "up_id u \<notin> set seen"
    using u Cons.prems(3) by (auto simp: parsedUpstream_def itoa_inj)
  moreover have "validateUpstreams us (up_id u # seen) = Ok ()"
  proof (rule Cons.IH [of "Suc n"])
    show "\<forall>i < length us. parsedUpstream (Suc n + i) (us ! i)"
      using Cons.prems(1) by force
    show "\<forall>s \<in> set (up_id u # seen). \<exists>j < Suc n. s = ''u'' @ itoa (j + 1)"
      using u Cons.prems(3) by (auto simp: parsedUpstream_def intro: less_SucI)
  qed (use Cons.prems(2) in simp)
  ultimately show ?case
    using u opaqueRef_numbered [of "n + 1"] Cons.prems(2) by (auto simp: parsedUpstream_def)
qed simp

lemma defaults_valid:
  assumes "parsedUpstreams us"
  shows "validateConfiguration (applyConfigurationDefaults (emptyConfiguration\<lparr> cf_upstreams := us \<rparr>)) = Ok ()"
proof (cases "us = []")
  case True
  have "validateUpstreams [\<lparr> up_id = ''default'', up_endpoint = ''https://dns.google/dns-query'', up_domain = [],
      up_priority = 0, up_enabled = True \<rparr>] [] = Ok ()"
    by code_simp
  with True show ?thesis
    by (simp add: applyConfigurationDefaults_def emptyConfiguration_def Let_def validateConfiguration_def
      MaxDNSResponseBytes_def MaxUpstreams_def del: validateUpstreams.simps)
next
  case False
  have "validateUpstreams us [] = Ok ()"
    using assms by (intro validateUpstreams_numbered [of us 0]) (auto simp: parsedUpstreams_def MaxUpstreams_def)
  with False assms show ?thesis
    by (simp add: applyConfigurationDefaults_def emptyConfiguration_def Let_def validateConfiguration_def
      MaxDNSResponseBytes_def parsedUpstreams_def)
qed

lemma upstreamTokens_no_panic [no_panic]: "upstreamTokens lib tokens domain added us \<noteq> Panic"
proof (induction tokens arbitrary: domain added us)
  case (Cons token tokens)
  have "splitDomainPrefix lib token \<noteq> Panic" "validateUpstreamToken lib r \<noteq> Panic" for r
    by (auto simp: splitDomainPrefix_def validateUpstreamToken_def validateDNSStamp_def Let_def
      split: option.split)
  with Cons show ?case by (auto simp: rbind_eq_Panic Let_def split: if_splits)
qed simp

section \<open>Properties\<close>

text \<open>
  C11. A name goes to the upstreams of the most specific matching domain: the selection
  returns, in configuration order, exactly the enabled upstreams whose domain is a
  longest one that matches the name, and the enabled upstreams without a domain if none matches.
\<close>

theorem upstreams_longest_match:
  "upstreamsForName lib c qname = bestUpstreams (normalizeDomain lib qname) (cf_upstreams c)"
  by (rule upstreamsForName_best)

text \<open>
  C12. Every upstream text gives a configuration the service accepts: a text that parses
  yields numbered, bounded, distinct upstreams, one that does not falls back to the default
  upstream, and with the defaults filled in both pass validation.
\<close>

theorem plugin_configuration_valid:
  "validateConfiguration (applyConfigurationDefaults (ConfigurationFromPlugin lib txt)) = Ok ()"
proof (cases "parseUpstreamText lib txt")
  case (Ok us)
  then show ?thesis
    using defaults_valid [OF parseUpstreamText_parsed [OF Ok]] by (simp add: ConfigurationFromPlugin_def)
qed (use defaults_valid [of "[]"] in \<open>simp_all add: ConfigurationFromPlugin_def emptyConfiguration_def parsedUpstreams_def\<close>)

end
