(* ===== verification/Doh_Service.thy ===== *)
theory Doh_Service
  imports Doh_Upstreams Doh_Response Doh_Cache
begin

text \<open>
  Request handling of \<^verbatim>\<open>src/plugins/doh/service.go\<close>. One call of \<^verbatim>\<open>serve\<close> is a function
  of the service state and of an environment that says what the request observes of the world at
  each point of its run: whether its context has ended, whether the service has been
  revoked meanwhile, what the clock, the upstreams and the bounded host calls return. The
  cache operations are parameters with the signatures of \<^verbatim>\<open>Cache\<close>.
\<close>

section \<open>State and environment\<close>

text \<open>
  \<open>sv_semaphore\<close> counts the used slots of the semaphore channel; \<open>sv_pending\<close> counts the
  host calls of the running request that its slot still waits for.
\<close>

record upstreamStatus =
  us_id :: string
  us_result :: string
  us_failures :: u64

record 'c service =
  sv_configuration :: configuration
  sv_live :: bool
  sv_semaphore :: int
  sv_pending :: nat
  sv_statuses :: "upstreamStatus list"
  sv_clockSet :: bool
  sv_lastNow :: u64
  sv_cache :: 'c

text \<open>The points of a run where the request looks at its context or at \<^verbatim>\<open>service.live\<close>.\<close>

datatype checkpoint =
    AtEntry | AtBegin | AtBeginContext | AtTimeout | BeforeClock | AfterClock | AfterGet | AfterClamp
  | AfterTimeout nat | AtStatus nat | AfterAnswer nat | AfterStoreClock nat | AfterPut nat

text \<open>
  A bounded host call returns the result of the operation, run under the given context error;
  or the caller gives up with an error, and the operation may still take effect afterwards.
\<close>

datatype hostCall = Returns "doh_error option" | Abandoned doh_error bool

datatype clockCall = ClockReturns "doh_error + u64" | ClockAbandoned doh_error

datatype resolveOutcome = TimedOut | Failed | Answered wire

record serveEnv =
  ev_ctx :: "checkpoint \<Rightarrow> doh_error option"
  ev_live :: "checkpoint \<Rightarrow> bool"
  ev_clock :: "nat \<Rightarrow> clockCall"
  ev_get :: hostCall
  ev_put :: hostCall
  ev_resolve :: "nat \<Rightarrow> upstream \<Rightarrow> wire \<Rightarrow> resolveOutcome"

record httpResponse =
  rp_status :: string
  rp_contentType :: string
  rp_body :: wire
  rp_cacheHit :: bool

definition second :: u64 where "second = 1000000000"

section \<open>Helpers\<close>

definition safeRuntimeError :: "doh_error \<Rightarrow> doh_error \<Rightarrow> doh_error" where
  "safeRuntimeError err fallback =
     (if err = ErrCanceled then ErrCanceled else if err = ErrDeadlineExceeded then ErrDeadlineExceeded
      else if err = ErrRevoked then ErrRevoked else fallback)"

definition ensureLive :: "serveEnv \<Rightarrow> checkpoint \<Rightarrow> unit doh" where
  "ensureLive ev p = (case ev_ctx ev p of Some e \<Rightarrow> Err e
     | None \<Rightarrow> if \<not> ev_live ev p then Err ErrRevoked else Ok ())"

definition serviceNow :: "serveEnv \<Rightarrow> nat \<Rightarrow> 'c service \<Rightarrow> 'c service \<times> u64 doh" where
  "serviceNow ev n sv = (case ev_clock ev n of
     ClockAbandoned e \<Rightarrow>
       (sv\<lparr> sv_pending := sv_pending sv + 1 \<rparr>, Err (safeRuntimeError e ErrClockUnavailable))
   | ClockReturns (Inl e) \<Rightarrow> (sv, Err (safeRuntimeError e ErrClockUnavailable))
   | ClockReturns (Inr now) \<Rightarrow>
       if sv_clockSet sv \<and> now < sv_lastNow sv then (sv, Err ErrClockUnavailable)
       else (sv\<lparr> sv_clockSet := True, sv_lastNow := now \<rparr>, Ok now))"

fun setStatus :: "string \<Rightarrow> string \<Rightarrow> bool \<Rightarrow> upstreamStatus list \<Rightarrow> upstreamStatus list" where
  "setStatus i r failed [] = []"
| "setStatus i r failed (s # ss) =
     (if us_id s = i then
        s\<lparr> us_result := r, us_failures := (if failed then us_failures s + 1 else us_failures s) \<rparr> # ss
      else s # setStatus i r failed ss)"

definition updateStatus :: "bool \<Rightarrow> string \<Rightarrow> string \<Rightarrow> bool \<Rightarrow> 'c service \<Rightarrow> 'c service" where
  "updateStatus live i r failed sv =
     (if \<not> live then sv else sv\<lparr> sv_statuses := setStatus i r failed (sv_statuses sv) \<rparr>)"

text \<open>\<^verbatim>\<open>boundedHostCall\<close> around a cache operation.\<close>

definition boundedCacheCall ::
  "hostCall \<Rightarrow> (doh_error option \<Rightarrow> 'c \<Rightarrow> 'c \<times> 'r doh) \<Rightarrow> 'c service \<Rightarrow> 'c service \<times> 'r doh" where
  "boundedCacheCall call op sv = (case call of
     Returns ctxErr \<Rightarrow> (case op ctxErr (sv_cache sv) of (c, r) \<Rightarrow> (sv\<lparr> sv_cache := c \<rparr>, r))
   | Abandoned e effect \<Rightarrow>
       (sv\<lparr> sv_cache := (if effect then fst (op None (sv_cache sv)) else sv_cache sv),
           sv_pending := sv_pending sv + 1 \<rparr>, Err e))"

definition withSafeError :: "doh_error \<Rightarrow> 'r doh \<Rightarrow> 'r doh" where
  "withSafeError fallback r = (case r of Err e \<Rightarrow> Err (safeRuntimeError e fallback) | _ \<Rightarrow> r)"

section \<open>Serving\<close>

text \<open>The branch of \<^verbatim>\<open>serve\<close> for a cache hit.\<close>

definition serveHit :: "configuration \<Rightarrow> serveEnv \<Rightarrow> parsedQuery \<Rightarrow> u64 \<Rightarrow> cacheEntry \<Rightarrow> httpResponse doh" where
  "serveHit cfg ev query now entry =
     rbind (responseWithID (ce_response entry) (pq_id query)) (\<lambda>candidate.
       case validateDNSResponse query candidate of
         Panic \<Rightarrow> Panic
       | Err e \<Rightarrow> Err ErrCacheUnavailable
       | Ok (metadata, _) \<Rightarrow>
         if \<not> rm_cacheable metadata \<or> rm_ttl metadata < cf_minTTL cfg then Err ErrCacheUnavailable
         else
           let effectiveTTL = (if rm_ttl metadata > cf_maxTTL cfg then cf_maxTTL cfg else rm_ttl metadata);
               maxLifetime = ucast effectiveTTL * second;
               maxExpiry = ce_storedAt entry + maxLifetime in
           if maxLifetime = 0 \<or> maxExpiry < ce_storedAt entry \<or> ce_storedAt entry > now
              \<or> ce_expiresAt entry \<le> now \<or> ce_expiresAt entry \<le> ce_storedAt entry \<or> ce_expiresAt entry > maxExpiry
           then Err ErrCacheUnavailable
           else (case clampDNSResponseTTLs candidate (ucast ((ce_expiresAt entry - now) div second)) of
               Panic \<Rightarrow> Panic
             | Err e \<Rightarrow> Err ErrCacheUnavailable
             | Ok clamped \<Rightarrow>
               rbind (ensureLive ev AfterClamp) (\<lambda>_.
                 Ok \<lparr> rp_status = ''200'', rp_contentType = dnsMediaType, rp_body = clamped, rp_cacheHit = True \<rparr>)))"

text \<open>Storing a cacheable answer of attempt \<open>n\<close>.\<close>

definition serveStore ::
  "(doh_error option \<Rightarrow> string \<Rightarrow> cacheEntry \<Rightarrow> 'c \<Rightarrow> 'c \<times> unit doh) \<Rightarrow> serveEnv \<Rightarrow> nat \<Rightarrow> string \<Rightarrow>
   responseMetadata \<Rightarrow> wire \<Rightarrow> 'c service \<Rightarrow> 'c service \<times> unit doh" where
  "serveStore put ev n cacheKey metadata normalized sv =
     (let cfg = sv_configuration sv in
      if rm_cacheable metadata \<and> rm_ttl metadata \<ge> cf_minTTL cfg \<and> cf_maxTTL cfg > 0 then
        let ttl = (if rm_ttl metadata > cf_maxTTL cfg then cf_maxTTL cfg else rm_ttl metadata) in
        (case serviceNow ev (Suc n) sv of
           (sv1, Ok cacheNow) \<Rightarrow>
             (case ensureLive ev (AfterStoreClock n) of
                Ok _ \<Rightarrow>
                  let expires = cacheNow + ucast ttl * second in
                  if expires < cacheNow then (sv1, Err ErrClockUnavailable)
                  else (case boundedCacheCall (ev_put ev)
                      (\<lambda>ctxErr. put ctxErr cacheKey \<lparr> ce_response = normalized, ce_storedAt = cacheNow, ce_expiresAt = expires \<rparr>) sv1 of
                    (sv2, r) \<Rightarrow> (sv2, rbind (withSafeError ErrCacheUnavailable r) (\<lambda>_. ensureLive ev (AfterPut n))))
              | r \<Rightarrow> (sv1, r))
         | (sv1, _) \<Rightarrow> (sv1, Err ErrClockUnavailable))
      else (sv, Ok ()))"

text \<open>The loop over the upstreams; \<open>n\<close> numbers the attempts.\<close>

fun serveUpstreams ::
  "(doh_error option \<Rightarrow> string \<Rightarrow> cacheEntry \<Rightarrow> 'c \<Rightarrow> 'c \<times> unit doh) \<Rightarrow> serveEnv \<Rightarrow> parsedQuery \<Rightarrow> wire \<Rightarrow>
   string \<Rightarrow> nat \<Rightarrow> upstream list \<Rightarrow> 'c service \<Rightarrow> 'c service \<times> httpResponse doh" where
  "serveUpstreams put ev query outbound cacheKey n [] sv = (sv, Err ErrNoHealthyUpstream)"
| "serveUpstreams put ev query outbound cacheKey n (u # us) sv =
     (if \<not> up_enabled u then serveUpstreams put ev query outbound cacheKey (Suc n) us sv
      else case ev_resolve ev n u outbound of
        TimedOut \<Rightarrow>
          let sv1 = updateStatus (ev_live ev (AtStatus n)) (up_id u) ''timeout'' True
                (sv\<lparr> sv_pending := sv_pending sv + 1 \<rparr>) in
          (case ev_ctx ev (AfterTimeout n) of
             Some e \<Rightarrow> (sv1, Err e)
           | None \<Rightarrow> serveUpstreams put ev query outbound cacheKey (Suc n) us sv1)
      | Failed \<Rightarrow>
          serveUpstreams put ev query outbound cacheKey (Suc n) us
            (updateStatus (ev_live ev (AtStatus n)) (up_id u) ''failed'' True sv)
      | Answered wire \<Rightarrow>
          (case validateDNSResponse query wire of
             Panic \<Rightarrow> (sv, Panic)
           | Err _ \<Rightarrow>
               serveUpstreams put ev query outbound cacheKey (Suc n) us
                 (updateStatus (ev_live ev (AtStatus n)) (up_id u) ''invalid-response'' True sv)
           | Ok (metadata, normalized) \<Rightarrow>
               (case ensureLive ev (AfterAnswer n) of
                  Ok _ \<Rightarrow>
                    let sv1 = updateStatus (ev_live ev (AtStatus n)) (up_id u) ''healthy'' False sv in
                    (case serveStore put ev n cacheKey metadata normalized sv1 of
                       (sv2, Ok _) \<Rightarrow>
                         (sv2, rbind (responseWithID normalized (pq_id query)) (\<lambda>body.
                           Ok \<lparr> rp_status = ''200'', rp_contentType = dnsMediaType, rp_body = body, rp_cacheHit = False \<rparr>))
                     | (sv2, Err e) \<Rightarrow> (sv2, Err e)
                     | (sv2, Panic) \<Rightarrow> (sv2, Panic))
                | Err e \<Rightarrow> (sv, Err e)
                | Panic \<Rightarrow> (sv, Panic))))"

text \<open>The part of \<^verbatim>\<open>serve\<close> that holds a slot of the semaphore.\<close>

definition serveSlot ::
  "dohLib \<Rightarrow> (doh_error option \<Rightarrow> string \<Rightarrow> u64 \<Rightarrow> 'c \<Rightarrow> 'c \<times> cacheEntry option doh) \<Rightarrow>
   (doh_error option \<Rightarrow> string \<Rightarrow> cacheEntry \<Rightarrow> 'c \<Rightarrow> 'c \<times> unit doh) \<Rightarrow>
   serveEnv \<Rightarrow> parsedQuery \<Rightarrow> wire \<Rightarrow> string \<Rightarrow> 'c service \<Rightarrow> 'c service \<times> httpResponse doh" where
  "serveSlot lib get put ev query outbound ecsSource sv =
     (case ev_ctx ev AtTimeout of Some e \<Rightarrow> (sv, Err e) | None \<Rightarrow>
      (case ensureLive ev BeforeClock of Err e \<Rightarrow> (sv, Err e) | Panic \<Rightarrow> (sv, Panic) | Ok _ \<Rightarrow>
       (case serviceNow ev 0 sv of (sv1, Err e) \<Rightarrow> (sv1, Err e) | (sv1, Panic) \<Rightarrow> (sv1, Panic) | (sv1, Ok now) \<Rightarrow>
        (case ensureLive ev AfterClock of Err e \<Rightarrow> (sv1, Err e) | Panic \<Rightarrow> (sv1, Panic) | Ok _ \<Rightarrow>
         (let cacheKey = pq_key query @ '':'' @ ecsSource in
          case boundedCacheCall (ev_get ev) (\<lambda>ctxErr. get ctxErr cacheKey now) sv1 of (sv2, r) \<Rightarrow>
          (case withSafeError ErrCacheUnavailable r of Err e \<Rightarrow> (sv2, Err e) | Panic \<Rightarrow> (sv2, Panic) | Ok cached \<Rightarrow>
           (case ensureLive ev AfterGet of Err e \<Rightarrow> (sv2, Err e) | Panic \<Rightarrow> (sv2, Panic) | Ok _ \<Rightarrow>
            (case cached of
               Some entry \<Rightarrow> (sv2, serveHit (sv_configuration sv2) ev query now entry)
             | None \<Rightarrow> serveUpstreams put ev query outbound cacheKey 0
                 (upstreamsForName lib (sv_configuration sv2) (questionName (pq_question query))) sv2))))))))"

text \<open>
  \<^verbatim>\<open>serve\<close>. \<^verbatim>\<open>beginRequest\<close> refuses a revoked service. The deferred
  \<^verbatim>\<open>slot.returned\<close> gives the semaphore slot back unless an abandoned host call still holds
  it; its release then happens when that call ends (\<open>Doh_Lifecycle\<close>).
\<close>

definition serve ::
  "dohLib \<Rightarrow> (doh_error option \<Rightarrow> string \<Rightarrow> u64 \<Rightarrow> 'c \<Rightarrow> 'c \<times> cacheEntry option doh) \<Rightarrow>
   (doh_error option \<Rightarrow> string \<Rightarrow> cacheEntry \<Rightarrow> 'c \<Rightarrow> 'c \<times> unit doh) \<Rightarrow>
   serveEnv \<Rightarrow> httpRequest \<Rightarrow> 'c service \<Rightarrow> 'c service \<times> httpResponse doh" where
  "serve lib get put ev request sv =
     (case ev_ctx ev AtEntry of Some e \<Rightarrow> (sv, Err e) | None \<Rightarrow>
      if \<not> sv_live sv \<or> \<not> ev_live ev AtBegin then (sv, Err ErrRevoked)
      else (case ev_ctx ev AtBeginContext of Some e \<Rightarrow> (sv, Err e) | None \<Rightarrow>
       (case parseHTTPRequest lib request of Err e \<Rightarrow> (sv, Err e) | Panic \<Rightarrow> (sv, Panic) | Ok query \<Rightarrow>
        (case applyOutboundECS (lib_ipString lib) query (parseForwardedFor lib (rq_forwarded request)) of
           Err e \<Rightarrow> (sv, Err e) | Panic \<Rightarrow> (sv, Panic)
         | Ok (outbound, ecsSource) \<Rightarrow>
           if sv_semaphore sv \<ge> cf_maxConcurrency (sv_configuration sv) then (sv, Err ErrConcurrencyExhausted)
           else (case serveSlot lib get put ev query outbound ecsSource
                   (sv\<lparr> sv_semaphore := sv_semaphore sv + 1, sv_pending := 0 \<rparr>) of
             (sv', r) \<Rightarrow>
               ((if sv_pending sv' = 0 then sv'\<lparr> sv_semaphore := sv_semaphore sv' - 1 \<rparr> else sv'), r))))))"

text \<open>\<^verbatim>\<open>NewService\<close> with the in-process cache that \<^verbatim>\<open>withDefaults\<close> supplies.\<close>

definition NewService :: "configuration \<Rightarrow> memoryCache service doh" where
  "NewService cfg0 =
     (let cfg = applyConfigurationDefaults cfg0 in
      rbind (validateConfiguration cfg) (\<lambda>_.
        Ok \<lparr> sv_configuration = cfg, sv_live = True, sv_semaphore = 0, sv_pending = 0,
          sv_statuses = map (\<lambda>u. \<lparr> us_id = up_id u, us_result = ''unknown'', us_failures = 0 \<rparr>) (cf_upstreams cfg),
          sv_clockSet = False, sv_lastNow = 0,
          sv_cache = NewMemoryCache (cf_cacheEntries cfg) (cf_cacheBytes cfg) \<rparr>))"

text \<open>A sequence of requests on the in-process cache.\<close>

fun serveAll :: "dohLib \<Rightarrow> (serveEnv \<times> httpRequest) list \<Rightarrow> memoryCache service \<Rightarrow> memoryCache service" where
  "serveAll lib [] sv = sv"
| "serveAll lib ((ev, rq) # rest) sv = serveAll lib rest (fst (serve lib cacheGet cachePut ev rq sv))"

section \<open>What a step of a request may change\<close>

text \<open>
  The parts of a request change the service only in its cache, statuses, clock and pending
  calls; the configuration, liveness and semaphore stay.
\<close>

definition sameFrame :: "'c service \<Rightarrow> 'c service \<Rightarrow> bool" where
  "sameFrame sv sv' \<longleftrightarrow> sv_configuration sv' = sv_configuration sv \<and> sv_live sv' = sv_live sv
     \<and> sv_semaphore sv' = sv_semaphore sv"

lemma sameFrame_refl [simp]: "sameFrame sv sv"
  by (simp add: sameFrame_def)

lemma sameFrame_trans: "sameFrame a b \<Longrightarrow> sameFrame b c \<Longrightarrow> sameFrame a c"
  by (simp add: sameFrame_def)

lemma updateStatus_frame [simp]:
  "sameFrame sv (updateStatus live i r failed sv)" "sv_cache (updateStatus live i r failed sv) = sv_cache sv"
  "sv_configuration (updateStatus live i r failed sv) = sv_configuration sv"
  "sv_lastNow (updateStatus live i r failed sv) = sv_lastNow sv"
  "sv_clockSet (updateStatus live i r failed sv) = sv_clockSet sv"
  by (simp_all add: updateStatus_def sameFrame_def)

lemma serviceNow_frame:
  assumes "serviceNow ev n sv = (sv', r)"
  shows "sameFrame sv sv'" and "sv_cache sv' = sv_cache sv" and "r \<noteq> Panic"
    and "r = Ok now \<Longrightarrow> sv_clockSet sv' \<and> sv_lastNow sv' = now \<and> (sv_clockSet sv \<longrightarrow> sv_lastNow sv \<le> now)"
  using assms by (auto simp: serviceNow_def sameFrame_def split: clockCall.splits sum.splits if_splits)

lemma boundedCacheCall_frame:
  assumes "boundedCacheCall call op sv = (sv', r)"
  shows "sameFrame sv sv'" and "sv_lastNow sv' = sv_lastNow sv" and "sv_clockSet sv' = sv_clockSet sv"
  using assms by (auto simp: boundedCacheCall_def sameFrame_def split: hostCall.splits prod.splits)

lemma ensureLive_no_panic [no_panic]: "ensureLive ev p \<noteq> Panic"
  by (simp add: ensureLive_def split: option.split)

lemma serveStore_frame:
  assumes "serveStore put ev n k meta nrm sv = (sv', r)"
  shows "sameFrame sv sv'"
  using assms
  by (auto simp: serveStore_def Let_def split: if_splits prod.splits res.splits
    dest!: serviceNow_frame(1) boundedCacheCall_frame(1) intro: sameFrame_trans)

lemma serveUpstreams_frame:
  assumes "serveUpstreams put ev q out k n us sv = (sv', r)"
  shows "sameFrame sv sv'"
  using assms
proof (induction us arbitrary: n sv)
  case (Cons u us)
  have pend: "sameFrame sv (sv\<lparr> sv_pending := m \<rparr>)" for sv :: "'a service" and m
    by (simp add: sameFrame_def)
  note tr = sameFrame_trans [OF updateStatus_frame(1)] sameFrame_trans [OF pend sameFrame_trans [OF updateStatus_frame(1)]]
  show ?case
  proof (cases "up_enabled u")
    case True
    then show ?thesis
      using Cons.prems
      by (auto simp: Let_def split: resolveOutcome.splits option.splits res.splits prod.splits
        dest!: Cons.IH serveStore_frame intro: tr sameFrame_trans [OF pend updateStatus_frame(1)])
  qed (use Cons in auto)
qed simp

lemma serveSlot_frame:
  assumes "serveSlot lib get put ev q out src sv = (sv', r)"
  shows "sameFrame sv sv'"
  using assms
  by (auto simp: serveSlot_def Let_def split: option.splits res.splits prod.splits
    dest!: serviceNow_frame(1) boundedCacheCall_frame(1) serveUpstreams_frame intro: sameFrame_trans)

section \<open>What the cache holds\<close>

text \<open>
  An entry is sound for a key when it is the normalized form of a response accepted for a
  query with that key, cacheable, and lives for its TTL cut to the configured maximum.
\<close>

definition entryOk :: "dohLib \<Rightarrow> configuration \<Rightarrow> string \<Rightarrow> cacheEntry \<Rightarrow> bool" where
  "entryOk lib cfg k en \<longleftrightarrow>
     (\<exists>q w meta src. k = pq_key q @ '':'' @ src \<and> parseDNSQuery (lib_sha256 lib) (pq_wire q) = Ok q
       \<and> validateDNSResponse q w = Ok (meta, ce_response en)
       \<and> rm_cacheable meta \<and> cf_minTTL cfg \<le> rm_ttl meta \<and> 0 < cf_maxTTL cfg
       \<and> ce_expiresAt en = ce_storedAt en + ucast (min (rm_ttl meta) (cf_maxTTL cfg)) * second
       \<and> ce_storedAt en \<le> ce_expiresAt en)"

context response_cache
begin

definition serviceSound :: "dohLib \<Rightarrow> 'c service \<Rightarrow> bool" where
  "serviceSound lib sv \<longleftrightarrow> inv (sv_cache sv)
     \<and> (\<forall>k en. lookup (sv_cache sv) k = Some en \<longrightarrow> entryOk lib (sv_configuration sv) k en)"

lemma serviceSound_cong:
  "sv_cache sv' = sv_cache sv \<Longrightarrow> sv_configuration sv' = sv_configuration sv \<Longrightarrow>
    serviceSound lib sv' = serviceSound lib sv"
  by (simp add: serviceSound_def)

lemma boundedCacheCall_get:
  assumes "serviceSound lib sv" and "boundedCacheCall call (\<lambda>ctxErr. get ctxErr k now) sv = (sv', r)"
  shows "serviceSound lib sv'"
    and "r = Ok (Some en) \<Longrightarrow> entryOk lib (sv_configuration sv) k en \<and> now < ce_expiresAt en"
proof -
  have g: "inv c' \<and> (\<forall>k' x. lookup c' k' = Some x \<longrightarrow> entryOk lib (sv_configuration sv) k' x)"
    if "get e k now (sv_cache sv) = (c', r')" for e c' r'
    using assms(1) that get_inv get_sub unfolding serviceSound_def by metis
  show "serviceSound lib sv'"
  proof (cases call)
    case (Returns e)
    with assms(2) g show ?thesis
      by (auto simp: boundedCacheCall_def serviceSound_def split: prod.splits)
  next
    case (Abandoned e effect)
    obtain c' r' where "get None k now (sv_cache sv) = (c', r')" by fastforce
    with assms Abandoned g [of None c' r'] show ?thesis
      by (cases effect) (auto simp: boundedCacheCall_def serviceSound_def)
  qed
  show "entryOk lib (sv_configuration sv) k en \<and> now < ce_expiresAt en" if "r = Ok (Some en)"
    using assms that get_hit
    by (auto simp: boundedCacheCall_def serviceSound_def split: hostCall.splits prod.splits)
qed

lemma boundedCacheCall_put:
  assumes "serviceSound lib sv" and "boundedCacheCall call (\<lambda>ctxErr. put ctxErr k en) sv = (sv', r)"
    and "entryOk lib (sv_configuration sv) k en"
  shows "serviceSound lib sv'"
proof -
  have g: "inv c' \<and> (\<forall>k' x. lookup c' k' = Some x \<longrightarrow> entryOk lib (sv_configuration sv) k' x)"
    if "put e k en (sv_cache sv) = (c', r')" for e c' r'
    using assms(1,3) that put_inv put_sub unfolding serviceSound_def by metis
  show ?thesis
  proof (cases call)
    case (Returns e)
    with assms(2) g show ?thesis
      by (auto simp: boundedCacheCall_def serviceSound_def split: prod.splits)
  next
    case (Abandoned e effect)
    obtain c' r' where "put None k en (sv_cache sv) = (c', r')" by fastforce
    with assms Abandoned g [of None c' r'] show ?thesis
      by (cases effect) (auto simp: boundedCacheCall_def serviceSound_def)
  qed
qed

lemma serveStore_sound:
  assumes sound: "serviceSound lib sv" and store: "serveStore put ev n k meta nrm sv = (sv', r)"
    and k: "k = pq_key q @ '':'' @ src"
    and q: "parseDNSQuery (lib_sha256 lib) (pq_wire q) = Ok q" and v: "validateDNSResponse q w = Ok (meta, nrm)"
  shows "serviceSound lib sv'"
proof (cases "rm_cacheable meta \<and> rm_ttl meta \<ge> cf_minTTL (sv_configuration sv) \<and> cf_maxTTL (sv_configuration sv) > 0")
  case False
  with store sound show ?thesis by (auto simp: serveStore_def Let_def split: if_splits)
next
  case True
  obtain sv1 t where clk: "serviceNow ev (Suc n) sv = (sv1, t)" by fastforce
  have sv1: "sv_configuration sv1 = sv_configuration sv" "serviceSound lib sv1"
    using serviceNow_frame(1,2) [OF clk] sound serviceSound_cong [of sv1 sv lib] by (auto simp: sameFrame_def)
  have mins: "(if a > b then b else a) = min a b" for a b :: u32 by (auto simp: min_def)
  show ?thesis
  proof (cases t)
    case (Ok now)
    let ?en = "\<lparr> ce_response = nrm, ce_storedAt = now,
      ce_expiresAt = now + ucast (min (rm_ttl meta) (cf_maxTTL (sv_configuration sv))) * second \<rparr>"
    have ok: "entryOk lib (sv_configuration sv1) k ?en" if "now \<le> ce_expiresAt ?en"
      using True q v that k unfolding entryOk_def sv1(1)
      by (intro exI [of _ q] exI [of _ w] exI [of _ meta] exI [of _ src]) simp
    show ?thesis
    proof (cases "is_ok (ensureLive ev (AfterStoreClock n)) \<and> now \<le> ce_expiresAt ?en")
      case True': True
      then have "\<not> ce_expiresAt ?en < now" by (simp add: leD)
      with True' obtain sv2 r2 where "boundedCacheCall (ev_put ev) (\<lambda>ctxErr. put ctxErr k ?en) sv1 = (sv2, r2)"
        "sv' = sv2"
        using True store clk Ok
        by (auto simp: serveStore_def Let_def mins is_ok_iff split: prod.splits)
      with boundedCacheCall_put [OF sv1(2) _ ok] True' show ?thesis by simp
    next
      case False
      then have "sv' = sv1"
        using True store clk Ok by (auto simp: serveStore_def Let_def mins is_ok_iff not_le split: res.splits)
      with sv1 show ?thesis by simp
    qed
  qed (use store True clk sv1 in \<open>auto simp: serveStore_def Let_def\<close>)
qed

lemma serveUpstreams_sound:
  assumes "serviceSound lib sv" and "serveUpstreams put ev q out k n us sv = (sv', r)"
    and k: "k = pq_key q @ '':'' @ src"
    and q: "parseDNSQuery (lib_sha256 lib) (pq_wire q) = Ok q"
  shows "serviceSound lib sv'"
  using assms(1,2)
proof (induction us arbitrary: n sv)
  case (Cons u us)
  have upd: "serviceSound lib (updateStatus l i x f sv) = serviceSound lib sv" for l i x f and sv :: "'c service"
    by (rule serviceSound_cong) simp_all
  have pend: "serviceSound lib (sv\<lparr> sv_pending := m \<rparr>) = serviceSound lib sv" for m and sv :: "'c service"
    by (rule serviceSound_cong) simp_all
  show ?case
  proof (cases "\<exists>w meta nrm. up_enabled u \<and> ev_resolve ev n u out = Answered w \<and> validateDNSResponse q w = Ok (meta, nrm)")
    case True
    then obtain w meta nrm where ok: "up_enabled u" "ev_resolve ev n u out = Answered w"
      "validateDNSResponse q w = Ok (meta, nrm)" by blast
    obtain sv2 r2 where st: "serveStore put ev n k meta nrm
        (updateStatus (ev_live ev (AtStatus n)) (up_id u) ''healthy'' False sv) = (sv2, r2)"
      by fastforce
    have "serviceSound lib sv2"
      by (rule serveStore_sound [OF _ st k q ok(3)]) (use upd Cons.prems(1) in simp)
    with Cons.prems ok st show ?thesis
      by (auto simp: Let_def split: res.splits)
  next
    case False
    with Cons.prems show ?thesis
      by (auto simp: Let_def upd pend split: if_splits resolveOutcome.splits option.splits res.splits prod.splits
        dest!: Cons.IH [rotated])
  qed
qed simp

lemma serveSlot_sound:
  assumes sound: "serviceSound lib sv" and slot: "serveSlot lib get put ev q out src sv = (sv', r)"
    and q: "parseDNSQuery (lib_sha256 lib) (pq_wire q) = Ok q"
  shows "serviceSound lib sv'"
proof -
  obtain sv1 t where clk: "serviceNow ev 0 sv = (sv1, t)" by fastforce
  have sv1: "serviceSound lib sv1"
    using serviceNow_frame(1,2) [OF clk] sound serviceSound_cong [of sv1 sv lib] by (auto simp: sameFrame_def)
  have "serviceSound lib sv2" if "boundedCacheCall (ev_get ev) (\<lambda>ctxErr. get ctxErr k now) sv1 = (sv2, c)" for k now sv2 c
    using boundedCacheCall_get(1) [OF sv1 that] .
  then show ?thesis
    using slot sound clk sv1
    by (auto simp: serveSlot_def Let_def split: option.splits res.splits prod.splits
      dest!: serveUpstreams_sound [OF _ _ _ q, rotated])
qed

lemma serve_sound:
  assumes "serviceSound lib sv" and "serve lib get put ev request sv = (sv', r)"
  shows "serviceSound lib sv'"
proof -
  have upd: "serviceSound lib (sv\<lparr> sv_semaphore := m, sv_pending := n \<rparr>) = serviceSound lib sv"
    "serviceSound lib (sv\<lparr> sv_semaphore := m \<rparr>) = serviceSound lib sv" for m n and sv :: "'c service"
    by (simp_all add: serviceSound_def)
  show ?thesis
    using assms
    by (auto simp: serve_def upd split: option.splits if_splits res.splits prod.splits
      dest: serveSlot_sound [OF _ _ parseHTTPRequest_Ok(2), rotated])
qed

end

section \<open>Cache hits\<close>

lemma unat_lifetime: "unat (ucast (t :: u32) * second) = unat t * 1000000000"
proof -
  have t: "unat t < 4294967296" using unsigned_less [of t] by simp
  then have "unat (ucast t :: u64) = unat t"
    by (simp add: unsigned_ucast_eq take_bit_nat_eq_self_iff)
  with t show ?thesis
    by (simp add: unat_word_ariths second_def)
qed

lemma unat_remaining:
  assumes "now \<le> expires" and "(unat expires - unat now) div 1000000000 < 4294967296"
  shows "unat (ucast ((expires - now) div second) :: u32) = (unat expires - unat now) div 1000000000"
proof -
  have "unat ((expires - now) div second) = (unat expires - unat now) div 1000000000"
    using assms(1) by (simp add: unat_div unat_sub second_def)
  with assms(2) show ?thesis
    by (simp add: unsigned_ucast_eq take_bit_nat_eq_self)
qed

text \<open>The stored entry with its ID set passes every check of the hit branch.\<close>

lemma entry_lifetime:
  fixes t :: u32
  assumes "ce_expiresAt en = ce_storedAt en + ucast t * second" and "ce_storedAt en \<le> ce_expiresAt en" and "0 < t"
  shows "unat (ce_expiresAt en) = unat (ce_storedAt en) + unat t * 1000000000"
    and "ce_storedAt en < ce_expiresAt en" and "ucast t * second \<noteq> 0"
proof -
  let ?l = "ucast t * second"
  have pos: "0 < unat ?l" using assms(3) by (simp add: unat_lifetime word_less_nat_alt)
  have l64: "unat ?l < 18446744073709551616" using unsigned_less [of ?l] by simp
  show "ucast t * second \<noteq> 0" using pos by auto
  have "unat (ce_storedAt en + ?l) = unat (ce_storedAt en) + unat ?l"
    using assms(1,2) unat_plus_if_size [of "ce_storedAt en" ?l] l64
    by (auto simp: word_le_nat_alt word_size split: if_splits)
  then show "unat (ce_expiresAt en) = unat (ce_storedAt en) + unat t * 1000000000"
    using assms(1) by (simp add: unat_lifetime)
  then show "ce_storedAt en < ce_expiresAt en"
    using pos by (simp add: word_less_nat_alt unat_lifetime)
qed

lemma serveHit_serves:
  assumes v: "validateDNSResponse q0 w = Ok (meta, ce_response en)" and same: "pq_question q = pq_question q0"
    and ttl: "rm_cacheable meta" "cf_minTTL cfg \<le> rm_ttl meta" "0 < cf_maxTTL cfg" "0 < rm_ttl meta"
    and life: "ce_expiresAt en = ce_storedAt en + ucast (min (rm_ttl meta) (cf_maxTTL cfg)) * second"
      "ce_storedAt en \<le> ce_expiresAt en"
    and time: "ce_storedAt en \<le> now" "now < ce_expiresAt en"
    and tame: "tameResponse (ce_response en)" and live: "ensureLive ev AfterClamp = Ok ()"
  shows "\<exists>body meta'. serveHit cfg ev q now en
      = Ok \<lparr> rp_status = ''200'', rp_contentType = dnsMediaType, rp_body = body, rp_cacheHit = True \<rparr>
    \<and> validateDNSResponse q body = Ok (meta', [0, 0] @ drop 2 body)
    \<and> unat (rm_ttl meta') * 1000000000 \<le> unat (ce_expiresAt en) - unat now"
proof -
  let ?t = "min (rm_ttl meta) (cf_maxTTL cfg)"
  let ?limit = "ucast ((ce_expiresAt en - now) div second) :: u32"
  have t: "0 < ?t" using ttl by (simp add: min_def)
  note lt = entry_lifetime [OF life t]
  obtain cand where cand: "responseWithID (ce_response en) (pq_id q) = Ok cand"
    and vc: "validateDNSResponse q cand = Ok (meta, ce_response en)"
    using validateDNSResponse_ID [OF v same] by blast
  have norm: "ce_response en = [0, 0] @ drop 2 w" "17 \<le> length w" using v by (auto simp: validateDNSResponse_iff)
  then have "cand = be16_bytes (pq_id q) @ drop 2 (ce_response en)"
    using cand responseWithID_Ok [of "ce_response en" "pq_id q"] by simp
  then have "length (ce_response en) = length cand" "agree cand (ce_response en) 2 (length cand)"
    using norm by (auto simp: agree_def nth_append be16_bytes_def nth_Cons')
  then have tc: "tameResponse cand" using tameResponse_ID [OF vc] tame by simp
  obtain body where body: "clampDNSResponseTTLs cand ?limit = Ok body"
    and vb: "validateDNSResponse q body = Ok (meta\<lparr> rm_ttl := min (rm_ttl meta) ?limit,
      rm_cacheable := min (rm_ttl meta) ?limit > 0 \<rparr>, [0, 0] @ drop 2 body)"
    using clampDNSResponseTTLs_valid [OF vc tc] by blast
  have t32: "unat ?t < 4294967296" using unsigned_less [of ?t] by simp
  have rem: "unat (ce_expiresAt en) - unat now \<le> unat ?t * 1000000000"
    using lt(1) time(1) by (simp add: word_le_nat_alt)
  then have "(unat (ce_expiresAt en) - unat now) div 1000000000 \<le> unat ?t"
    by (simp add: div_le_mono [THEN order_trans])
  then have lim: "unat ?limit = (unat (ce_expiresAt en) - unat now) div 1000000000"
    using t32 time(2) by (intro unat_remaining) auto
  have mins: "(if a > b then b else a) = min a b" for a b :: u32 by (auto simp: min_def)
  have "serveHit cfg ev q now en
      = Ok \<lparr> rp_status = ''200'', rp_contentType = dnsMediaType, rp_body = body, rp_cacheHit = True \<rparr>"
    using cand vc ttl lt life time body live
    by (simp add: serveHit_def mins not_less not_le Let_def)
  moreover have "unat (min (rm_ttl meta) ?limit) * 1000000000 \<le> unat (ce_expiresAt en) - unat now"
  proof -
    have "unat (min (rm_ttl meta) ?limit) \<le> unat ?limit" by (simp add: min_def word_le_nat_alt)
    then show ?thesis unfolding lim by (simp add: times_div_less_eq_dividend [THEN order_trans])
  qed
  ultimately show ?thesis using vb by auto
qed

lemma serveHit_Ok:
  assumes "serveHit cfg ev q now en = Ok resp"
  obtains cand meta nrm where "responseWithID (ce_response en) (pq_id q) = Ok cand"
    and "validateDNSResponse q cand = Ok (meta, nrm)"
    and "clampDNSResponseTTLs cand (ucast ((ce_expiresAt en - now) div second)) = Ok (rp_body resp)"
    and "ce_storedAt en \<le> now" and "now < ce_expiresAt en" and "rp_cacheHit resp"
proof -
  from assms obtain cand where c: "responseWithID (ce_response en) (pq_id q) = Ok cand"
    by (auto simp: serveHit_def)
  show thesis
  proof (cases "validateDNSResponse q cand")
    case (Ok mn)
    obtain meta nrm where mn: "mn = (meta, nrm)" by fastforce
    show thesis
    proof (cases "clampDNSResponseTTLs cand (ucast ((ce_expiresAt en - now) div second))")
      case c2: (Ok body)
      show thesis
        using assms c Ok mn c2
        by (intro that [of cand meta nrm]) (auto simp: serveHit_def Let_def split: if_splits)
    qed (use assms c Ok mn in \<open>auto simp: serveHit_def Let_def split: if_splits\<close>)
  qed (use assms c in \<open>auto simp: serveHit_def\<close>)
qed

section \<open>Cache misses\<close>

text \<open>
  An answer that comes from upstream is the message of the first upstream, in order, whose
  answer is accepted for the query; all earlier ones are disabled, timed out, failed or invalid.
\<close>

definition upstreamSkipped :: "serveEnv \<Rightarrow> parsedQuery \<Rightarrow> wire \<Rightarrow> nat \<Rightarrow> upstream \<Rightarrow> bool" where
  "upstreamSkipped ev q out n u \<longleftrightarrow> \<not> up_enabled u
     \<or> (case ev_resolve ev n u out of Answered w \<Rightarrow> \<not> is_ok (validateDNSResponse q w) | _ \<Rightarrow> True)"

lemma responseWithID_same:
  assumes "validateDNSResponse q w = Ok (meta, nrm)"
  shows "responseWithID nrm (pq_id q) = Ok w"
proof -
  have w: "17 \<le> length w" "be16_of (seg w 0 2) = pq_id q" "nrm = [0, 0] @ drop 2 w"
    using assms by (auto simp: validateDNSResponse_iff)
  obtain a b rest where ab: "w = a # b # rest"
    using w(1) by (cases w; cases "tl w") auto
  have "be16_bytes (be16_of [a, b]) = [a, b]"
    by (rule be16_bytes_of)
  then show ?thesis
    using w ab responseWithID_Ok [of nrm "pq_id q"] by (simp add: seg_def)
qed

lemma serveUpstreams_answer:
  assumes "serveUpstreams put ev q out k n us sv = (sv', Ok resp)"
  obtains before u after w where "us = before @ u # after"
    and "\<forall>i < length before. upstreamSkipped ev q out (n + i) (before ! i)"
    and "up_enabled u" and "ev_resolve ev (n + length before) u out = Answered w"
    and "is_ok (validateDNSResponse q w)" and "rp_body resp = w" and "\<not> rp_cacheHit resp"
proof -
  have "\<exists>before u after w. us = before @ u # after
    \<and> (\<forall>i < length before. upstreamSkipped ev q out (n + i) (before ! i))
    \<and> up_enabled u \<and> ev_resolve ev (n + length before) u out = Answered w
    \<and> is_ok (validateDNSResponse q w) \<and> rp_body resp = w \<and> \<not> rp_cacheHit resp"
    using assms
  proof (induction us arbitrary: n sv)
    case (Cons u us)
    show ?case
    proof (cases "upstreamSkipped ev q out n u")
      case True
      then obtain sv1 where "serveUpstreams put ev q out k (Suc n) us sv1 = (sv', Ok resp)"
        using Cons.prems
        by (auto simp: upstreamSkipped_def Let_def is_ok_iff split: if_splits resolveOutcome.splits option.splits res.splits prod.splits)
      from Cons.IH [OF this] obtain before v after w where ih: "us = before @ v # after"
        "\<forall>i < length before. upstreamSkipped ev q out (Suc n + i) (before ! i)"
        "up_enabled v" "ev_resolve ev (Suc n + length before) v out = Answered w"
        "is_ok (validateDNSResponse q w)" "rp_body resp = w" "\<not> rp_cacheHit resp"
        by blast
      have "\<forall>i < length (u # before). upstreamSkipped ev q out (n + i) ((u # before) ! i)"
        using ih(2) True by (auto simp: less_Suc_eq_0_disj)
      with ih show ?thesis by (intro exI [of _ "u # before"] exI [of _ v] exI [of _ after] exI [of _ w]) auto
    next
      case False
      then obtain w meta nrm where ok: "up_enabled u" "ev_resolve ev n u out = Answered w"
        "validateDNSResponse q w = Ok (meta, nrm)"
        by (auto simp: upstreamSkipped_def is_ok_iff split: resolveOutcome.splits)
      then have "rp_body resp = w \<and> \<not> rp_cacheHit resp"
        using Cons.prems responseWithID_same [OF ok(3)]
        by (auto simp: Let_def split: res.splits prod.splits)
      with ok show ?thesis by (intro exI [of _ "[]"] exI [of _ u] exI [of _ us] exI [of _ w]) auto
    qed
  qed simp
  then show thesis using that by blast
qed

section \<open>No panics\<close>

lemma responseWithID_no_panic [no_panic]: "responseWithID w i \<noteq> Panic"
  by (simp add: responseWithID_def put_be16_def)

lemma serveHit_no_panic [no_panic]: "serveHit cfg ev q now en \<noteq> Panic"
  by (auto simp: serveHit_def no_panic rbind_eq_Panic Let_def split: res.splits if_splits)

lemma injectECS_no_panic [no_panic]: "injectECS w ip \<noteq> Panic"
proof -
  have "encodeECSOption ip \<noteq> Panic" by (simp add: encodeECSOption_def split: prod.split)
  then show ?thesis
    by (auto simp: injectECS_def rbind_eq_Panic no_panic Let_def put_be16_not_Panic split: res.splits if_splits)
qed

lemma applyOutboundECS_no_panic [no_panic]: "applyOutboundECS f q ip \<noteq> Panic"
  by (auto simp: applyOutboundECS_def no_panic split: option.splits res.splits)

lemma withSafeError_panic: "withSafeError e r = Panic \<longleftrightarrow> r = Panic"
  by (cases r) (auto simp: withSafeError_def)

lemma cacheGet_no_panic: "cacheGet e k now c = (c', r) \<Longrightarrow> r \<noteq> Panic"
  by (auto simp: cacheGet_def split: option.splits if_splits)

lemma cachePut_no_panic: "cachePut e k en c = (c', r) \<Longrightarrow> r \<noteq> Panic"
  by (auto elim: cachePut_cases)

lemma boundedCacheCall_no_panic:
  assumes "\<And>e c c' r. op e c = (c', r) \<Longrightarrow> r \<noteq> Panic" and "boundedCacheCall call op sv = (sv', r)"
  shows "r \<noteq> Panic"
  using assms by (auto simp: boundedCacheCall_def split: hostCall.splits prod.splits)

lemma serveStore_no_panic: "serveStore cachePut ev n k meta nrm sv = (sv', r) \<Longrightarrow> r \<noteq> Panic"
proof -
  have "r' \<noteq> Panic" if "boundedCacheCall call (\<lambda>ctxErr. cachePut ctxErr k en) sv1 = (sv2, r')" for call en sv1 sv2 r'
    by (rule boundedCacheCall_no_panic [OF _ that]) (rule cachePut_no_panic)
  then show "serveStore cachePut ev n k meta nrm sv = (sv', r) \<Longrightarrow> r \<noteq> Panic"
    by (auto simp: serveStore_def Let_def rbind_eq_Panic withSafeError_panic no_panic
      split: if_splits prod.splits res.splits)
qed

lemma serveUpstreams_no_panic: "serveUpstreams cachePut ev q out k n us sv = (sv', r) \<Longrightarrow> r \<noteq> Panic"
proof (induction us arbitrary: n sv)
  case (Cons u us)
  then show ?case
    by (auto simp: Let_def no_panic rbind_eq_Panic
      split: if_splits resolveOutcome.splits option.splits res.splits prod.splits dest: serveStore_no_panic)
qed auto

lemma serve_no_panic: "snd (serve lib cacheGet cachePut ev rq sv) \<noteq> Panic"
proof -
  have get: "r \<noteq> Panic" if "boundedCacheCall call (\<lambda>ctxErr. cacheGet ctxErr k now) sv1 = (sv2, r)" for call k now sv1 sv2 r
    by (rule boundedCacheCall_no_panic [OF _ that]) (rule cacheGet_no_panic)
  have "r \<noteq> Panic" if "serveSlot lib cacheGet cachePut ev q out src sv1 = (sv2, r)" for q out src sv1 sv2 r
    using that
    by (auto simp: serveSlot_def Let_def no_panic withSafeError_panic
      split: option.splits res.splits prod.splits dest: serviceNow_frame(3) get serveUpstreams_no_panic)
  then show ?thesis
    by (auto simp: serve_def no_panic split: option.splits res.splits prod.splits)
qed

section \<open>Runs of the service\<close>

lemma serve_configuration:
  assumes "serve lib get put ev rq sv = (sv', r)"
  shows "sv_configuration sv' = sv_configuration sv" and "sv_live sv' = sv_live sv"
  using assms
  by (auto simp: serve_def sameFrame_def split: option.splits if_splits res.splits prod.splits dest!: serveSlot_frame)

lemma NewService_sound: "NewService cfg = Ok sv \<Longrightarrow> mc.serviceSound lib sv"
  using NewMemoryCache_inv
  by (auto simp: NewService_def Let_def mc.serviceSound_def cacheLookup_def) (auto simp: NewMemoryCache_def)

lemma serveAll_sound:
  "mc.serviceSound lib sv \<Longrightarrow> mc.serviceSound lib (serveAll lib rqs sv)
    \<and> sv_configuration (serveAll lib rqs sv) = sv_configuration sv"
proof (induction lib rqs sv rule: serveAll.induct)
  case (2 lib ev rq rest sv)
  obtain sv1 r where s: "serve lib cacheGet cachePut ev rq sv = (sv1, r)" by fastforce
  with 2 mc.serve_sound [OF 2(2) s] serve_configuration(1) [OF s] show ?case by simp
qed simp

text \<open>What a request gets when nothing interferes and the cache holds an entry for it.\<close>

definition undisturbed :: "serveEnv \<Rightarrow> u64 \<Rightarrow> bool" where
  "undisturbed ev now \<longleftrightarrow> (\<forall>p. ev_ctx ev p = None \<and> ev_live ev p) \<and> ev_clock ev 0 = ClockReturns (Inr now)
     \<and> ev_get ev = Returns None"

lemma serve_hit:
  assumes "undisturbed ev now" and "sv_live sv" and "sv_semaphore sv < cf_maxConcurrency (sv_configuration sv)"
    and "sv_clockSet sv \<longrightarrow> sv_lastNow sv \<le> now"
    and "parseHTTPRequest lib rq = Ok q"
    and "applyOutboundECS (lib_ipString lib) q (parseForwardedFor lib (rq_forwarded rq)) = Ok (out, src)"
    and "cacheLookup (sv_cache sv) (pq_key q @ '':'' @ src) = Some en" and "now < ce_expiresAt en"
  shows "snd (serve lib cacheGet cachePut ev rq sv) = serveHit (sv_configuration sv) ev q now en"
proof -
  have live: "ensureLive ev p = Ok ()" for p using assms(1) by (simp add: ensureLive_def undisturbed_def)
  have "cacheGet None (pq_key q @ '':'' @ src) now (sv_cache sv) = (sv_cache sv, Ok (Some en))"
    by (rule cacheGet_fresh [OF assms(7,8)])
  then show ?thesis
    using assms(1-6)
    by (simp add: serve_def serveSlot_def serviceNow_def live boundedCacheCall_def withSafeError_def undisturbed_def
      not_le leD split: prod.split) auto
qed

text \<open>An answered request leaves its answer in the cache.\<close>

definition storable :: "configuration \<Rightarrow> responseMetadata \<Rightarrow> bool" where
  "storable cfg meta \<longleftrightarrow> rm_cacheable meta \<and> cf_minTTL cfg \<le> rm_ttl meta \<and> 0 < cf_maxTTL cfg"

definition storedEntry :: "configuration \<Rightarrow> responseMetadata \<Rightarrow> wire \<Rightarrow> u64 \<Rightarrow> cacheEntry" where
  "storedEntry cfg meta nrm now = \<lparr> ce_response = nrm, ce_storedAt = now,
     ce_expiresAt = now + ucast (min (rm_ttl meta) (cf_maxTTL cfg)) * second \<rparr>"

lemma serveStore_holds:
  assumes "serveStore cachePut ev n k meta nrm sv = (sv', Ok ())" and "cacheInv (sv_cache sv)"
    and "storable (sv_configuration sv) meta"
  shows "cacheLookup (sv_cache sv') k = Some (storedEntry (sv_configuration sv) meta nrm (sv_lastNow sv'))
    \<and> ce_storedAt (storedEntry (sv_configuration sv) meta nrm (sv_lastNow sv'))
      \<le> ce_expiresAt (storedEntry (sv_configuration sv) meta nrm (sv_lastNow sv'))
    \<and> sv_clockSet sv'"
proof -
  have mins: "(if a > b then b else a) = min a b" for a b :: u32 by (auto simp: min_def)
  obtain sv1 t where clk: "serviceNow ev (Suc n) sv = (sv1, t)" by fastforce
  obtain now where t: "t = Ok now" and live: "ensureLive ev (AfterStoreClock n) = Ok ()"
    using assms(1,3) clk by (auto simp: serveStore_def storable_def Let_def split: res.splits)
  let ?en = "storedEntry (sv_configuration sv) meta nrm now"
  note f = serviceNow_frame(2) [OF clk] serviceNow_frame(4) [OF clk t]
  obtain sv2 r2 where put: "boundedCacheCall (ev_put ev) (\<lambda>ctxErr. cachePut ctxErr k ?en) sv1 = (sv2, r2)"
    by fastforce
  have sv': "sv' = sv2" and ok: "r2 = Ok ()" and le: "ce_storedAt ?en \<le> ce_expiresAt ?en"
    using assms(1,3) clk t live put
    by (auto simp: serveStore_def storable_def storedEntry_def mins Let_def withSafeError_def
      split: prod.splits if_splits res.splits)
  then obtain e c where c: "cachePut e k ?en (sv_cache sv1) = (c, Ok ())" "sv_cache sv2 = c"
    using put by (auto simp: boundedCacheCall_def split: hostCall.splits prod.splits)
  then have "cacheLookup (sv_cache sv2) k = Some ?en"
    using mc.put_holds [OF _ c(1)] assms(2) f(1) by simp
  moreover have "sv_lastNow sv2 = now" "sv_clockSet sv2"
    using boundedCacheCall_frame(2,3) [OF put] f(2) by auto
  ultimately show ?thesis using sv' le by simp
qed

lemma serveUpstreams_holds:
  assumes "serveUpstreams cachePut ev q out k n us sv = (sv', Ok resp)" and "cacheInv (sv_cache sv)"
    and "validateDNSResponse q (rp_body resp) = Ok (meta, nrm)" and "storable (sv_configuration sv) meta"
  shows "cacheLookup (sv_cache sv') k = Some (storedEntry (sv_configuration sv) meta nrm (sv_lastNow sv'))
    \<and> ce_storedAt (storedEntry (sv_configuration sv) meta nrm (sv_lastNow sv'))
      \<le> ce_expiresAt (storedEntry (sv_configuration sv) meta nrm (sv_lastNow sv'))
    \<and> sv_clockSet sv'"
  using assms
proof (induction us arbitrary: n sv)
  case (Cons u us)
  show ?case
  proof (cases "upstreamSkipped ev q out n u")
    case True
    then obtain sv1 where rec: "serveUpstreams cachePut ev q out k (Suc n) us sv1 = (sv', Ok resp)"
      and "sv_cache sv1 = sv_cache sv" "sv_configuration sv1 = sv_configuration sv"
      using Cons.prems(1)
      by (auto simp: upstreamSkipped_def Let_def is_ok_iff
        split: if_splits resolveOutcome.splits option.splits res.splits prod.splits)
    with Cons.IH [OF rec] Cons.prems show ?thesis by simp
  next
    case False
    then obtain w meta' nrm' where ok: "up_enabled u" "ev_resolve ev n u out = Answered w"
      "validateDNSResponse q w = Ok (meta', nrm')"
      by (auto simp: upstreamSkipped_def is_ok_iff split: resolveOutcome.splits)
    let ?sv = "updateStatus (ev_live ev (AtStatus n)) (up_id u) ''healthy'' False sv"
    have store: "serveStore cachePut ev n k meta' nrm' ?sv = (sv', Ok ())" and "rp_body resp = w"
      using Cons.prems(1) ok responseWithID_same [OF ok(3)] by (auto simp: Let_def split: res.splits prod.splits)
    with Cons.prems ok serveStore_holds [OF store] show ?thesis by simp
  qed
qed simp

lemma serve_holds:
  assumes "serve lib cacheGet cachePut ev rq sv = (sv', Ok resp)" and "\<not> rp_cacheHit resp"
    and "cacheInv (sv_cache sv)" and "parseHTTPRequest lib rq = Ok q"
    and "applyOutboundECS (lib_ipString lib) q (parseForwardedFor lib (rq_forwarded rq)) = Ok (out, src)"
    and "validateDNSResponse q (rp_body resp) = Ok (meta, nrm)" and "storable (sv_configuration sv) meta"
  shows "cacheLookup (sv_cache sv') (pq_key q @ '':'' @ src)
      = Some (storedEntry (sv_configuration sv) meta nrm (sv_lastNow sv'))
    \<and> ce_storedAt (storedEntry (sv_configuration sv) meta nrm (sv_lastNow sv'))
      \<le> ce_expiresAt (storedEntry (sv_configuration sv) meta nrm (sv_lastNow sv'))
    \<and> sv_clockSet sv'"
proof -
  let ?k = "pq_key q @ '':'' @ src"
  let ?sv0 = "sv\<lparr> sv_semaphore := sv_semaphore sv + 1, sv_pending := 0 \<rparr>"
  obtain svs where slot: "serveSlot lib cacheGet cachePut ev q out src ?sv0 = (svs, Ok resp)"
    and sv': "sv_cache sv' = sv_cache svs" "sv_lastNow sv' = sv_lastNow svs" "sv_clockSet sv' = sv_clockSet svs"
    using assms(1,4,5) by (auto simp: serve_def split: option.splits if_splits prod.splits)
  obtain sv1 t where clk: "serviceNow ev 0 ?sv0 = (sv1, t)" by fastforce
  have hit: "rp_cacheHit resp" if "serveHit cfg ev q now en = Ok resp" for cfg now en
    by (rule serveHit_Ok [OF that])
  obtain now sv2 c us where get: "boundedCacheCall (ev_get ev) (\<lambda>ctxErr. cacheGet ctxErr ?k now) sv1 = (sv2, c)"
    and ups: "serveUpstreams cachePut ev q out ?k 0 us sv2 = (svs, Ok resp)"
    using slot clk assms(2) hit
    by (auto simp: serveSlot_def Let_def split: option.splits res.splits prod.splits)
  have sv1: "sv_cache sv1 = sv_cache sv" "sv_configuration sv1 = sv_configuration sv"
    using serviceNow_frame(1,2) [OF clk] by (auto simp: sameFrame_def)
  have inv2: "cacheInv (sv_cache sv2)"
  proof (cases "ev_get ev")
    case (Returns e)
    then show ?thesis using get sv1 assms(3) mc.get_inv [OF assms(3), of e ?k now]
      by (auto simp: boundedCacheCall_def split: prod.splits)
  next
    case (Abandoned e effect)
    obtain c' r' where "cacheGet None ?k now (sv_cache sv) = (c', r')" by fastforce
    with get sv1 assms(3) mc.get_inv [OF assms(3) this] Abandoned show ?thesis
      by (auto simp: boundedCacheCall_def)
  qed
  have cfg: "sv_configuration sv2 = sv_configuration sv"
    using boundedCacheCall_frame(1) [OF get] sv1 by (simp add: sameFrame_def)
  from serveUpstreams_holds [OF ups inv2 assms(6)] assms(7) show ?thesis
    unfolding cfg sv' by blast
qed

lemma agree_prefix:
  "length p = 2 \<Longrightarrow> 2 \<le> length w \<Longrightarrow> length (p @ drop 2 w) = length w \<and> agree w (p @ drop 2 w) 2 (length w)"
  by (auto simp: agree_def nth_append simp del: add_2_eq_Suc add_2_eq_Suc')

lemma parseQuestionName_normal:
  assumes "parseQuestionName w 12 = Ok (e, c)" and "e + 4 \<le> length w"
  shows "parseQuestionName (queryNormal w e) 12 = Ok (e, c)"
proof (rule parseQuestionName_lower [OF assms(1)])
  note n = parseQuestionName_Ok [OF assms(1)]
  have len: "length (queryNormal w e) = length w" using n assms(2) by (simp add: queryNormal_def)
  then show "e \<le> length (queryNormal w e)" using n by simp
  have sg: "seg (queryNormal w e) 12 (e + 4) = map lowerByte (seg w 12 e) @ seg w e (e + 4)"
    by (rule queryNormal_puts(2) [OF assms])
  show "lowerByte (queryNormal w e ! i) = lowerByte (w ! i)" if "12 \<le> i" "i < e" for i
  proof -
    have "queryNormal w e ! i = seg (queryNormal w e) 12 (e + 4) ! (i - 12)"
      using that len assms(2) by (simp add: nth_seg)
    also have "\<dots> = lowerByte (w ! i)"
      using that assms(2) diff_less_mono [OF that(2,1)] unfolding sg by (simp add: nth_append nth_seg)
    finally show ?thesis by simp
  qed
qed

lemma same_normal_same_question:
  assumes "parseDNSQuery sha w1 = Ok q1" and "parseDNSQuery sha w2 = Ok q2" and "pq_normalized q2 = pq_normalized q1"
  shows "pq_key q2 = pq_key q1" and "pq_question q2 = pq_question q1"
proof -
  obtain e1 x1 e2 x2 where q: "q1 = queryResult sha w1 e1 x1" "q2 = queryResult sha w2 e2 x2"
    and b: "queryBody w1 e1 x1" "queryBody w2 e2 x2"
    using assms(1,2) by (auto simp: parseDNSQuery_iff)
  then have nrm: "queryNormal w2 e2 = queryNormal w1 e1" using assms(3) by (simp add: queryResult_def)
  obtain c1 c2 where n: "parseQuestionName w1 12 = Ok (e1, c1)" "parseQuestionName w2 12 = Ok (e2, c2)"
    and f: "e1 + 4 \<le> length w1" "e2 + 4 \<le> length w2"
    using b by (auto simp: queryBody_def)
  have "e2 = e1"
    using parseQuestionName_normal [OF n(1) f(1)] parseQuestionName_normal [OF n(2) f(2)] nrm by simp
  then show "pq_question q2 = pq_question q1"
    using queryNormal_puts(2) [OF n(1) f(1)] queryNormal_puts(2) [OF n(2) f(2)] nrm by (simp add: q queryResult_def)
  show "pq_key q2 = pq_key q1" using nrm by (simp add: q queryResult_def)
qed

section \<open>An example\<close>

text \<open>
  One query, asked twice with different IDs and letter case, an upstream that answers it with
  a TTL of 300 seconds, and a clock that reads 5 first and 6 later.
\<close>

definition exLib :: dohLib where
  "exLib = \<lparr> lib_parseMediaType = (\<lambda>s. Some (''application/dns-message'', [])), lib_parseFloat = (\<lambda>s. None),
     lib_parseIP = (\<lambda>s. None), lib_ipString = (\<lambda>b. []), lib_sha256 = id, lib_urlParse = (\<lambda>s. None),
     lib_unicodeLower = id \<rparr>"

definition exRequest :: "wire \<Rightarrow> httpRequest" where
  "exRequest w = \<lparr> rq_method = ''POST'', rq_query = [], rq_contentType = ''application/dns-message'',
     rq_accept = [], rq_forwarded = [], rq_body = w \<rparr>"

definition exQuery1 :: wire where
  "exQuery1 = [0, 7, 1, 0, 0, 1, 0, 0, 0, 0, 0, 0, 1, 97, 2, 110, 108, 0, 0, 1, 0, 1]"

definition exQuery2 :: wire where
  "exQuery2 = [0, 9, 1, 0, 0, 1, 0, 0, 0, 0, 0, 0, 1, 65, 2, 78, 108, 0, 0, 1, 0, 1]"

definition exAnswer :: wire where
  "exAnswer = [0, 7, 0x81, 0x80, 0, 1, 0, 1, 0, 0, 0, 0, 1, 97, 2, 110, 108, 0, 0, 1, 0, 1,
     0xc0, 12, 0, 1, 0, 1, 0, 0, 1, 44, 0, 4, 192, 0, 2, 1]"

definition exEnv :: "u64 \<Rightarrow> serveEnv" where
  "exEnv now = \<lparr> ev_ctx = (\<lambda>p. None), ev_live = (\<lambda>p. True), ev_clock = (\<lambda>n. ClockReturns (Inr now)),
     ev_get = Returns None, ev_put = Returns None, ev_resolve = (\<lambda>n u w. Answered exAnswer) \<rparr>"

definition exService :: "memoryCache service" where
  "exService = (case NewService emptyConfiguration of Ok sv \<Rightarrow> sv)"

definition exFirst :: "memoryCache service \<times> httpResponse doh" where
  "exFirst = serve exLib cacheGet cachePut (exEnv 5) (exRequest exQuery1) exService"

lemma exFirst_facts:
  "(case exFirst of (sv1, Ok resp) \<Rightarrow> \<not> rp_cacheHit resp \<and> rp_body resp = exAnswer \<and> sv_live sv1
      \<and> sv_semaphore sv1 < cf_maxConcurrency (sv_configuration sv1) \<and> sv_lastNow sv1 = 5
      \<and> cacheLookup (sv_cache sv1) (case parseHTTPRequest exLib (exRequest exQuery1) of Ok q \<Rightarrow> pq_key q @ '':none'') \<noteq> None
    | _ \<Rightarrow> False)"
  by code_simp

lemma exFirst_Ok:
  obtains sv1 resp where "serve exLib cacheGet cachePut (exEnv 5) (exRequest exQuery1) exService = (sv1, Ok resp)"
    and "\<not> rp_cacheHit resp" and "rp_body resp = exAnswer" and "sv_live sv1"
    and "sv_semaphore sv1 < cf_maxConcurrency (sv_configuration sv1)" and "sv_lastNow sv1 = 5"
    and "cacheLookup (sv_cache sv1) (case parseHTTPRequest exLib (exRequest exQuery1) of Ok q \<Rightarrow> pq_key q @ '':none'') \<noteq> None"
  using exFirst_facts unfolding exFirst_def by (auto split: prod.splits res.splits)

lemma exService_new: "NewService emptyConfiguration = Ok exService"
proof -
  have "is_ok (NewService emptyConfiguration)" by code_simp
  then show ?thesis by (auto simp: exService_def is_ok_iff)
qed

section \<open>Properties\<close>



text \<open>
  C14. An answer that does not come from the cache is an upstream's own message: it is the
  answer of the first upstream, in the order selected for the name, that answered
  acceptably; every upstream before it was disabled, timed out, failed or gave a response that
  does not fit the query.
\<close>

theorem answer_from_first_good_upstream:
  assumes "serve lib cacheGet cachePut ev rq sv = (sv', Ok resp)" and "\<not> rp_cacheHit resp"
  shows "\<exists>q out src before u after. parseHTTPRequest lib rq = Ok q
    \<and> applyOutboundECS (lib_ipString lib) q (parseForwardedFor lib (rq_forwarded rq)) = Ok (out, src)
    \<and> upstreamsForName lib (sv_configuration sv) (questionName (pq_question q)) = before @ u # after
    \<and> (\<forall>i < length before. upstreamSkipped ev q out i (before ! i))
    \<and> ev_resolve ev (length before) u out = Answered (rp_body resp)
    \<and> is_ok (validateDNSResponse q (rp_body resp))"
proof -
  obtain q out src svs where rq: "parseHTTPRequest lib rq = Ok q"
    "applyOutboundECS (lib_ipString lib) q (parseForwardedFor lib (rq_forwarded rq)) = Ok (out, src)"
    and slot: "serveSlot lib cacheGet cachePut ev q out src (sv\<lparr> sv_semaphore := sv_semaphore sv + 1, sv_pending := 0 \<rparr>) = (svs, Ok resp)"
    using assms(1) by (auto simp: serve_def split: option.splits if_splits res.splits prod.splits)
  obtain sv1 t where clk: "serviceNow ev 0 (sv\<lparr> sv_semaphore := sv_semaphore sv + 1, sv_pending := 0 \<rparr>) = (sv1, t)" by fastforce
  have hit: "rp_cacheHit resp" if "serveHit cfg ev q now en = Ok resp" for cfg now en
    by (rule serveHit_Ok [OF that])
  obtain now sv2 c where get: "boundedCacheCall (ev_get ev) (\<lambda>ctxErr. cacheGet ctxErr (pq_key q @ '':'' @ src) now) sv1 = (sv2, c)"
    and ups: "serveUpstreams cachePut ev q out (pq_key q @ '':'' @ src) 0
      (upstreamsForName lib (sv_configuration sv2) (questionName (pq_question q))) sv2 = (svs, Ok resp)"
    using slot clk assms(2) hit
    by (auto simp: serveSlot_def Let_def split: option.splits res.splits prod.splits)
  have cfg: "sv_configuration sv2 = sv_configuration sv"
    using boundedCacheCall_frame(1) [OF get] serviceNow_frame(1) [OF clk] by (simp add: sameFrame_def)
  show ?thesis
    by (rule serveUpstreams_answer [OF ups]) (use rq cfg in auto)
qed

theorem answer_from_first_good_upstream_witness:
  "\<exists>resp q. snd (serve exLib cacheGet cachePut (exEnv 5) (exRequest exQuery1) exService) = Ok resp
     \<and> parseHTTPRequest exLib (exRequest exQuery1) = Ok q \<and> is_ok (validateDNSResponse q (rp_body resp))"
proof -
  obtain sv1 resp where first: "serve exLib cacheGet cachePut (exEnv 5) (exRequest exQuery1) exService = (sv1, Ok resp)"
    "\<not> rp_cacheHit resp"
    by (rule exFirst_Ok)
  from answer_from_first_good_upstream [OF this] first(1) show ?thesis by auto
qed

text \<open>
  C15. The cache holds only sound entries: after any sequence of requests, in any
  environment (cancellations, clock faults, abandoned host calls, hostile upstreams), every
  entry is the normalized form of a response that was accepted for a query with that key, is
  cacheable, and expires after its TTL cut to the configured maximum.
\<close>

theorem cache_entries_sound:
  assumes "NewService cfg = Ok sv" and "cacheLookup (sv_cache (serveAll lib rqs sv)) k = Some en"
  shows "entryOk lib (applyConfigurationDefaults cfg) k en"
proof -
  have "sv_configuration sv = applyConfigurationDefaults cfg"
    using assms(1) by (auto simp: NewService_def Let_def)
  then show ?thesis
    using serveAll_sound [OF NewService_sound [OF assms(1)], of lib rqs] assms(2)
    by (auto simp: mc.serviceSound_def)
qed

theorem cache_entries_sound_witness:
  "\<exists>k en. cacheLookup (sv_cache (serveAll exLib [(exEnv 5, exRequest exQuery1)] exService)) k = Some en
     \<and> entryOk exLib (applyConfigurationDefaults emptyConfiguration) k en"
proof -
  obtain sv1 resp k where first: "serve exLib cacheGet cachePut (exEnv 5) (exRequest exQuery1) exService = (sv1, Ok resp)"
    "cacheLookup (sv_cache sv1) k \<noteq> None"
    by (rule exFirst_Ok)
  then obtain en where "cacheLookup (sv_cache (serveAll exLib [(exEnv 5, exRequest exQuery1)] exService)) k = Some en"
    by auto
  with cache_entries_sound [OF exService_new] show ?thesis by blast
qed

text \<open>
  C16. No request, header or upstream response makes the service panic.
\<close>

theorem serve_total: "snd (serve lib cacheGet cachePut ev rq sv) \<noteq> Panic"
  by (rule serve_no_panic)

end
