(* ===== verification/Doh_Lifecycle.thy ===== *)
theory Doh_Lifecycle
  imports Doh_Service
begin

text \<open>
  The concurrency of \<^verbatim>\<open>src/plugins/doh/service.go\<close>: the semaphore slot that outlives a
  request while abandoned host calls run (\<^verbatim>\<open>requestSlot\<close>), and the shutdown protocol of
  \<^verbatim>\<open>beginRequest\<close>, its release function and \<^verbatim>\<open>Close\<close>. Each critical section under a mutex
  is one step; the steps interleave freely.
\<close>

section \<open>Request slots\<close>

record requestSlot =
  sl_pending :: nat
  sl_returnedToCaller :: bool
  sl_released :: bool

definition newRequestSlot :: requestSlot where
  "newRequestSlot = \<lparr> sl_pending = 0, sl_returnedToCaller = False, sl_released = False \<rparr>"

definition beginCall :: "requestSlot \<Rightarrow> requestSlot" where
  "beginCall slot = slot\<lparr> sl_pending := sl_pending slot + 1 \<rparr>"

text \<open>The function \<^verbatim>\<open>beginCall\<close> returns, and \<^verbatim>\<open>returned\<close>; the flag says whether to release.\<close>

definition endCall :: "requestSlot \<Rightarrow> requestSlot \<times> bool" where
  "endCall slot =
     (let slot1 = slot\<lparr> sl_pending := sl_pending slot - 1 \<rparr>;
          shouldRelease = (sl_returnedToCaller slot1 \<and> sl_pending slot1 = 0 \<and> \<not> sl_released slot1)
      in (if shouldRelease then slot1\<lparr> sl_released := True \<rparr> else slot1, shouldRelease))"

definition slotReturned :: "requestSlot \<Rightarrow> requestSlot \<times> bool" where
  "slotReturned slot =
     (let slot1 = slot\<lparr> sl_returnedToCaller := True \<rparr>;
          shouldRelease = (sl_pending slot1 = 0 \<and> \<not> sl_released slot1)
      in (if shouldRelease then slot1\<lparr> sl_released := True \<rparr> else slot1, shouldRelease))"

text \<open>
  The life of a slot. A call ends once (\<^verbatim>\<open>sync.Once\<close>), so an end needs a pending call; the
  request begins calls only before it returns. The second component counts releases.
\<close>

inductive slotRun :: "requestSlot \<Rightarrow> nat \<Rightarrow> bool" where
  slotNew: "slotRun newRequestSlot 0"
| slotBegin: "slotRun slot n \<Longrightarrow> \<not> sl_returnedToCaller slot \<Longrightarrow> slotRun (beginCall slot) n"
| slotEnd: "slotRun slot n \<Longrightarrow> 0 < sl_pending slot \<Longrightarrow> endCall slot = (slot', rel) \<Longrightarrow>
    slotRun slot' (n + of_bool rel)"
| slotReturn: "slotRun slot n \<Longrightarrow> slotReturned slot = (slot', rel) \<Longrightarrow> slotRun slot' (n + of_bool rel)"

lemma slotRun_count:
  "slotRun slot n \<Longrightarrow> n = of_bool (sl_released slot)
    \<and> sl_released slot = (sl_returnedToCaller slot \<and> sl_pending slot = 0)"
  by (induction rule: slotRun.induct)
    (auto simp: newRequestSlot_def beginCall_def endCall_def slotReturned_def Let_def split: if_splits)

section \<open>Shutdown\<close>

text \<open>
  \<open>lc_zero\<close> numbers the channel \<^verbatim>\<open>requestZero\<close> points to, \<open>lc_zeroClosed\<close> says whether
  that channel is closed (an older channel was replaced when the count was zero, so it is closed); \<open>lc_captured\<close> is the channel the goroutine of \<^verbatim>\<open>Close\<close> waits for.
\<close>

record lifecycle =
  lc_live :: bool
  lc_count :: nat
  lc_zero :: nat
  lc_zeroClosed :: bool
  lc_captured :: "nat option"
  lc_cleaned :: bool

definition lifecycleNew :: lifecycle where
  "lifecycleNew = \<lparr> lc_live = True, lc_count = 0, lc_zero = 0, lc_zeroClosed = True, lc_captured = None, lc_cleaned = False \<rparr>"

definition lcBegin :: "lifecycle \<Rightarrow> lifecycle option" where
  "lcBegin s = (if \<not> lc_live s then None
     else Some (let s1 = (if lc_count s = 0 then s\<lparr> lc_zero := lc_zero s + 1, lc_zeroClosed := False \<rparr> else s)
       in s1\<lparr> lc_count := lc_count s1 + 1 \<rparr>))"

definition lcRelease :: "lifecycle \<Rightarrow> lifecycle" where
  "lcRelease s = (let s1 = s\<lparr> lc_count := lc_count s - 1 \<rparr> in
     if lc_count s1 = 0 then s1\<lparr> lc_zeroClosed := True \<rparr> else s1)"

definition lcRevoke :: "lifecycle \<Rightarrow> lifecycle" where
  "lcRevoke s = s\<lparr> lc_live := False \<rparr>"

definition lcCapture :: "lifecycle \<Rightarrow> lifecycle" where
  "lcCapture s = s\<lparr> lc_captured := Some (lc_zero s) \<rparr>"

text \<open>
  The interleavings: requests begin and release (each request releases once, so a release needs
  an open request); \<^verbatim>\<open>Close\<close> revokes the service, then its goroutine captures the channel,
  waits until it is closed and resets the cache.
\<close>

inductive lcStep :: "lifecycle \<Rightarrow> lifecycle \<Rightarrow> bool" where
  stepBegin: "lcBegin s = Some s' \<Longrightarrow> lcStep s s'"
| stepRelease: "0 < lc_count s \<Longrightarrow> lcStep s (lcRelease s)"
| stepRevoke: "lcStep s (lcRevoke s)"
| stepCapture: "\<not> lc_live s \<Longrightarrow> lc_captured s = None \<Longrightarrow> lcStep s (lcCapture s)"
| stepCleanup: "lc_captured s = Some g \<Longrightarrow> g < lc_zero s \<or> lc_zeroClosed s \<Longrightarrow> \<not> lc_cleaned s \<Longrightarrow>
    lcStep s (s\<lparr> lc_cleaned := True \<rparr>)"

definition lcReachable :: "lifecycle \<Rightarrow> bool" where
  "lcReachable s \<longleftrightarrow> lcStep\<^sup>*\<^sup>* lifecycleNew s"

definition lcInv :: "lifecycle \<Rightarrow> bool" where
  "lcInv s \<longleftrightarrow> (lc_zeroClosed s \<longleftrightarrow> lc_count s = 0)
     \<and> (\<forall>g. lc_captured s = Some g \<longrightarrow> \<not> lc_live s \<and> g = lc_zero s)
     \<and> (lc_cleaned s \<longrightarrow> lc_captured s \<noteq> None \<and> lc_count s = 0)"

inductive_cases lcStepE: "lcStep s s'"

lemma lcInv_step: "lcInv s \<Longrightarrow> lcStep s s' \<Longrightarrow> lcInv s'"
  by (erule lcStepE)
    (auto simp: lcInv_def lcBegin_def lcRelease_def lcRevoke_def lcCapture_def Let_def split: if_splits)

lemma lcInv_reachable: "lcReachable s \<Longrightarrow> lcInv s"
  unfolding lcReachable_def
proof (induction rule: rtranclp_induct)
  case base
  show ?case by (simp add: lcInv_def lifecycleNew_def)
next
  case (step y z)
  then show ?case by (blast intro: lcInv_step)
qed

lemma lcReachable_step: "lcReachable s \<Longrightarrow> lcStep s s' \<Longrightarrow> lcReachable s'"
  by (auto simp: lcReachable_def)

lemma lcRelease_keeps [simp]:
  "lc_live (lcRelease s) = lc_live s" "lc_captured (lcRelease s) = lc_captured s"
  "lc_cleaned (lcRelease s) = lc_cleaned s" "lc_count (lcRelease s) = lc_count s - 1"
  by (simp_all add: lcRelease_def Let_def)

text \<open>When every open request releases, the count reaches zero.\<close>

lemma lcRelease_all:
  "k \<le> lc_count s \<Longrightarrow>
    lcStep\<^sup>*\<^sup>* s ((lcRelease ^^ k) s) \<and> lc_count ((lcRelease ^^ k) s) = lc_count s - k
    \<and> lc_captured ((lcRelease ^^ k) s) = lc_captured s \<and> lc_cleaned ((lcRelease ^^ k) s) = lc_cleaned s"
proof (induction k)
  case (Suc k)
  then have "lcStep ((lcRelease ^^ k) s) ((lcRelease ^^ Suc k) s)" by (simp add: stepRelease)
  with Suc show ?case by auto
qed simp

section \<open>Properties\<close>

text \<open>
  C17. A semaphore slot is given back exactly once: at every point of every run the slot has
  been released exactly when the request has returned and none of its host calls is pending, and
  it has been released at most once.
\<close>

theorem slot_released_once:
  assumes "slotRun slot n"
  shows "n = (if sl_returnedToCaller slot \<and> sl_pending slot = 0 then 1 else 0)"
  using slotRun_count [OF assms] by auto

theorem slot_released_once_witness:
  "\<exists>slot. slotRun slot 1 \<and> sl_returnedToCaller slot \<and> sl_pending slot = 0"
proof -
  have "slotRun (beginCall newRequestSlot) 0"
    by (rule slotBegin [OF slotNew]) (simp add: newRequestSlot_def)
  then have "slotRun \<lparr> sl_pending = 1, sl_returnedToCaller = True, sl_released = False \<rparr> (0 + of_bool False)"
    by (rule slotReturn) (simp add: slotReturned_def beginCall_def newRequestSlot_def)
  then have "slotRun \<lparr> sl_pending = 0, sl_returnedToCaller = True, sl_released = True \<rparr> (0 + of_bool False + of_bool True)"
    by (rule slotEnd) (simp_all add: endCall_def)
  then have run: "slotRun \<lparr> sl_pending = 0, sl_returnedToCaller = True, sl_released = True \<rparr> 1" by simp
  with slot_released_once [OF run] show ?thesis by auto
qed

text \<open>
  C18. The cache is reset only after the last request: in every reachable state in which the
  cleanup of \<^verbatim>\<open>Close\<close> has run, no request is open and the service is revoked, so that none
  can begin any more, in any continuation.
\<close>

theorem close_after_last_request:
  assumes "lcReachable s" and "lc_cleaned s" and "lcStep\<^sup>*\<^sup>* s s'"
  shows "lc_count s' = 0 \<and> lcBegin s' = None"
proof -
  have "lcReachable s'" using assms(1,3) by (auto simp: lcReachable_def)
  moreover have "lc_cleaned s'"
    using assms(3,2)
  proof (induction rule: rtranclp_induct)
    case (step y z)
    then show ?case
      by (auto elim!: lcStepE simp: lcBegin_def lcRelease_def lcRevoke_def lcCapture_def Let_def split: if_splits)
  qed simp
  ultimately show ?thesis
    using lcInv_reachable [of s'] by (auto simp: lcInv_def lcBegin_def)
qed

theorem close_after_last_request_witness:
  "\<exists>s. lcReachable s \<and> lc_cleaned s \<and> lc_count s = 0 \<and> lcBegin s = None"
proof -
  define s1 where "s1 = lcCapture (lcRevoke lifecycleNew)"
  have "lcStep lifecycleNew (lcRevoke lifecycleNew)" by (rule stepRevoke)
  then have "lcReachable (lcRevoke lifecycleNew)" by (auto simp: lcReachable_def)
  moreover have "lcStep (lcRevoke lifecycleNew) s1"
    unfolding s1_def by (rule stepCapture) (simp_all add: lcRevoke_def lifecycleNew_def)
  moreover have "lcStep s1 (s1\<lparr> lc_cleaned := True \<rparr>)"
    by (rule stepCleanup [of _ 0]) (simp_all add: s1_def lcRevoke_def lcCapture_def lifecycleNew_def)
  ultimately have r: "lcReachable (s1\<lparr> lc_cleaned := True \<rparr>)"
    by (blast intro: lcReachable_step)
  from close_after_last_request [OF r, of "s1\<lparr> lc_cleaned := True \<rparr>"] r show ?thesis
    by (intro exI [of _ "s1\<lparr> lc_cleaned := True \<rparr>"]) simp
qed

text \<open>
  C19. A shutdown does not hang on finished requests: once \<^verbatim>\<open>Close\<close> waits, the release of
  the open requests, one step each, brings the service to a state in which the cleanup step can
  be taken.
\<close>

theorem close_completes:
  assumes "lcReachable s" and "lc_captured s = Some g" and "\<not> lc_cleaned s"
  shows "lcStep\<^sup>*\<^sup>* s ((lcRelease ^^ lc_count s) s)
    \<and> lcStep ((lcRelease ^^ lc_count s) s) (((lcRelease ^^ lc_count s) s)\<lparr> lc_cleaned := True \<rparr>)"
proof -
  let ?t = "(lcRelease ^^ lc_count s) s"
  have t: "lcStep\<^sup>*\<^sup>* s ?t" "lc_count ?t = 0" "lc_captured ?t = Some g" "\<not> lc_cleaned ?t"
    using lcRelease_all [of "lc_count s" s] assms by auto
  have "lcReachable ?t" using assms(1) t(1) by (auto simp: lcReachable_def)
  then have "lc_zeroClosed ?t" using lcInv_reachable [of ?t] t(2) by (simp add: lcInv_def)
  then have "lcStep ?t (?t\<lparr> lc_cleaned := True \<rparr>)" using t by (intro stepCleanup) auto
  with t(1) show ?thesis by simp
qed

theorem close_completes_witness:
  "\<exists>s t. lcReachable s \<and> lc_count s = 1 \<and> lcStep t (t\<lparr> lc_cleaned := True \<rparr>) \<and> t = lcRelease s"
proof -
  define s0 where "s0 = \<lparr> lc_live = True, lc_count = 1, lc_zero = 1, lc_zeroClosed = False, lc_captured = None, lc_cleaned = False \<rparr>"
  have "lcStep lifecycleNew s0"
    by (rule stepBegin) (simp add: lcBegin_def lifecycleNew_def s0_def)
  then have "lcReachable s0" by (auto simp: lcReachable_def)
  then have "lcReachable (lcRevoke s0)" by (rule lcReachable_step) (rule stepRevoke)
  then have r: "lcReachable (lcCapture (lcRevoke s0))"
    by (rule lcReachable_step) (rule stepCapture, simp_all add: lcRevoke_def s0_def)
  have "lc_captured (lcCapture (lcRevoke s0)) = Some 1" "\<not> lc_cleaned (lcCapture (lcRevoke s0))"
    "lc_count (lcCapture (lcRevoke s0)) = 1"
    by (simp_all add: lcRevoke_def lcCapture_def s0_def)
  with close_completes [OF r] r show ?thesis
    by (intro exI [of _ "lcCapture (lcRevoke s0)"] exI [of _ "lcRelease (lcCapture (lcRevoke s0))"]) simp
qed

end
