(* ===== verification/Go_State.thy ===== *)
theory Go_State
  imports Go_Prelude "HOL-Library.State_Monad"
begin

text \<open>
  Stateful Go code as programs of the state monad: a program takes the state of the world and
  gives a result and the new state. Proofs run a program symbolically with \<open>wp\<close>, the
  condition on the initial state under which the result and the final state satisfy a predicate.
\<close>

named_theorems wp_simps \<open>symbolic execution of the primitive actions\<close>

abbreviation ret :: "'a \<Rightarrow> ('s, 'a) state" where
  "ret \<equiv> State_Monad.return"

definition wp :: "('s, 'a) state \<Rightarrow> ('a \<Rightarrow> 's \<Rightarrow> bool) \<Rightarrow> 's \<Rightarrow> bool" where
  "wp m Q s = (case run_state m s of (a, s') \<Rightarrow> Q a s')"

lemma wp_ret [wp_simps]: "wp (ret x) Q s = Q x s"
  by (simp add: wp_def)

lemma wp_bind [wp_simps]: "wp (State_Monad.bind m f) Q s = wp m (\<lambda>x. wp (f x) Q) s"
  by (simp add: wp_def split: prod.splits)

lemma wp_State [wp_simps]: "wp (State f) Q s = (case f s of (a, s') \<Rightarrow> Q a s')"
  by (simp add: wp_def)

lemma wp_if [wp_simps]: "wp (if b then m else n) Q s = (if b then wp m Q s else wp n Q s)"
  by simp

lemma wp_let [wp_simps]: "wp (let x = e in m x) Q s = wp (m e) Q s"
  by simp

lemma wp_option [wp_simps]:
  "wp (case x of None \<Rightarrow> m | Some y \<Rightarrow> n y) Q s = (case x of None \<Rightarrow> wp m Q s | Some y \<Rightarrow> wp (n y) Q s)"
  by (cases x) auto

lemma wp_res [wp_simps]:
  "wp (case x of Ok y \<Rightarrow> m y | Err e \<Rightarrow> n e | Panic \<Rightarrow> p) Q s
    = (case x of Ok y \<Rightarrow> wp (m y) Q s | Err e \<Rightarrow> wp (n e) Q s | Panic \<Rightarrow> wp p Q s)"
  by (cases x) auto

lemma wp_sum [wp_simps]:
  "wp (case x of Inl y \<Rightarrow> m y | Inr z \<Rightarrow> n z) Q s = (case x of Inl y \<Rightarrow> wp (m y) Q s | Inr z \<Rightarrow> wp (n z) Q s)"
  by (cases x) auto

lemma wp_prod [wp_simps]: "wp (case x of (a, b) \<Rightarrow> m a b) Q s = (case x of (a, b) \<Rightarrow> wp (m a b) Q s)"
  by (cases x) auto

lemma wp_mono: "wp m Q s \<Longrightarrow> (\<And>a s'. Q a s' \<Longrightarrow> R a s') \<Longrightarrow> wp m R s"
  by (auto simp: wp_def split: prod.splits)

lemma wp_conj: "wp m Q s \<Longrightarrow> wp m R s \<Longrightarrow> wp m (\<lambda>a s'. Q a s' \<and> R a s') s"
  by (auto simp: wp_def split: prod.splits)

lemma wp_run: "wp m Q s \<Longrightarrow> run_state m s = (a, s') \<Longrightarrow> Q a s'"
  by (simp add: wp_def)

lemma wp_fst_snd: "wp m Q s \<longleftrightarrow> Q (fst (run_state m s)) (snd (run_state m s))"
  by (simp add: wp_def split: prod.splits)

end
