(* ===== verification/Docker_Model.thy ===== *)
theory Docker_Model
  imports Go_Strings "HOL-Library.List_Lexorder" "HOL-Library.Char_ord"
begin

text \<open>
  The applications of \<^verbatim>\<open>src/plugins/docker-app\<close>: the catalog entry with its validation
  (\<^verbatim>\<open>model.go\<close>), the operations on the catalog (\<^verbatim>\<open>adopt.go\<close>, \<^verbatim>\<open>lifecycle.go\<close>) and image
  references with tags and digests (\<^verbatim>\<open>semver.go\<close>, \<^verbatim>\<open>plugin_call.go\<close>, \<^verbatim>\<open>rollout.go\<close>).
  A Go map is an association list in the order the code happens to iterate over it. The range
  grammar of the semver library is the parameter \<open>validRange\<close>, the Unicode case tables are
  the parameter \<open>lower\<close>.
\<close>

section \<open>Errors\<close>

text \<open>
  The error values of the package. \<open>ErrText\<close> is an \<^verbatim>\<open>errors.New\<close> inside a function,
  \<open>ErrHost\<close> an error that comes from outside, \<open>ErrSafe\<close> a \<^verbatim>\<open>SafeError\<close>, which keeps the
  class and no cause, and \<open>ErrJoin\<close> the result of \<^verbatim>\<open>errors.Join\<close> on two errors.
\<close>

datatype docker_error =
    ErrTypedHandlesUnavailable | ErrUnauthorized | ErrBoundExceeded | ErrInvalidCompose | ErrMissingComposeImage
  | ErrDeleteUnconfirmed | ErrEngineNotReady | ErrAgentOffline | ErrAppAgentConflict | ErrUnknownService
  | ErrAuditRequired | ErrInvalidPreview | ErrOperationFailed | ErrReconcilePending | ErrStateConflict
  | ErrText string | ErrHost nat | ErrSafe docker_error | ErrJoin docker_error docker_error

type_synonym 'a dk = "(docker_error, 'a) res"

definition safeFailure :: "docker_error \<Rightarrow> docker_error \<Rightarrow> docker_error" where
  "safeFailure cls err = ErrSafe cls"

section \<open>Bounded text\<close>

definition MaxApps :: nat where "MaxApps = 128"
definition MaxComposeServices :: nat where "MaxComposeServices = 128"
definition MaxCollectionItems :: nat where "MaxCollectionItems = 256"
definition MaxSecretRefs :: nat where "MaxSecretRefs = MaxCollectionItems"
definition MaxConfigBytes :: nat where "MaxConfigBytes = 1048576"

definition idChar :: "char \<Rightarrow> bool" where
  "idChar c \<longleftrightarrow> \<not> ((c < CHR ''a'' \<or> c > CHR ''z'') \<and> (c < CHR ''0'' \<or> c > CHR ''9'') \<and> c \<noteq> CHR ''-'')"

definition validID :: "string \<Rightarrow> bool" where
  "validID value =
     (if value = [] \<or> length value > 64 \<or> value ! 0 = CHR ''-'' \<or> value ! (length value - 1) = CHR ''-'' then False
      else list_all idChar value)"

definition boundedText :: "string \<Rightarrow> nat \<Rightarrow> bool" where
  "boundedText value maximum \<longleftrightarrow>
     value \<noteq> [] \<and> length value \<le> maximum \<and> \<not> containsAny value [CHR 0x00, CHR 0x0D, CHR 0x0A]"

definition boundedCompose :: "string \<Rightarrow> nat \<Rightarrow> bool" where
  "boundedCompose value maximum \<longleftrightarrow> value \<noteq> [] \<and> length value \<le> maximum \<and> CHR 0x00 \<notin> set value"

definition validAgentID :: "string \<Rightarrow> bool" where
  "validAgentID value = boundedText value 128"

fun sortedUniqueLoop :: "string option \<Rightarrow> string list \<Rightarrow> unit dk" where
  "sortedUniqueLoop prev [] = Ok ()"
| "sortedUniqueLoop prev (value # rest) =
     (if \<not> boundedText value 512 then Err (ErrText ''collection value is invalid'')
      else if prev = Some value then Err (ErrText ''collection contains a duplicate value'')
      else sortedUniqueLoop (Some value) rest)"

definition sortedUnique :: "string list \<Rightarrow> nat \<Rightarrow> string list dk" where
  "sortedUnique vals maximum =
     (if length vals > maximum then Err ErrBoundExceeded
      else let result = sort vals in rbind (sortedUniqueLoop None result) (\<lambda>_. Ok result))"

section \<open>Applications\<close>

record app =
  ap_id :: string
  ap_agentID :: string
  ap_compose :: string
  ap_generation :: string
  ap_secretRefs :: "string list"
  ap_autoUpdate :: "bool option"
  ap_imageLocks :: "(string \<times> string) list"
  ap_ignoredUpdates :: "(string \<times> string list) list"
  ap_image :: string
  ap_serviceImages :: "(string \<times> string) list"
  ap_ruleRef :: string
  ap_workDir :: string
  ap_env :: string

fun validateLockEntries :: "(string \<Rightarrow> bool) \<Rightarrow> (string \<times> string) list \<Rightarrow> unit dk" where
  "validateLockEntries validRange [] = Ok ()"
| "validateLockEntries validRange ((service, lock) # rest) =
     (if \<not> validID service then Err (ErrText ''image lock service is invalid'')
      else if trimSpace lock = [] \<or> \<not> validRange (trimSpace lock) \<or> \<not> boundedText (trimSpace lock) 128
      then Err (ErrText ''image lock is invalid'')
      else validateLockEntries validRange rest)"

definition validateImageLocks :: "(string \<Rightarrow> bool) \<Rightarrow> (string \<times> string) list \<Rightarrow> unit dk" where
  "validateImageLocks validRange vals =
     (if length vals > MaxComposeServices then Err ErrBoundExceeded else validateLockEntries validRange vals)"

fun validateIgnoredTags :: "string list \<Rightarrow> string list \<Rightarrow> unit dk" where
  "validateIgnoredTags seen [] = Ok ()"
| "validateIgnoredTags seen (tag # rest) =
     (if \<not> boundedText tag 128 then Err (ErrText ''ignored update tag is invalid'')
      else if tag \<in> set seen then Err (ErrText ''collection contains a duplicate value'')
      else validateIgnoredTags (tag # seen) rest)"

fun validateIgnoredEntries :: "(string \<times> string list) list \<Rightarrow> unit dk" where
  "validateIgnoredEntries [] = Ok ()"
| "validateIgnoredEntries ((service, tags) # rest) =
     (if \<not> validID service then Err (ErrText ''ignored update service is invalid'')
      else if length tags > MaxCollectionItems then Err ErrBoundExceeded
      else rbind (validateIgnoredTags [] tags) (\<lambda>_. validateIgnoredEntries rest))"

definition validateIgnoredUpdates :: "(string \<times> string list) list \<Rightarrow> unit dk" where
  "validateIgnoredUpdates vals =
     (if length vals > MaxComposeServices then Err ErrBoundExceeded else validateIgnoredEntries vals)"

definition appValidate :: "(string \<Rightarrow> bool) \<Rightarrow> app \<Rightarrow> unit dk" where
  "appValidate validRange a =
     (if \<not> validID (ap_id a) \<or> \<not> boundedText (ap_generation a) 128 then Err (ErrText ''app id or generation is invalid'')
      else if ap_compose a \<noteq> [] \<and> \<not> boundedCompose (ap_compose a) MaxConfigBytes then Err ErrInvalidCompose
      else if length (ap_env a) > MaxConfigBytes \<or> CHR 0x00 \<in> set (ap_env a) then Err (ErrText ''compose environment is invalid'')
      else if \<not> boundedText (ap_image a) 512 then Err (ErrText ''app image is invalid'')
      else if ap_agentID a \<noteq> [] \<and> \<not> validAgentID (ap_agentID a) then Err (ErrText ''agent_id is invalid'')
      else if ap_ruleRef a \<noteq> [] \<and> \<not> boundedText (ap_ruleRef a) 128 then Err (ErrText ''rule_ref is invalid'')
      else if length (ap_secretRefs a) > MaxSecretRefs then Err ErrBoundExceeded
      else if \<not> list_all (\<lambda>reference. boundedText reference 128) (ap_secretRefs a) then Err (ErrText ''secret reference is invalid'')
      else rbind (sortedUnique (ap_secretRefs a) MaxSecretRefs) (\<lambda>_.
        rbind (validateImageLocks validRange (ap_imageLocks a)) (\<lambda>_.
          validateIgnoredUpdates (ap_ignoredUpdates a))))"

section \<open>The catalog\<close>

definition RegisterManaged :: "(string \<Rightarrow> bool) \<Rightarrow> app list \<Rightarrow> app \<Rightarrow> app list dk" where
  "RegisterManaged validRange apps a =
     rbind (appValidate validRange a) (\<lambda>_.
       if length apps + 1 > MaxApps then Err ErrBoundExceeded
       else if list_ex (\<lambda>existing. ap_id existing = ap_id a) apps then Err (ErrText ''app id is duplicated'')
       else Ok (apps @ [a]))"

fun replaceApp :: "app \<Rightarrow> app list \<Rightarrow> app list option" where
  "replaceApp a [] = None"
| "replaceApp a (existing # rest) =
     (if ap_id existing = ap_id a then Some (a # rest) else map_option ((#) existing) (replaceApp a rest))"

definition UpsertManaged :: "(string \<Rightarrow> bool) \<Rightarrow> app list \<Rightarrow> app \<Rightarrow> app list dk" where
  "UpsertManaged validRange apps a =
     rbind (appValidate validRange a) (\<lambda>_.
       case replaceApp a apps of Some result \<Rightarrow> Ok result | None \<Rightarrow> RegisterManaged validRange apps a)"

definition RemoveManaged :: "app list \<Rightarrow> string \<Rightarrow> app list" where
  "RemoveManaged apps appID = filter (\<lambda>a. ap_id a \<noteq> appID) apps"

fun bindAppToAgent :: "app \<Rightarrow> app list \<Rightarrow> string \<Rightarrow> app dk" where
  "bindAppToAgent a apps agentID =
     (if \<not> validAgentID agentID then Err ErrAgentOffline
      else if list_ex (\<lambda>existing. ap_id existing = ap_id a \<and> ap_agentID existing \<noteq> [] \<and> ap_agentID existing \<noteq> agentID) apps
      then Err ErrAppAgentConflict
      else Ok (a\<lparr> ap_agentID := agentID \<rparr>))"

section \<open>Image references\<close>

definition isHexDigest :: "string \<Rightarrow> bool" where
  "isHexDigest value \<longleftrightarrow> value \<noteq> [] \<and>
     list_all (\<lambda>c. CHR ''0'' \<le> c \<and> c \<le> CHR ''9'' \<or> CHR ''a'' \<le> c \<and> c \<le> CHR ''f'' \<or> CHR ''A'' \<le> c \<and> c \<le> CHR ''F'') value"

definition trimQuotes :: "string \<Rightarrow> string" where
  "trimQuotes s = (let q = (\<lambda>c. c = CHR 0x22 \<or> c = CHR 0x27) in rev (dropWhile q (rev (dropWhile q s))))"

definition digestCore :: "(string \<Rightarrow> string) \<Rightarrow> string \<Rightarrow> string" where
  "digestCore lower raw =
     (let value = trimQuotes (trimSpace raw);
          value = (case lastIndexByte CHR ''@'' value of None \<Rightarrow> value | Some at \<Rightarrow> drop (at + 1) value)
      in case cutByte CHR '':'' value of (algo, hex, ok) \<Rightarrow>
        if \<not> ok then []
        else let algo = toLower lower (trimSpace algo); hex = toLower lower (trimSpace hex) in
          if algo \<noteq> ''sha256'' \<or> length hex < 8 \<or> \<not> isHexDigest hex then [] else algo @ '':'' @ hex)"

definition pinImageDigest :: "(string \<Rightarrow> string) \<Rightarrow> string \<Rightarrow> string \<Rightarrow> string" where
  "pinImageDigest lower img digest0 =
     (let digest = (if containsSub digest0 ''@'' then digestCore lower digest0 else digest0) in
      if digest = [] \<or> img = [] then img
      else let name = (case lastIndexByte CHR ''@'' img of None \<Rightarrow> img | Some at \<Rightarrow> take at img) in
        if name = [] then name
        else let pinned = name @ ''@'' @ digest in
          if \<not> boundedText pinned 512 then name else pinned)"

definition stripImageDigest :: "string \<Rightarrow> string" where
  "stripImageDigest ref0 =
     (let ref = trimSpace ref0 in
      case lastIndexByte CHR ''@'' ref of Some i \<Rightarrow> trimSpace (take i ref) | None \<Rightarrow> ref)"

definition extractDockerTag :: "string \<Rightarrow> string" where
  "extractDockerTag ref0 =
     (let ref = stripImageDigest ref0 in
      if ref = [] then []
      else let name = (case lastIndexByte CHR ''/'' ref of Some slash \<Rightarrow> drop (slash + 1) ref | None \<Rightarrow> ref) in
        case cutByte CHR '':'' name of (_, tag, found) \<Rightarrow>
          if found then tag else if containsSub ref ''/'' then [] else ref)"

definition splitDockerRepository :: "string \<Rightarrow> string \<times> string" where
  "splitDockerRepository img =
     (let ref = stripImageDigest img in
      if ref = [] then ([], [])
      else let name = (case lastIndexByte CHR ''/'' ref of Some slash \<Rightarrow> drop (slash + 1) ref | None \<Rightarrow> ref);
               ref = (case lastIndexByte CHR '':'' name of Some colon \<Rightarrow> take (length ref - length name + colon) ref | None \<Rightarrow> ref)
           in if ref = [] then ([], [])
           else case cutByte CHR ''/'' ref of (first, rest, found) \<Rightarrow>
             if \<not> found then (''docker.io'', ''library/'' @ ref)
             else if containsAny first ''.:'' \<or> first = ''localhost'' then (if rest = [] then ([], []) else (first, rest))
             else (''docker.io'', ref))"

definition replaceImageTag :: "string \<Rightarrow> string \<Rightarrow> string" where
  "replaceImageTag img0 tag0 =
     (let tag = extractDockerTag (trimSpace tag0); img = trimSpace img0 in
      if tag = [] \<or> img = [] then img
      else let img = (case lastIndexByte CHR ''@'' img of Some at \<Rightarrow> trimSpace (take at img) | None \<Rightarrow> img) in
        if img = [] then img
        else let name = (case lastIndexByte CHR ''/'' img of Some slash \<Rightarrow> drop (slash + 1) img | None \<Rightarrow> img);
                 img = (case lastIndexByte CHR '':'' name of Some colon \<Rightarrow> take (length img - length name + colon) img | None \<Rightarrow> img);
                 replaced = img @ '':'' @ tag
             in if \<not> boundedText replaced 512 then img else replaced)"

section \<open>Facts\<close>

text \<open>What the catalog promises: bounded, every entry valid, no identifier twice.\<close>

definition catalogInv :: "(string \<Rightarrow> bool) \<Rightarrow> app list \<Rightarrow> bool" where
  "catalogInv validRange apps \<longleftrightarrow> length apps \<le> MaxApps \<and> distinct (map ap_id apps)
     \<and> list_all (\<lambda>a. appValidate validRange a = Ok ()) apps"

lemma replaceApp_None: "replaceApp a apps = None \<longleftrightarrow> ap_id a \<notin> ap_id ` set apps"
  by (induction apps) auto

lemma replaceApp_Some:
  "replaceApp a apps = Some result \<Longrightarrow>
    map ap_id result = map ap_id apps \<and> set result \<subseteq> insert a (set apps) \<and> a \<in> set result
    \<and> (\<forall>b \<in> set apps. ap_id b \<noteq> ap_id a \<longrightarrow> b \<in> set result)"
  by (induction apps arbitrary: result) (auto split: if_splits)

lemma catalogInv_register:
  assumes "catalogInv v apps" "RegisterManaged v apps a = Ok result"
  shows "catalogInv v result \<and> result = apps @ [a]"
proof -
  have r: "appValidate v a = Ok ()" "length apps + 1 \<le> MaxApps" "ap_id a \<notin> ap_id ` set apps" "result = apps @ [a]"
    using assms(2) by (auto simp: RegisterManaged_def list_ex_iff image_iff split: if_splits)
  with assms(1) show ?thesis by (simp add: catalogInv_def)
qed

lemma catalogInv_upsert:
  assumes "catalogInv v apps" "UpsertManaged v apps a = Ok result"
  shows "catalogInv v result"
proof (cases "replaceApp a apps")
  case None
  with assms show ?thesis by (auto simp: UpsertManaged_def dest: catalogInv_register)
next
  case (Some r)
  with assms have "appValidate v a = Ok ()" "result = r" by (auto simp: UpsertManaged_def)
  moreover have "length r = length apps" using replaceApp_Some [OF Some] by (metis length_map)
  ultimately show ?thesis
    using assms(1) replaceApp_Some [OF Some] by (auto simp: catalogInv_def list_all_iff)
qed

lemma catalogInv_remove: "catalogInv v apps \<Longrightarrow> catalogInv v (RemoveManaged apps i)"
  by (auto simp: catalogInv_def RemoveManaged_def list_all_iff distinct_map inj_on_def
      intro: order_trans [OF length_filter_le])

end
