(* ===== verification/Docker_Store.thy ===== *)
theory Docker_Store
  imports Docker_Model "HOL-Library.AList"
begin

text \<open>
  The deployment records of \<^verbatim>\<open>src/plugins/docker-app/rollout.go\<close> and the two stores that keep
  them: the in-memory \<^verbatim>\<open>DeploymentStore\<close> and the \<^verbatim>\<open>persistedDeploymentStore\<close> of
  \<^verbatim>\<open>deployment_persist.go\<close>, which reads and rewrites a snapshot kept by the host. Both
  implement the interface \<^verbatim>\<open>DeploymentStateStore\<close>; the locale \<open>deployment_store\<close> states what a
  rollout relies on. Times are natural numbers, 0 is the zero \<^verbatim>\<open>time.Time\<close>.
\<close>

section \<open>Deployments\<close>

text \<open>\<open>PhaseUnset\<close> is the empty string; \<open>PhaseOther\<close> any value a stored snapshot may hold besides.\<close>

datatype rolloutPhase =
    PhaseUnset | PhasePulling | PhaseStarting | PhaseReadiness | PhaseCutover | PhaseDraining | PhaseActive
  | PhaseCleanupPending | PhaseRouteReconcile | PhaseOther string

record deploymentRevision =
  rv_instanceID :: string
  rv_image :: string
  rv_ruleRef :: string
  rv_ruleTarget :: string
  rv_generation :: string
  rv_imageDigest :: string

record deployment =
  dp_appID :: string
  dp_agentID :: string
  dp_instanceID :: string
  dp_image :: string
  dp_ruleRef :: string
  dp_ruleTarget :: string
  dp_generation :: string
  dp_phase :: rolloutPhase
  dp_pendingInstance :: string
  dp_desiredRuleTarget :: string
  dp_priorRuleTarget :: string
  dp_priorImage :: string
  dp_priorGeneration :: string
  dp_priorRuleRef :: string
  dp_priorInstance :: string
  dp_lastFailure :: string
  dp_lease :: string
  dp_leaseUntil :: nat
  dp_fencingToken :: u64
  dp_priorAbsent :: bool
  dp_imageDigest :: string
  dp_availableDigest :: string
  dp_priorDigest :: string
  dp_history :: "deploymentRevision list"

definition zeroDeployment :: deployment where
  "zeroDeployment = \<lparr> dp_appID = [], dp_agentID = [], dp_instanceID = [], dp_image = [], dp_ruleRef = [],
     dp_ruleTarget = [], dp_generation = [], dp_phase = PhaseUnset, dp_pendingInstance = [],
     dp_desiredRuleTarget = [], dp_priorRuleTarget = [], dp_priorImage = [], dp_priorGeneration = [],
     dp_priorRuleRef = [], dp_priorInstance = [], dp_lastFailure = [], dp_lease = [], dp_leaseUntil = 0,
     dp_fencingToken = 0, dp_priorAbsent = False, dp_imageDigest = [], dp_availableDigest = [],
     dp_priorDigest = [], dp_history = [] \<rparr>"

record deploymentRecord =
  dr_version :: u64
  dr_value :: deployment

text \<open>Reading a missing key of a Go map gives the zero value.\<close>

definition zeroRecord :: deploymentRecord where
  "zeroRecord = \<lparr> dr_version = 0, dr_value = zeroDeployment \<rparr>"

definition recordOf :: "deploymentRecord option \<Rightarrow> deploymentRecord" where
  "recordOf r = (case r of Some x \<Rightarrow> x | None \<Rightarrow> zeroRecord)"

definition fenceText :: "u64 \<Rightarrow> string" where
  "fenceText f = ''fence-'' @ itoa (unat f)"

text \<open>The record that an acquisition and a swap write.\<close>

definition leasedRecord :: "string \<Rightarrow> u64 \<Rightarrow> deployment \<Rightarrow> u64 \<Rightarrow> nat \<Rightarrow> deploymentRecord" where
  "leasedRecord i version v f until =
     \<lparr> dr_version = version + 1,
       dr_value = v\<lparr> dp_appID := i, dp_fencingToken := f, dp_lease := fenceText f, dp_leaseUntil := until \<rparr> \<rparr>"

definition swappedRecord :: "string \<Rightarrow> u64 \<Rightarrow> u64 \<Rightarrow> deployment \<Rightarrow> deploymentRecord" where
  "swappedRecord i version f v =
     \<lparr> dr_version = version + 1, dr_value = v\<lparr> dp_appID := i, dp_fencingToken := f \<rparr> \<rparr>"

section \<open>The interface\<close>

text \<open>
  What a call meets outside the process: an error when the snapshot is read, or an error
  when it is written, after which the write may have happened or not.
\<close>

record backendCall =
  bc_load :: "docker_error option"
  bc_store :: "(docker_error \<times> bool) option"

definition noFault :: backendCall where
  "noFault = \<lparr> bc_load = None, bc_store = None \<rparr>"

lemma noFault_sel [simp]: "bc_load noFault = None" "bc_store noFault = None"
  by (simp_all add: noFault_def)

record 'st storeOps =
  so_load :: "backendCall \<Rightarrow> string \<Rightarrow> 'st \<Rightarrow> deploymentRecord option dk"
  so_acquireLease :: "backendCall \<Rightarrow> string \<Rightarrow> u64 \<Rightarrow> deployment \<Rightarrow> nat \<Rightarrow> 'st \<Rightarrow> 'st \<times> deploymentRecord dk"
  so_compareAndSwap :: "backendCall \<Rightarrow> string \<Rightarrow> u64 \<Rightarrow> u64 \<Rightarrow> deployment \<Rightarrow> 'st \<Rightarrow> 'st \<times> deploymentRecord dk"
  so_deleteCAS :: "backendCall \<Rightarrow> string \<Rightarrow> u64 \<Rightarrow> u64 \<Rightarrow> 'st \<Rightarrow> 'st \<times> unit dk"

section \<open>The in-memory store\<close>

record deploymentStore =
  ds_values :: "(string \<times> deploymentRecord) list"
  ds_fences :: "(string \<times> u64) list"

definition NewDeploymentStore :: deploymentStore where
  "NewDeploymentStore = \<lparr> ds_values = [], ds_fences = [] \<rparr>"

definition fenceOf :: "(string \<times> u64) list \<Rightarrow> string \<Rightarrow> u64" where
  "fenceOf fs i = (case map_of fs i of Some f \<Rightarrow> f | None \<Rightarrow> 0)"

definition memLoad :: "backendCall \<Rightarrow> string \<Rightarrow> deploymentStore \<Rightarrow> deploymentRecord option dk" where
  "memLoad c i s = Ok (map_of (ds_values s) i)"

definition memAcquireLease ::
  "backendCall \<Rightarrow> string \<Rightarrow> u64 \<Rightarrow> deployment \<Rightarrow> nat \<Rightarrow> deploymentStore \<Rightarrow> deploymentStore \<times> deploymentRecord dk" where
  "memAcquireLease c i version v until s =
     (let current = recordOf (map_of (ds_values s) i) in
      if dr_version current \<noteq> version then (s, Err ErrStateConflict)
      else let f = fenceOf (ds_fences s) i + 1;
               nxt = leasedRecord i version v f until
           in (s\<lparr> ds_fences := AList.update i f (ds_fences s), ds_values := AList.update i nxt (ds_values s) \<rparr>, Ok nxt))"

definition memCompareAndSwap ::
  "backendCall \<Rightarrow> string \<Rightarrow> u64 \<Rightarrow> u64 \<Rightarrow> deployment \<Rightarrow> deploymentStore \<Rightarrow> deploymentStore \<times> deploymentRecord dk" where
  "memCompareAndSwap c i version fence v s =
     (let current = recordOf (map_of (ds_values s) i) in
      if dr_version current \<noteq> version \<or> dp_fencingToken (dr_value current) \<noteq> fence then (s, Err ErrStateConflict)
      else let nxt = swappedRecord i version fence v in
        (s\<lparr> ds_values := AList.update i nxt (ds_values s) \<rparr>, Ok nxt))"

definition memDeleteCAS ::
  "backendCall \<Rightarrow> string \<Rightarrow> u64 \<Rightarrow> u64 \<Rightarrow> deploymentStore \<Rightarrow> deploymentStore \<times> unit dk" where
  "memDeleteCAS c i version fence s =
     (case map_of (ds_values s) i of
        None \<Rightarrow> (s, Err ErrStateConflict)
      | Some current \<Rightarrow>
        if dr_version current \<noteq> version \<or> dp_fencingToken (dr_value current) \<noteq> fence then (s, Err ErrStateConflict)
        else (s\<lparr> ds_values := AList.delete i (ds_values s) \<rparr>, Ok ()))"

definition memPut :: "deployment \<Rightarrow> deploymentStore \<Rightarrow> deploymentStore" where
  "memPut v s =
     (let i = dp_appID v;
          current = recordOf (map_of (ds_values s) i);
          fences = (if dp_fencingToken v > fenceOf (ds_fences s) i then AList.update i (dp_fencingToken v) (ds_fences s) else ds_fences s)
      in s\<lparr> ds_fences := fences,
           ds_values := AList.update i \<lparr> dr_version = dr_version current + 1, dr_value = v \<rparr> (ds_values s) \<rparr>)"

definition memOps :: "deploymentStore storeOps" where
  "memOps = \<lparr> so_load = memLoad, so_acquireLease = memAcquireLease, so_compareAndSwap = memCompareAndSwap,
     so_deleteCAS = memDeleteCAS \<rparr>"

section \<open>The persisted store\<close>

text \<open>The state is the snapshot that the host keeps under its key, \<open>None\<close> before the first write.\<close>

record deploymentSnapshot =
  sn_records :: "(string \<times> deploymentRecord) list"
  sn_fences :: "(string \<times> u64) list"

definition emptyDeploymentSnapshot :: deploymentSnapshot where
  "emptyDeploymentSnapshot = \<lparr> sn_records = [], sn_fences = [] \<rparr>"

definition snapshotFits :: "deploymentSnapshot \<Rightarrow> bool" where
  "snapshotFits sn \<longleftrightarrow> length (sn_records sn) \<le> MaxApps \<and> length (sn_fences sn) \<le> MaxApps"

definition loadSnapshot :: "backendCall \<Rightarrow> deploymentSnapshot option \<Rightarrow> deploymentSnapshot dk" where
  "loadSnapshot c s = (case bc_load c of Some e \<Rightarrow> Err e
     | None \<Rightarrow> (case s of None \<Rightarrow> Ok emptyDeploymentSnapshot
         | Some sn \<Rightarrow> if \<not> snapshotFits sn then Err ErrTypedHandlesUnavailable else Ok sn))"

definition persistSnapshot ::
  "backendCall \<Rightarrow> deploymentSnapshot \<Rightarrow> deploymentSnapshot option \<Rightarrow> deploymentSnapshot option \<times> unit dk" where
  "persistSnapshot c sn s =
     (if \<not> snapshotFits sn then (s, Err ErrTypedHandlesUnavailable)
      else case bc_store c of
        None \<Rightarrow> (Some sn, Ok ())
      | Some (e, effect) \<Rightarrow> (if effect then Some sn else s, Err e))"

definition perLoad :: "backendCall \<Rightarrow> string \<Rightarrow> deploymentSnapshot option \<Rightarrow> deploymentRecord option dk" where
  "perLoad c i s = rbind (loadSnapshot c s) (\<lambda>sn. Ok (map_of (sn_records sn) i))"

definition perAcquireLease ::
  "backendCall \<Rightarrow> string \<Rightarrow> u64 \<Rightarrow> deployment \<Rightarrow> nat \<Rightarrow> deploymentSnapshot option \<Rightarrow>
   deploymentSnapshot option \<times> deploymentRecord dk" where
  "perAcquireLease c i version v until s = (case loadSnapshot c s of Err e \<Rightarrow> (s, Err e) | Panic \<Rightarrow> (s, Panic) | Ok sn \<Rightarrow>
     (let current = recordOf (map_of (sn_records sn) i) in
      if dr_version current \<noteq> version then (s, Err ErrStateConflict)
      else let f = fenceOf (sn_fences sn) i + 1;
               nxt = leasedRecord i version v f until
           in case persistSnapshot c (sn\<lparr> sn_fences := AList.update i f (sn_fences sn),
                  sn_records := AList.update i nxt (sn_records sn) \<rparr>) s of
             (s', r) \<Rightarrow> (s', rbind r (\<lambda>_. Ok nxt))))"

definition perCompareAndSwap ::
  "backendCall \<Rightarrow> string \<Rightarrow> u64 \<Rightarrow> u64 \<Rightarrow> deployment \<Rightarrow> deploymentSnapshot option \<Rightarrow>
   deploymentSnapshot option \<times> deploymentRecord dk" where
  "perCompareAndSwap c i version fence v s = (case loadSnapshot c s of Err e \<Rightarrow> (s, Err e) | Panic \<Rightarrow> (s, Panic) | Ok sn \<Rightarrow>
     (let current = recordOf (map_of (sn_records sn) i) in
      if dr_version current \<noteq> version \<or> dp_fencingToken (dr_value current) \<noteq> fence then (s, Err ErrStateConflict)
      else let nxt = swappedRecord i version fence v in
        case persistSnapshot c (sn\<lparr> sn_records := AList.update i nxt (sn_records sn) \<rparr>) s of
          (s', r) \<Rightarrow> (s', rbind r (\<lambda>_. Ok nxt))))"

definition perDeleteCAS ::
  "backendCall \<Rightarrow> string \<Rightarrow> u64 \<Rightarrow> u64 \<Rightarrow> deploymentSnapshot option \<Rightarrow> deploymentSnapshot option \<times> unit dk" where
  "perDeleteCAS c i version fence s = (case loadSnapshot c s of Err e \<Rightarrow> (s, Err e) | Panic \<Rightarrow> (s, Panic) | Ok sn \<Rightarrow>
     (case map_of (sn_records sn) i of
        None \<Rightarrow> (s, Err ErrStateConflict)
      | Some current \<Rightarrow>
        if dr_version current \<noteq> version \<or> dp_fencingToken (dr_value current) \<noteq> fence then (s, Err ErrStateConflict)
        else persistSnapshot c (sn\<lparr> sn_records := AList.delete i (sn_records sn), sn_fences := AList.delete i (sn_fences sn) \<rparr>) s))"

definition perOps :: "deploymentSnapshot option storeOps" where
  "perOps = \<lparr> so_load = perLoad, so_acquireLease = perAcquireLease, so_compareAndSwap = perCompareAndSwap,
     so_deleteCAS = perDeleteCAS \<rparr>"

section \<open>What a rollout relies on\<close>

text \<open>
  \<open>recOf\<close> is the abstract content of a store. A call that fails may still have taken effect,
  but nothing else happens: only the record of the given application changes, and only if the
  version (and for writes under a lease the token) matched.
\<close>

locale deployment_store =
  fixes ops :: "'st storeOps" and recOf :: "'st \<Rightarrow> string \<Rightarrow> deploymentRecord option"
  assumes load_Ok: "so_load ops c i s = Ok found \<Longrightarrow> found = recOf s i"
    and load_not_Panic: "so_load ops c i s \<noteq> Panic"
    and acquire_result: "so_acquireLease ops c i ver v until s = (s', r) \<Longrightarrow>
      (recOf s' = recOf s \<and> (\<exists>e. r = Err e))
      \<or> (dr_version (recordOf (recOf s i)) = ver \<and> (\<exists>f. recOf s' = (recOf s)(i \<mapsto> leasedRecord i ver v f until)
          \<and> (r = Ok (leasedRecord i ver v f until) \<or> (\<exists>e. r = Err e))))"
    and cas_result: "so_compareAndSwap ops c i ver f v s = (s', r) \<Longrightarrow>
      (recOf s' = recOf s \<and> (\<exists>e. r = Err e))
      \<or> (dr_version (recordOf (recOf s i)) = ver \<and> dp_fencingToken (dr_value (recordOf (recOf s i))) = f
          \<and> recOf s' = (recOf s)(i \<mapsto> swappedRecord i ver f v)
          \<and> (r = Ok (swappedRecord i ver f v) \<or> (\<exists>e. r = Err e)))"
    and delete_result: "so_deleteCAS ops c i ver f s = (s', r') \<Longrightarrow>
      (recOf s' = recOf s \<and> (\<exists>e. r' = Err e))
      \<or> (\<exists>cur. recOf s i = Some cur \<and> dr_version cur = ver \<and> dp_fencingToken (dr_value cur) = f
          \<and> recOf s' = (recOf s)(i := None) \<and> (r' = Ok () \<or> (\<exists>e. r' = Err e)))"

text \<open>A store that carries out every call whose version and token match.\<close>

locale reliable_store = deployment_store +
  assumes load_runs: "so_load ops noFault i s = Ok (recOf s i)"
    and acquire_runs: "dr_version (recordOf (recOf s i)) = ver \<Longrightarrow>
      \<exists>s' f. so_acquireLease ops noFault i ver v until s = (s', Ok (leasedRecord i ver v f until))"
    and cas_runs: "dr_version (recordOf (recOf s i)) = ver \<Longrightarrow> dp_fencingToken (dr_value (recordOf (recOf s i))) = f \<Longrightarrow>
      \<exists>s'. so_compareAndSwap ops noFault i ver f v s = (s', Ok (swappedRecord i ver f v))"
    and delete_runs: "recOf s i = Some cur \<Longrightarrow> dr_version cur = ver \<Longrightarrow> dp_fencingToken (dr_value cur) = f \<Longrightarrow>
      \<exists>s'. so_deleteCAS ops noFault i ver f s = (s', Ok ())"

definition memRecOf :: "deploymentStore \<Rightarrow> string \<Rightarrow> deploymentRecord option" where
  "memRecOf s = map_of (ds_values s)"

definition perRecOf :: "deploymentSnapshot option \<Rightarrow> string \<Rightarrow> deploymentRecord option" where
  "perRecOf s = (case s of None \<Rightarrow> Map.empty | Some sn \<Rightarrow> map_of (sn_records sn))"

lemmas memDefs = memLoad_def memAcquireLease_def memCompareAndSwap_def memDeleteCAS_def memOps_def memRecOf_def
lemmas perDefs = perLoad_def perAcquireLease_def perCompareAndSwap_def perDeleteCAS_def perOps_def perRecOf_def

interpretation mem: reliable_store memOps memRecOf
  by unfold_locales
    (auto simp: memDefs Let_def update_conv' delete_conv' split: if_splits option.splits)

lemma persistSnapshot_cases:
  assumes "persistSnapshot c sn s = (s', r)"
  obtains (unchanged) e where "s' = s" "r = Err e"
  | (written) "s' = Some sn" "r = Ok () \<or> (\<exists>e. r = Err e)"
  using assms by (auto simp: persistSnapshot_def split: if_splits option.splits)

lemma loadSnapshot_Ok: "loadSnapshot c s = Ok sn \<Longrightarrow> perRecOf s = map_of (sn_records sn)"
  by (auto simp: loadSnapshot_def perRecOf_def emptyDeploymentSnapshot_def split: option.splits if_splits)

lemma loadSnapshot_not_Panic [simp]: "loadSnapshot c s \<noteq> Panic"
  by (auto simp: loadSnapshot_def split: option.splits)

lemma perRecOf_Some [simp]: "perRecOf (Some sn) = map_of (sn_records sn)"
  by (simp add: perRecOf_def)

interpretation per: deployment_store perOps perRecOf
proof
  fix c i s r
  assume "so_load perOps c i s = Ok r"
  then show "r = perRecOf s i"
    by (auto simp: perOps_def perLoad_def dest: loadSnapshot_Ok)
next
  fix c i s
  show "so_load perOps c i s \<noteq> Panic"
    by (auto simp: perOps_def perLoad_def rbind_eq_Panic)
next
  fix c i ver v until s s' and r :: "deploymentRecord dk"
  assume "so_acquireLease perOps c i ver v until s = (s', r)"
  then show "(perRecOf s' = perRecOf s \<and> (\<exists>e. r = Err e))
      \<or> (dr_version (recordOf (perRecOf s i)) = ver \<and> (\<exists>f. perRecOf s' = (perRecOf s)(i \<mapsto> leasedRecord i ver v f until)
          \<and> (r = Ok (leasedRecord i ver v f until) \<or> (\<exists>e. r = Err e))))"
    by (auto simp: perOps_def perAcquireLease_def Let_def update_conv' dest!: loadSnapshot_Ok
        split: res.splits if_splits prod.splits elim!: persistSnapshot_cases)
next
  fix c i ver f v s s' and r :: "deploymentRecord dk"
  assume "so_compareAndSwap perOps c i ver f v s = (s', r)"
  then show "(perRecOf s' = perRecOf s \<and> (\<exists>e. r = Err e))
      \<or> (dr_version (recordOf (perRecOf s i)) = ver \<and> dp_fencingToken (dr_value (recordOf (perRecOf s i))) = f
          \<and> perRecOf s' = (perRecOf s)(i \<mapsto> swappedRecord i ver f v)
          \<and> (r = Ok (swappedRecord i ver f v) \<or> (\<exists>e. r = Err e)))"
    by (auto simp: perOps_def perCompareAndSwap_def Let_def update_conv' dest!: loadSnapshot_Ok
        split: res.splits if_splits prod.splits elim!: persistSnapshot_cases)
next
  fix c i ver f s s' and r' :: "unit dk"
  assume "so_deleteCAS perOps c i ver f s = (s', r')"
  then show "(perRecOf s' = perRecOf s \<and> (\<exists>e. r' = Err e))
      \<or> (\<exists>cur. perRecOf s i = Some cur \<and> dr_version cur = ver \<and> dp_fencingToken (dr_value cur) = f
          \<and> perRecOf s' = (perRecOf s)(i := None) \<and> (r' = Ok () \<or> (\<exists>e. r' = Err e)))"
    by (auto simp: perOps_def perDeleteCAS_def Let_def delete_conv' dest!: loadSnapshot_Ok
        split: res.splits if_splits prod.splits option.splits elim!: persistSnapshot_cases)
qed

section \<open>Fencing\<close>

text \<open>
  The calls of the interface \<^verbatim>\<open>DeploymentStateStore\<close> that write, by any holders, cooperating or
  not. The in-memory store has one more method, \<open>memPut\<close>, outside the interface: it seeds a
  record unconditionally.
\<close>

datatype storeOp =
    OpAcquire string u64 deployment nat
  | OpSwap string u64 u64 deployment
  | OpDelete string u64 u64

fun memStep :: "storeOp \<Rightarrow> deploymentStore \<Rightarrow> deploymentStore" where
  "memStep (OpAcquire i version v until) s = fst (memAcquireLease noFault i version v until s)"
| "memStep (OpSwap i version f v) s = fst (memCompareAndSwap noFault i version f v s)"
| "memStep (OpDelete i version f) s = fst (memDeleteCAS noFault i version f s)"

text \<open>Runs of the persisted store: every call comes with the faults of its host calls.\<close>

fun perStep :: "backendCall \<Rightarrow> storeOp \<Rightarrow> deploymentSnapshot option \<Rightarrow> deploymentSnapshot option" where
  "perStep c (OpAcquire i version v until) s = fst (perAcquireLease c i version v until s)"
| "perStep c (OpSwap i version f v) s = fst (perCompareAndSwap c i version f v s)"
| "perStep c (OpDelete i version f) s = fst (perDeleteCAS c i version f s)"

fun perRun :: "(backendCall \<times> storeOp) list \<Rightarrow> deploymentSnapshot option \<Rightarrow> deploymentSnapshot option" where
  "perRun [] s = s"
| "perRun ((c, x) # xs) s = perRun xs (perStep c x s)"

fun deletesApp :: "string \<Rightarrow> storeOp \<Rightarrow> bool" where
  "deletesApp i (OpDelete j _ _) = (j = i)"
| "deletesApp i _ = False"

text \<open>
  Token \<open>f\<close> has been superseded: the counter and the record are past it, or the record was
  created without a lease (a swap of version 0 and token 0 on a missing record).
\<close>

definition superseded :: "u64 \<Rightarrow> string \<Rightarrow> deploymentStore \<Rightarrow> bool" where
  "superseded f i s \<longleftrightarrow> f < fenceOf (ds_fences s) i
     \<and> (\<forall>r. memRecOf s i = Some r \<longrightarrow> dp_fencingToken (dr_value r) = 0 \<or> f < dp_fencingToken (dr_value r))"

lemma fenceOf_update: "fenceOf (AList.update i f fs) j = (if j = i then f else fenceOf fs j)"
  by (simp add: fenceOf_def update_conv')

lemma token_leased [simp]: "dp_fencingToken (dr_value (leasedRecord i ver v f until)) = f"
  and token_swapped [simp]: "dp_fencingToken (dr_value (swappedRecord i ver f v)) = f"
  by (simp_all add: leasedRecord_def swappedRecord_def)

lemma next_token: "unat (f :: u64) + 1 < 2 ^ 64 \<Longrightarrow> f < f + 1 \<and> unat (f + 1) = unat f + 1"
  by (simp add: word_less_nat_alt unat_word_ariths)

lemma memStep_fence:
  assumes "unat (fenceOf (ds_fences s) i) + 1 < 2 ^ 64"
  shows "fenceOf (ds_fences s) i \<le> fenceOf (ds_fences (memStep x s)) i
    \<and> unat (fenceOf (ds_fences (memStep x s)) i) \<le> unat (fenceOf (ds_fences s) i) + 1"
  using next_token [OF assms]
  by (cases x) (auto simp: memDefs Let_def fenceOf_update word_le_nat_alt split: option.splits)

lemma superseded_step:
  assumes "superseded f i s" and "unat (fenceOf (ds_fences s) i) + 1 < 2 ^ 64"
  shows "superseded f i (memStep x s)"
proof -
  have up: "f < fenceOf (ds_fences s) i + 1"
    using assms next_token [OF assms(2)] by (auto simp: superseded_def intro: less_trans)
  show ?thesis
    using assms(1) up
    by (cases x) (auto simp: superseded_def memDefs Let_def fenceOf_update update_conv' delete_conv' recordOf_def zeroRecord_def zeroDeployment_def
        split: option.splits if_splits)
qed

lemma delete_update_missing: "map_of al k = None \<Longrightarrow> AList.delete k (AList.update k v al) = al"
  by (induction al) (auto split: if_splits)

lemma length_update_again: "length (AList.update k v (AList.update k u al)) = length (AList.update k u al)"
  by (induction al) auto

section \<open>The persisted store against the in-memory one\<close>

definition perAbs :: "deploymentSnapshot option \<Rightarrow> deploymentStore" where
  "perAbs s = (case s of None \<Rightarrow> NewDeploymentStore
     | Some sn \<Rightarrow> \<lparr> ds_values = sn_records sn, ds_fences = sn_fences sn \<rparr>)"

text \<open>
  A call of the persisted store changes nothing, does what the in-memory store does, or, when
  it deletes another application, leaves the counter and the record of this one alone.
\<close>

lemma loadSnapshot_abs: "loadSnapshot c s = Ok sn \<Longrightarrow> perAbs s = \<lparr> ds_values = sn_records sn, ds_fences = sn_fences sn \<rparr>"
  by (auto simp: loadSnapshot_def perAbs_def NewDeploymentStore_def emptyDeploymentSnapshot_def split: option.splits if_splits)

lemma perAbs_Some [simp]: "perAbs (Some sn) = \<lparr> ds_values = sn_records sn, ds_fences = sn_fences sn \<rparr>"
  by (simp add: perAbs_def)

lemma memRecOf_perAbs: "memRecOf (perAbs s) = perRecOf s"
  by (auto simp: memRecOf_def perRecOf_def perAbs_def NewDeploymentStore_def split: option.splits)

lemma perStep_cases:
  assumes "\<not> deletesApp i x"
  obtains (unchanged) "perAbs (perStep c x s) = perAbs s"
  | (stepped) "perAbs (perStep c x s) = memStep x (perAbs s)"
  | (other) "fenceOf (ds_fences (perAbs (perStep c x s))) i = fenceOf (ds_fences (perAbs s)) i"
      "memRecOf (perAbs (perStep c x s)) i = memRecOf (perAbs s) i"
proof (cases "loadSnapshot c s")
  case (Ok sn)
  note abs = loadSnapshot_abs [OF Ok]
  show ?thesis
  proof (cases x)
    case (OpAcquire j version v until)
    then have "perAbs (perStep c x s) = perAbs s \<or> perAbs (perStep c x s) = memStep x (perAbs s)"
      using Ok abs by (auto simp: perAcquireLease_def memAcquireLease_def Let_def split: if_splits prod.splits elim!: persistSnapshot_cases)
    with unchanged stepped show ?thesis by blast
  next
    case (OpSwap j version f v)
    then have "perAbs (perStep c x s) = perAbs s \<or> perAbs (perStep c x s) = memStep x (perAbs s)"
      using Ok abs by (auto simp: perCompareAndSwap_def memCompareAndSwap_def Let_def split: if_splits prod.splits elim!: persistSnapshot_cases)
    with unchanged stepped show ?thesis by blast
  next
    case (OpDelete j version f)
    obtain s' r where w: "persistSnapshot c (sn\<lparr> sn_records := AList.delete j (sn_records sn), sn_fences := AList.delete j (sn_fences sn) \<rparr>) s = (s', r)"
      by fastforce
    have "j \<noteq> i" using assms OpDelete by simp
    have "perStep c x s = s \<or> perStep c x s = s'"
      using Ok OpDelete w by (auto simp: perDeleteCAS_def split: option.splits)
    with w \<open>j \<noteq> i\<close> abs unchanged other show ?thesis
      by (elim persistSnapshot_cases disjE) (auto simp: memRecOf_def fenceOf_def delete_conv')
  qed
next
  case (Err e)
  then have "perStep c x s = s" by (cases x) (simp_all add: perDefs)
  with unchanged show ?thesis by simp
qed simp

lemma perStep_fence:
  assumes "\<not> deletesApp i x" and "unat (fenceOf (ds_fences (perAbs s)) i) + 1 < 2 ^ 64"
  shows "fenceOf (ds_fences (perAbs s)) i \<le> fenceOf (ds_fences (perAbs (perStep c x s))) i
    \<and> unat (fenceOf (ds_fences (perAbs (perStep c x s))) i) \<le> unat (fenceOf (ds_fences (perAbs s)) i) + 1"
  using assms(1) by (rule perStep_cases [of i x c s]) (use memStep_fence [OF assms(2)] in simp_all)

lemma perStep_superseded:
  assumes "\<not> deletesApp i x" and "superseded f i (perAbs s)" and "unat (fenceOf (ds_fences (perAbs s)) i) + 1 < 2 ^ 64"
  shows "superseded f i (perAbs (perStep c x s))"
  using assms(1)
  by (rule perStep_cases [of i x c s]) (use assms(2) superseded_step [OF assms(2,3)] in \<open>simp_all add: superseded_def\<close>)

lemma perRun_keeps:
  assumes "unat (fenceOf (ds_fences (perAbs s)) i) + length xs < 2 ^ 64" and "\<not> list_ex (\<lambda>(_, x). deletesApp i x) xs"
  shows "superseded f i (perAbs s) \<Longrightarrow> superseded f i (perAbs (perRun xs s))"
    and "fenceOf (ds_fences (perAbs s)) i \<le> fenceOf (ds_fences (perAbs (perRun xs s))) i
      \<and> unat (fenceOf (ds_fences (perAbs (perRun xs s))) i) \<le> unat (fenceOf (ds_fences (perAbs s)) i) + length xs"
  using assms
proof (induction xs arbitrary: s)
  case (Cons cx xs)
  obtain c x where cx: "cx = (c, x)" by fastforce
  {
    case 1
    with cx Cons.IH(1) [of "perStep c x s"] perStep_fence [of i x s c] perStep_superseded [of i x f s c] show ?case by force
  next
    case 2
    with cx Cons.IH(2) [of "perStep c x s"] perStep_fence [of i x s c] show ?case by force
  }
qed simp_all

text \<open>The error of a refused call: that of reading the snapshot, or the conflict.\<close>

definition refusal :: "backendCall \<Rightarrow> deploymentSnapshot option \<Rightarrow> docker_error" where
  "refusal c s = (case loadSnapshot c s of Err e \<Rightarrow> e | _ \<Rightarrow> ErrStateConflict)"

lemma superseded_refused:
  assumes "superseded f i (perAbs s)" and "f \<noteq> 0"
  shows "perCompareAndSwap c i version f v s = (s, Err (refusal c s))"
    and "perDeleteCAS c i version f s = (s, Err (refusal c s))"
  using assms by (auto simp: superseded_def memRecOf_perAbs perCompareAndSwap_def perDeleteCAS_def refusal_def Let_def
      recordOf_def zeroRecord_def zeroDeployment_def dest!: loadSnapshot_Ok split: option.splits res.splits)

text \<open>Room for one more application, which is what a write may need.\<close>

definition perRoom :: "deploymentSnapshot option \<Rightarrow> bool" where
  "perRoom s \<longleftrightarrow> length (ds_values (perAbs s)) < MaxApps \<and> length (ds_fences (perAbs s)) < MaxApps"

lemma length_update_le: "length (AList.update k v al) \<le> Suc (length al)"
  by (induction al) (auto split: prod.splits)

lemma length_update_bound: "length al < n \<Longrightarrow> length (AList.update k v al) \<le> n"
  using length_update_le [of k v al] by simp

lemma length_delete_le: "length (AList.delete k al) \<le> length al"
  by (simp add: AList.delete_eq)

lemma perRoom_load: "perRoom s \<Longrightarrow> loadSnapshot noFault s =
    Ok \<lparr> sn_records = ds_values (perAbs s), sn_fences = ds_fences (perAbs s) \<rparr>"
  by (auto simp: perRoom_def loadSnapshot_def noFault_def snapshotFits_def perAbs_def NewDeploymentStore_def
      emptyDeploymentSnapshot_def split: option.splits)

lemma perRoom_persist:
  assumes "perRoom s" "length (sn_records sn) \<le> Suc (length (ds_values (perAbs s)))"
    "length (sn_fences sn) \<le> Suc (length (ds_fences (perAbs s)))"
  shows "persistSnapshot noFault sn s = (Some sn, Ok ())"
  using assms by (auto simp: perRoom_def persistSnapshot_def snapshotFits_def noFault_def)

lemma perAcquireLease_refines:
  assumes "perRoom s"
  shows "map_prod perAbs id (perAcquireLease noFault i version v until s) = memAcquireLease noFault i version v until (perAbs s)"
proof -
  have "persistSnapshot noFault \<lparr> sn_records = AList.update i r (ds_values (perAbs s)), sn_fences = AList.update i f (ds_fences (perAbs s)) \<rparr> s
    = (Some \<lparr> sn_records = AList.update i r (ds_values (perAbs s)), sn_fences = AList.update i f (ds_fences (perAbs s)) \<rparr>, Ok ())" for r f
    using assms by (intro perRoom_persist) (auto intro: length_update_le)
  then show ?thesis
    using assms by (simp add: perAcquireLease_def memAcquireLease_def perRoom_load Let_def perAbs_def)
qed

lemma perCompareAndSwap_refines:
  assumes "perRoom s"
  shows "map_prod perAbs id (perCompareAndSwap noFault i version f v s) = memCompareAndSwap noFault i version f v (perAbs s)"
proof -
  have "persistSnapshot noFault \<lparr> sn_records = AList.update i r (ds_values (perAbs s)), sn_fences = ds_fences (perAbs s) \<rparr> s
    = (Some \<lparr> sn_records = AList.update i r (ds_values (perAbs s)), sn_fences = ds_fences (perAbs s) \<rparr>, Ok ())" for r
    using assms by (intro perRoom_persist) (auto intro: length_update_le)
  then show ?thesis
    using assms by (simp add: perCompareAndSwap_def memCompareAndSwap_def perRoom_load Let_def perAbs_def)
qed

lemma perAcquireLease_Ok:
  assumes "perAcquireLease c i version v until s = (s', Ok r)"
  shows "dp_fencingToken (dr_value r) = fenceOf (ds_fences (perAbs s)) i + 1"
    and "fenceOf (ds_fences (perAbs s')) i = fenceOf (ds_fences (perAbs s)) i + 1"
    and "memRecOf (perAbs s') i = Some r"
proof -
  obtain sn where l: "loadSnapshot c s = Ok sn"
    using assms by (cases "loadSnapshot c s") (auto simp: perAcquireLease_def)
  with assms loadSnapshot_abs [OF l]
  show "dp_fencingToken (dr_value r) = fenceOf (ds_fences (perAbs s)) i + 1"
    and "fenceOf (ds_fences (perAbs s')) i = fenceOf (ds_fences (perAbs s)) i + 1"
    and "memRecOf (perAbs s') i = Some r"
    by (auto simp: perAcquireLease_def Let_def fenceOf_update update_conv' memRecOf_def
        split: if_splits prod.splits elim!: persistSnapshot_cases)
qed

section \<open>Properties\<close>


definition exampleDeployment :: deployment where
  "exampleDeployment = zeroDeployment\<lparr> dp_image := ''nginx'', dp_phase := PhasePulling \<rparr>"


text \<open>
  C21. The persisted store implements the in-memory store: without host faults and with room
  in the snapshot, loading, acquiring a lease and swapping a record return the same results and
  lead to the same content, call by call.
\<close>

theorem persisted_refines_memory:
  assumes "perRoom s"
  shows "perLoad noFault i s = memLoad noFault i (perAbs s)
    \<and> map_prod perAbs id (perAcquireLease noFault i version v until s) = memAcquireLease noFault i version v until (perAbs s)
    \<and> map_prod perAbs id (perCompareAndSwap noFault i version f v s) = memCompareAndSwap noFault i version f v (perAbs s)"
  using assms by (simp add: perAcquireLease_refines perCompareAndSwap_refines perLoad_def memLoad_def perRoom_load)

theorem persisted_refines_memory_witness:
  "map_prod perAbs id (perAcquireLease noFault ''web'' 0 exampleDeployment 10 None)
    = memAcquireLease noFault ''web'' 0 exampleDeployment 10 NewDeploymentStore"
proof -
  have "perRoom None" by (simp add: perRoom_def perAbs_def NewDeploymentStore_def MaxApps_def)
  from persisted_refines_memory [OF this, of "''web''" 0 exampleDeployment 10] show ?thesis
    by (simp add: perAbs_def)
qed

text \<open>
  C22. Deletion makes the persisted store forget its tokens: an application that is leased, deleted
  and leased again gets the same version and the same token a second time, and a write by the
  holder of the first lease is then accepted over the second holder's record.
\<close>

theorem persisted_token_reissued:
  assumes "perRoom s" and "map_of (ds_values (perAbs s)) i = None" and "map_of (ds_fences (perAbs s)) i = None"
  shows "\<exists>s1 r1 s2 s3 r2 s4 r3. perAcquireLease noFault i 0 v1 until1 s = (s1, Ok r1)
    \<and> perDeleteCAS noFault i (dr_version r1) (dp_fencingToken (dr_value r1)) s1 = (s2, Ok ())
    \<and> perAcquireLease noFault i 0 v2 until2 s2 = (s3, Ok r2)
    \<and> dp_fencingToken (dr_value r2) = dp_fencingToken (dr_value r1)
    \<and> perCompareAndSwap noFault i (dr_version r1) (dp_fencingToken (dr_value r1)) v3 s3 = (s4, Ok r3)"
proof -
  let ?V = "ds_values (perAbs s)" and ?F = "ds_fences (perAbs s)"
  have len: "length ?V < MaxApps" "length ?F < MaxApps" using assms(1) by (auto simp: perRoom_def)
  note fit = length_update_bound [OF len(1), of i] length_update_bound [OF len(2), of i]
  let ?s1 = "Some \<lparr> sn_records = AList.update i (leasedRecord i 0 v1 1 until1) ?V, sn_fences = AList.update i 1 ?F \<rparr>"
  let ?s2 = "Some \<lparr> sn_records = ?V, sn_fences = ?F \<rparr>"
  let ?s3 = "Some \<lparr> sn_records = AList.update i (leasedRecord i 0 v2 1 until2) ?V, sn_fences = AList.update i 1 ?F \<rparr>"
  have 1: "perAcquireLease noFault i 0 v1 until1 s = (?s1, Ok (leasedRecord i 0 v1 1 until1))"
    using assms fit len by (simp add: perAcquireLease_def perRoom_load recordOf_def zeroRecord_def fenceOf_def Let_def
        persistSnapshot_def snapshotFits_def)
  have 2: "perDeleteCAS noFault i 1 1 ?s1 = (?s2, Ok ())"
    using assms fit len by (simp add: perDeleteCAS_def loadSnapshot_def persistSnapshot_def snapshotFits_def update_conv' leasedRecord_def delete_update_missing)
  have 3: "perAcquireLease noFault i 0 v2 until2 ?s2 = (?s3, Ok (leasedRecord i 0 v2 1 until2))"
    using assms fit len by (simp add: perAcquireLease_def loadSnapshot_def recordOf_def zeroRecord_def fenceOf_def Let_def
        persistSnapshot_def snapshotFits_def)
  have 4: "\<exists>s4. perCompareAndSwap noFault i 1 1 v3 ?s3 = (s4, Ok (swappedRecord i 1 1 v3))"
    using assms fit len by (simp add: perCompareAndSwap_def loadSnapshot_def recordOf_def Let_def
        persistSnapshot_def snapshotFits_def update_conv' leasedRecord_def length_update_again)
  have "dr_version (leasedRecord i 0 v1 1 until1) = 1" by (simp add: leasedRecord_def)
  with 1 2 3 4 show ?thesis by (metis token_leased)
qed

theorem persisted_token_reissued_witness:
  "\<exists>s1 r1 s2 s3 r2 s4 r3. perAcquireLease noFault ''web'' 0 exampleDeployment 10 None = (s1, Ok r1)
    \<and> perDeleteCAS noFault ''web'' (dr_version r1) (dp_fencingToken (dr_value r1)) s1 = (s2, Ok ())
    \<and> perAcquireLease noFault ''web'' 0 exampleDeployment 20 s2 = (s3, Ok r2)
    \<and> dp_fencingToken (dr_value r2) = dp_fencingToken (dr_value r1)
    \<and> perCompareAndSwap noFault ''web'' (dr_version r1) (dp_fencingToken (dr_value r1)) zeroDeployment s3 = (s4, Ok r3)"
  by (rule persisted_token_reissued) (simp_all add: perRoom_def perAbs_def NewDeploymentStore_def MaxApps_def)

end
