(* ===== verification/Docker_Rollout.thy ===== *)
theory Docker_Rollout
  imports Docker_Store Go_State
begin

text \<open>
  The rollout engine of \<^verbatim>\<open>src/plugins/docker-app/rollout.go\<close>. A rollout is a program over a
  world: the deployment store, a log of what was asked of the host and recorded by the auditor,
  and a counter of interactions. What comes from outside is the environment \<open>rolloutEnv\<close>,
  indexed by that counter: the clock, the catalog guard that the caller put into the context,
  the faults of the store's backend, what other actors do to the store before a call, and the
  answer of the host to each call. Nothing is assumed about it here.
\<close>

section \<open>The world and the environment\<close>

record runtimeState =
  rs_ruleTarget :: string
  rs_candidateInstance :: string
  rs_instances :: "(string \<times> bool) list"

definition instanceUp :: "runtimeState \<Rightarrow> string \<Rightarrow> bool" where
  "instanceUp st i \<longleftrightarrow> map_of (rs_instances st) i = Some True"

text \<open>A call of the executor with its fencing token and its answer, and an audit record.\<close>

datatype hostEvent =
    EvPull u64 app "docker_error option"
  | EvStart u64 app string "docker_error option"
  | EvReady u64 app string "docker_error option"
  | EvCutover u64 string string "docker_error option"
  | EvDrain u64 app string "docker_error option"
  | EvRemove u64 app string "docker_error option"
  | EvInspect u64 app string "docker_error + runtimeState"
  | EvAudit string string string

record 'st world =
  w_store :: 'st
  w_log :: "hostEvent list"
  w_tick :: nat

record 'st rolloutEnv =
  re_ops :: "'st storeOps"
  re_hasAuditor :: bool
  re_hasStore :: bool
  re_hasExecutor :: bool
  re_leaseDuration :: nat
  re_validRange :: "string \<Rightarrow> bool"
  re_lower :: "string \<Rightarrow> string"
  re_pinCompose :: "string \<Rightarrow> string \<Rightarrow> string \<Rightarrow> string"
  re_now :: "nat \<Rightarrow> nat"
  re_live :: "nat \<Rightarrow> (app \<times> bool) option"
  re_call :: "nat \<Rightarrow> backendCall"
  re_other :: "nat \<Rightarrow> 'st \<Rightarrow> 'st"
  re_pull :: "nat \<Rightarrow> docker_error option"
  re_start :: "nat \<Rightarrow> string \<times> docker_error option"
  re_ready :: "nat \<Rightarrow> docker_error option"
  re_cutover :: "nat \<Rightarrow> docker_error option"
  re_drain :: "nat \<Rightarrow> docker_error option"
  re_remove :: "nat \<Rightarrow> docker_error option"
  re_inspect :: "nat \<Rightarrow> docker_error + runtimeState"

type_synonym ('st, 'a) rollout = "('st world, 'a) state"

section \<open>Primitive actions\<close>

definition tickA :: "(nat \<Rightarrow> 'a) \<Rightarrow> ('st, 'a) rollout" where
  "tickA f = State (\<lambda>w. (f (w_tick w), w\<lparr> w_tick := Suc (w_tick w) \<rparr>))"

definition logA :: "hostEvent \<Rightarrow> ('st, unit) rollout" where
  "logA e = State (\<lambda>w. ((), w\<lparr> w_log := w_log w @ [e] \<rparr>))"

definition storeA :: "'st rolloutEnv \<Rightarrow> (backendCall \<Rightarrow> 'st \<Rightarrow> 'st \<times> 'a dk) \<Rightarrow> ('st, 'a dk) rollout" where
  "storeA env f = State (\<lambda>w.
     case f (re_call env (w_tick w)) (re_other env (w_tick w) (w_store w)) of
       (s', r) \<Rightarrow> (r, w\<lparr> w_store := s', w_tick := Suc (w_tick w) \<rparr>))"

definition storeLoad :: "'st rolloutEnv \<Rightarrow> string \<Rightarrow> ('st, deploymentRecord option dk) rollout" where
  "storeLoad env i = storeA env (\<lambda>c s. (s, so_load (re_ops env) c i s))"

definition acquireLease :: "'st rolloutEnv \<Rightarrow> string \<Rightarrow> u64 \<Rightarrow> deployment \<Rightarrow> nat \<Rightarrow> ('st, deploymentRecord dk) rollout" where
  "acquireLease env i version v until = storeA env (\<lambda>c s. so_acquireLease (re_ops env) c i version v until s)"

definition compareAndSwap :: "'st rolloutEnv \<Rightarrow> string \<Rightarrow> u64 \<Rightarrow> u64 \<Rightarrow> deployment \<Rightarrow> ('st, deploymentRecord dk) rollout" where
  "compareAndSwap env i version f v = storeA env (\<lambda>c s. so_compareAndSwap (re_ops env) c i version f v s)"

definition deleteCAS :: "'st rolloutEnv \<Rightarrow> string \<Rightarrow> u64 \<Rightarrow> u64 \<Rightarrow> ('st, unit dk) rollout" where
  "deleteCAS env i version f = storeA env (\<lambda>c s. so_deleteCAS (re_ops env) c i version f s)"

definition audit :: "'st rolloutEnv \<Rightarrow> string \<Rightarrow> string \<Rightarrow> string \<Rightarrow> ('st, unit) rollout" where
  "audit env action outcome detail =
     (if re_hasAuditor env then logA (EvAudit action outcome detail) else ret ())"

definition execPull :: "'st rolloutEnv \<Rightarrow> u64 \<Rightarrow> app \<Rightarrow> ('st, docker_error option) rollout" where
  "execPull env f a = do { r \<leftarrow> tickA (re_pull env); logA (EvPull f a r); ret r }"

definition execStart :: "'st rolloutEnv \<Rightarrow> u64 \<Rightarrow> app \<Rightarrow> ('st, string \<times> docker_error option) rollout" where
  "execStart env f a = do { r \<leftarrow> tickA (re_start env); logA (EvStart f a (fst r) (snd r)); ret r }"

definition execReady :: "'st rolloutEnv \<Rightarrow> u64 \<Rightarrow> app \<Rightarrow> string \<Rightarrow> ('st, docker_error option) rollout" where
  "execReady env f a i = do { r \<leftarrow> tickA (re_ready env); logA (EvReady f a i r); ret r }"

definition execCutover :: "'st rolloutEnv \<Rightarrow> u64 \<Rightarrow> string \<Rightarrow> string \<Rightarrow> ('st, docker_error option) rollout" where
  "execCutover env f ruleRef target = do { r \<leftarrow> tickA (re_cutover env); logA (EvCutover f ruleRef target r); ret r }"

definition execDrain :: "'st rolloutEnv \<Rightarrow> u64 \<Rightarrow> app \<Rightarrow> string \<Rightarrow> ('st, docker_error option) rollout" where
  "execDrain env f a i = do { r \<leftarrow> tickA (re_drain env); logA (EvDrain f a i r); ret r }"

definition execRemove :: "'st rolloutEnv \<Rightarrow> u64 \<Rightarrow> app \<Rightarrow> string \<Rightarrow> ('st, docker_error option) rollout" where
  "execRemove env f a i = do { r \<leftarrow> tickA (re_remove env); logA (EvRemove f a i r); ret r }"

definition execInspect :: "'st rolloutEnv \<Rightarrow> u64 \<Rightarrow> app \<Rightarrow> string \<Rightarrow> ('st, docker_error + runtimeState) rollout" where
  "execInspect env f a ruleRef = do { r \<leftarrow> tickA (re_inspect env); logA (EvInspect f a ruleRef r); ret r }"

section \<open>Helpers\<close>

definition errorText :: "docker_error \<Rightarrow> string" where
  "errorText e = (if e = ErrInvalidPreview then ''preview does not match trusted inventory''
     else if e = ErrTypedHandlesUnavailable
     then ''canonical public SDK has no typed Docker, Compose, HTTP-rule, or dynamic UI handles''
     else ''broker operation failed'')"

text \<open>The error part of a result. The stores do not panic.\<close>

definition errOf :: "'a dk \<Rightarrow> docker_error option" where
  "errOf r = (case r of Ok _ \<Rightarrow> None | Err e \<Rightarrow> Some e | Panic \<Rightarrow> Some ErrOperationFailed)"

definition errJoin :: "docker_error \<Rightarrow> docker_error option \<Rightarrow> docker_error" where
  "errJoin e r = (case r of None \<Rightarrow> e | Some e' \<Rightarrow> ErrJoin e e')"

definition zeroApp :: app where
  "zeroApp = \<lparr> ap_id = [], ap_agentID = [], ap_compose = [], ap_generation = [], ap_secretRefs = [],
     ap_autoUpdate = None, ap_imageLocks = [], ap_ignoredUpdates = [], ap_image = [], ap_serviceImages = [],
     ap_ruleRef = [], ap_workDir = [], ap_env = [] \<rparr>"

definition deploymentApp :: "deployment \<Rightarrow> app" where
  "deploymentApp v = zeroApp\<lparr> ap_id := dp_appID v, ap_agentID := dp_agentID v, ap_image := dp_image v,
     ap_ruleRef := dp_ruleRef v, ap_generation := dp_generation v \<rparr>"

definition cutOverComplete :: "string \<Rightarrow> string \<Rightarrow> string \<Rightarrow> bool" where
  "cutOverComplete ruleRef observedTarget pending \<longleftrightarrow> ruleRef = [] \<or> observedTarget = pending"

definition rolloutBusy :: "deployment \<Rightarrow> bool \<Rightarrow> nat \<Rightarrow> bool" where
  "rolloutBusy v existed now \<longleftrightarrow> existed
     \<and> (dp_phase v \<noteq> PhaseUnset \<and> dp_phase v \<noteq> PhaseActive \<or> dp_lease v \<noteq> [] \<and> now < dp_leaseUntil v)"

definition priorInstanceAbsent :: "bool \<Rightarrow> string \<Rightarrow> bool" where
  "priorInstanceAbsent existed instanceID \<longleftrightarrow> \<not> existed \<or> instanceID = []"

definition publishedHistory :: "deployment \<Rightarrow> deploymentRevision list" where
  "publishedHistory v =
     (if dp_priorInstance v = [] \<and> dp_priorImage v = [] \<and> dp_priorDigest v = [] then dp_history v
      else [\<lparr> rv_instanceID = dp_priorInstance v, rv_image = dp_priorImage v, rv_ruleRef = dp_priorRuleRef v,
        rv_ruleTarget = dp_priorRuleTarget v, rv_generation = dp_priorGeneration v, rv_imageDigest = dp_priorDigest v \<rparr>])"

definition pinnedRuntimeApp :: "'st rolloutEnv \<Rightarrow> app \<Rightarrow> string \<Rightarrow> app" where
  "pinnedRuntimeApp env a digest =
     (if digest = [] then a
      else let img = pinImageDigest (re_lower env) (ap_image a) digest in
        a\<lparr> ap_image := img, ap_compose := re_pinCompose env (ap_compose a) img digest \<rparr>)"

definition leaseDuration :: "'st rolloutEnv \<Rightarrow> nat" where
  "leaseDuration env = (if re_leaseDuration env > 0 then re_leaseDuration env else 30000000000)"

definition leaseUntil :: "'st rolloutEnv \<Rightarrow> ('st, nat) rollout" where
  "leaseUntil env = do { now \<leftarrow> tickA (re_now env); ret (now + leaseDuration env) }"

definition phaseText :: "rolloutPhase \<Rightarrow> string" where
  "phaseText p = (case p of PhaseUnset \<Rightarrow> [] | PhasePulling \<Rightarrow> ''pulling'' | PhaseStarting \<Rightarrow> ''starting''
     | PhaseReadiness \<Rightarrow> ''readiness'' | PhaseCutover \<Rightarrow> ''cutover'' | PhaseDraining \<Rightarrow> ''draining''
     | PhaseActive \<Rightarrow> ''active'' | PhaseCleanupPending \<Rightarrow> ''cleanup-pending''
     | PhaseRouteReconcile \<Rightarrow> ''route-reconcile'' | PhaseOther s \<Rightarrow> s)"

definition progress :: "'st rolloutEnv \<Rightarrow> string \<Rightarrow> rolloutPhase \<Rightarrow> ('st, unit) rollout" where
  "progress env appID phase = audit env ''rollout.progress'' (phaseText phase) appID"

definition fail :: "'st rolloutEnv \<Rightarrow> docker_error \<Rightarrow> ('st, docker_error option) rollout" where
  "fail env err = do {
     audit env ''rollout'' ''failed'' (errorText ErrOperationFailed);
     ret (Some (safeFailure ErrOperationFailed err)) }"

definition requireObservationPersist :: "'st rolloutEnv \<Rightarrow> ('st, docker_error option) rollout" where
  "requireObservationPersist env = do {
     l \<leftarrow> tickA (re_live env);
     ret (case l of None \<Rightarrow> None | Some (_, ok) \<Rightarrow> if ok then None else Some ErrReconcilePending) }"

definition bindLiveCatalogApp :: "'st rolloutEnv \<Rightarrow> app \<Rightarrow> ('st, app dk) rollout" where
  "bindLiveCatalogApp env a = do {
     l \<leftarrow> tickA (re_live env);
     ret (case l of None \<Rightarrow> Ok a
       | Some (live, ok) \<Rightarrow>
         if \<not> ok then Err ErrReconcilePending
         else let b = a\<lparr> ap_compose := ap_compose live, ap_image := ap_image live, ap_generation := ap_generation live,
                    ap_autoUpdate := ap_autoUpdate live,
                    ap_agentID := (if ap_agentID live \<noteq> [] then ap_agentID live else ap_agentID a) \<rparr>
           in Ok (if ap_compose a \<noteq> [] \<and> ap_compose a \<noteq> ap_compose live
             then b\<lparr> ap_compose := ap_compose a, ap_image := ap_image a, ap_serviceImages := ap_serviceImages a \<rparr>
             else b)) }"

definition abandonStalePublish :: "'st rolloutEnv \<Rightarrow> deploymentRecord \<Rightarrow> ('st, docker_error option) rollout" where
  "abandonStalePublish env record = (let v = dr_value record in
     if dp_appID v \<noteq> [] \<and> dp_fencingToken v \<noteq> 0
     then do { _ \<leftarrow> deleteCAS env (dp_appID v) (dr_version record) (dp_fencingToken v); ret (Some ErrReconcilePending) }
     else ret (Some ErrReconcilePending))"

definition intent ::
  "'st rolloutEnv \<Rightarrow> deploymentRecord \<Rightarrow> rolloutPhase \<Rightarrow> string \<Rightarrow> string \<Rightarrow> string \<Rightarrow> ('st, deploymentRecord dk) rollout" where
  "intent env record phase pending actual desired = (let v = dr_value record in
     compareAndSwap env (dp_appID v) (dr_version record) (dp_fencingToken v)
       (v\<lparr> dp_phase := phase, dp_pendingInstance := pending, dp_ruleTarget := actual, dp_desiredRuleTarget := desired \<rparr>))"

definition release :: "'st rolloutEnv \<Rightarrow> deploymentRecord \<Rightarrow> docker_error \<Rightarrow> ('st, docker_error option) rollout" where
  "release env record result = (let v = dr_value record in do {
     r \<leftarrow> compareAndSwap env (dp_appID v) (dr_version record) (dp_fencingToken v) (v\<lparr> dp_lease := [], dp_leaseUntil := 0 \<rparr>);
     ret (Some (errJoin result (errOf r))) })"

section \<open>Historical rollback\<close>

definition historicalRollbackIntent :: "deployment \<Rightarrow> deploymentRevision \<Rightarrow> deployment" where
  "historicalRollbackIntent current r = current\<lparr>
     dp_phase := PhaseCutover, dp_pendingInstance := rv_instanceID r, dp_desiredRuleTarget := rv_instanceID r,
     dp_priorInstance := dp_instanceID current, dp_priorImage := dp_image current, dp_priorGeneration := dp_generation current,
     dp_priorRuleRef := dp_ruleRef current, dp_priorRuleTarget := dp_ruleTarget current, dp_priorDigest := dp_imageDigest current,
     dp_priorAbsent := False, dp_image := rv_image r, dp_ruleRef := rv_ruleRef r, dp_generation := rv_generation r,
     dp_imageDigest := rv_imageDigest r, dp_availableDigest := [] \<rparr>"

definition historicalRollbackPending :: "deployment \<Rightarrow> bool" where
  "historicalRollbackPending v =
     (if dp_pendingInstance v = [] then False
      else list_ex (\<lambda>r. rv_instanceID r = dp_pendingInstance v) (dp_history v))"

definition clearHistoryInstance :: "deploymentRevision list \<Rightarrow> string \<Rightarrow> deploymentRevision list" where
  "clearHistoryInstance history instanceID =
     (if instanceID = [] then history
      else map (\<lambda>r. if rv_instanceID r = instanceID then r\<lparr> rv_instanceID := [] \<rparr> else r) history)"

definition forgetGoneHistoryInstance ::
  "'st rolloutEnv \<Rightarrow> deploymentRecord \<Rightarrow> deploymentRevision list \<Rightarrow> string \<Rightarrow> ('st, deploymentRevision list) rollout" where
  "forgetGoneHistoryInstance env record history instanceID =
     (if instanceID = [] \<or> history = [] then ret history
      else let v = dr_value record in do {
        r \<leftarrow> execInspect env (dp_fencingToken v) (deploymentApp v) (dp_ruleRef v);
        ret (case r of Inl e \<Rightarrow> history
          | Inr st \<Rightarrow> if instanceUp st instanceID then history else clearHistoryInstance history instanceID) })"

definition restoreHistoricalPrior ::
  "'st rolloutEnv \<Rightarrow> deploymentRecord \<Rightarrow> runtimeState \<Rightarrow> string \<Rightarrow> string \<Rightarrow> bool \<Rightarrow> ('st, docker_error option) rollout" where
  "restoreHistoricalPrior env record st priorInstance pending pendingExists =
     (let v = dr_value record; fence = dp_fencingToken v in
      if dp_priorAbsent v \<or> priorInstance = [] \<or> \<not> instanceUp st priorInstance then release env record ErrReconcilePending
      else do {
        failed \<leftarrow> (if rs_ruleTarget st \<noteq> dp_priorRuleTarget v \<and> dp_priorRuleRef v \<noteq> [] \<and> dp_priorRuleTarget v \<noteq> []
          then execCutover env fence (dp_priorRuleRef v) (dp_priorRuleTarget v) else ret None);
        case failed of
          Some e \<Rightarrow> release env record (safeFailure ErrOperationFailed e)
        | None \<Rightarrow> do {
            r \<leftarrow> compareAndSwap env (dp_appID v) (dr_version record) fence (zeroDeployment\<lparr>
              dp_appID := dp_appID v, dp_agentID := dp_agentID v, dp_instanceID := priorInstance, dp_image := dp_priorImage v,
              dp_ruleRef := dp_priorRuleRef v, dp_ruleTarget := dp_priorRuleTarget v, dp_generation := dp_priorGeneration v,
              dp_phase := PhaseActive, dp_fencingToken := fence, dp_imageDigest := dp_priorDigest v,
              dp_history := (if pendingExists then dp_history v else clearHistoryInstance (dp_history v) pending) \<rparr>);
            ret (errOf r) } })"

definition restoreActive ::
  "'st rolloutEnv \<Rightarrow> deploymentRecord \<Rightarrow> deployment \<Rightarrow> bool \<Rightarrow> docker_error \<Rightarrow> ('st, docker_error option) rollout" where
  "restoreActive env record original routeMayPending cause =
     (let target = (if dp_ruleTarget original = [] then dp_instanceID original else dp_ruleTarget original);
          fence = dp_fencingToken (dr_value record) in do {
      failed \<leftarrow> (if routeMayPending \<and> dp_ruleRef original \<noteq> [] \<and> target \<noteq> []
        then execCutover env fence (dp_ruleRef original) target else ret None);
      r \<leftarrow> compareAndSwap env (dp_appID (dr_value record)) (dr_version record) fence (original\<lparr>
        dp_appID := dp_appID (dr_value record), dp_phase := PhaseActive, dp_fencingToken := fence, dp_lease := [],
        dp_leaseUntil := 0, dp_pendingInstance := [], dp_desiredRuleTarget := [] \<rparr>);
      fail env (errJoin (errJoin cause failed) (errOf r)) })"

definition abortHistoricalRollback ::
  "'st rolloutEnv \<Rightarrow> deploymentRecord \<Rightarrow> deployment \<Rightarrow> bool \<Rightarrow> docker_error \<Rightarrow> ('st, docker_error option) rollout" where
  "abortHistoricalRollback env record original routeMayPending cause = do {
     history \<leftarrow> forgetGoneHistoryInstance env record (dp_history original) (dp_pendingInstance (dr_value record));
     restoreActive env record (original\<lparr> dp_history := history \<rparr>) routeMayPending cause }"

section \<open>Reconciliation\<close>

text \<open>The branch of \<^verbatim>\<open>reconcileRecord\<close> that completes a cut-over rollout.\<close>

definition reconcileFinish ::
  "'st rolloutEnv \<Rightarrow> deploymentRecord \<Rightarrow> deployment \<Rightarrow> string \<Rightarrow> string \<Rightarrow> bool \<Rightarrow> ('st, docker_error option) rollout" where
  "reconcileFinish env record v priorInstance pending priorExists = (let fence = dp_fencingToken v in do {
     drained \<leftarrow> (if priorExists then execDrain env fence (deploymentApp v) priorInstance else ret None);
     case drained of
       Some e \<Rightarrow> release env record (safeFailure ErrOperationFailed e)
     | None \<Rightarrow> do {
         post \<leftarrow> execInspect env fence (deploymentApp v) (dp_ruleRef v);
         case post of
           Inl e \<Rightarrow> release env record ErrReconcilePending
         | Inr st \<Rightarrow>
           if \<not> instanceUp st pending \<or> \<not> cutOverComplete (dp_ruleRef v) (rs_ruleTarget st) pending
           then release env record ErrReconcilePending
           else do {
             r \<leftarrow> compareAndSwap env (dp_appID v) (dr_version record) fence (zeroDeployment\<lparr>
               dp_appID := dp_appID v, dp_agentID := dp_agentID v, dp_instanceID := pending, dp_image := dp_image v,
               dp_ruleRef := dp_ruleRef v, dp_ruleTarget := pending, dp_generation := dp_generation v, dp_phase := PhaseActive,
               dp_fencingToken := fence, dp_imageDigest := dp_imageDigest v, dp_history := publishedHistory v \<rparr>);
             ret (errOf r) } } })"

text \<open>The end of \<^verbatim>\<open>reconcileRecord\<close>: check what is left and write the prior state back.\<close>

definition reconcileSettle ::
  "'st rolloutEnv \<Rightarrow> deploymentRecord \<Rightarrow> deployment \<Rightarrow> string \<Rightarrow> string \<Rightarrow> ('st, docker_error option) rollout" where
  "reconcileSettle env record v priorInstance pending = (let fence = dp_fencingToken v in do {
     r \<leftarrow> execInspect env fence (deploymentApp v) (if dp_priorAbsent v then dp_ruleRef v else dp_priorRuleRef v);
     case r of
       Inl e \<Rightarrow> release env record ErrReconcilePending
     | Inr post \<Rightarrow>
       if pending \<noteq> [] \<and> instanceUp post pending then release env record ErrReconcilePending
       else if dp_priorAbsent v then
         (if pending \<noteq> [] \<and> rs_ruleTarget post = pending then release env record ErrReconcilePending
          else if dp_priorImage v \<noteq> [] \<or> dp_priorDigest v \<noteq> [] \<or> dp_priorGeneration v \<noteq> [] then do {
            r \<leftarrow> compareAndSwap env (dp_appID v) (dr_version record) fence (zeroDeployment\<lparr>
              dp_appID := dp_appID v, dp_agentID := dp_agentID v, dp_image := dp_priorImage v, dp_ruleRef := dp_priorRuleRef v,
              dp_generation := dp_priorGeneration v, dp_phase := PhaseActive, dp_fencingToken := fence,
              dp_imageDigest := dp_priorDigest v, dp_availableDigest := dp_availableDigest v, dp_history := dp_history v \<rparr>);
            ret (errOf r) }
          else do { r \<leftarrow> deleteCAS env (dp_appID v) (dr_version record) fence; ret (errOf r) })
       else if \<not> instanceUp post priorInstance \<or> \<not> cutOverComplete (dp_priorRuleRef v) (rs_ruleTarget post) (dp_priorRuleTarget v)
       then release env record ErrReconcilePending
       else do {
         r \<leftarrow> compareAndSwap env (dp_appID v) (dr_version record) fence (v\<lparr>
           dp_instanceID := priorInstance, dp_image := dp_priorImage v, dp_generation := dp_priorGeneration v,
           dp_ruleRef := dp_priorRuleRef v, dp_phase := PhaseActive, dp_ruleTarget := dp_priorRuleTarget v,
           dp_pendingInstance := [], dp_desiredRuleTarget := [], dp_priorRuleTarget := [], dp_lastFailure := [],
           dp_lease := [], dp_leaseUntil := 0, dp_priorAbsent := False, dp_priorImage := [], dp_priorGeneration := [],
           dp_priorRuleRef := [], dp_priorInstance := [], dp_imageDigest := dp_priorDigest v, dp_availableDigest := [],
           dp_priorDigest := [] \<rparr>);
         ret (errOf r) } })"

text \<open>The middle part: give the route back to the prior instance and remove the candidate.\<close>

definition reconcileUndo ::
  "'st rolloutEnv \<Rightarrow> deploymentRecord \<Rightarrow> deployment \<Rightarrow> runtimeState \<Rightarrow> string \<Rightarrow> string \<Rightarrow> bool \<Rightarrow> bool \<Rightarrow>
   ('st, docker_error option) rollout" where
  "reconcileUndo env record v st priorInstance pending priorExists newExists = (let fence = dp_fencingToken v in
     if \<not> dp_priorAbsent v \<and> \<not> priorExists then release env record ErrReconcilePending
     else if dp_priorAbsent v \<and> pending \<noteq> [] \<and> rs_ruleTarget st = pending then release env record ErrReconcilePending
     else do {
       failed \<leftarrow> (if \<not> dp_priorAbsent v \<and> \<not> cutOverComplete (dp_priorRuleRef v) (rs_ruleTarget st) (dp_priorRuleTarget v)
         then execCutover env fence (dp_priorRuleRef v) (dp_priorRuleTarget v) else ret None);
       case failed of
         Some e \<Rightarrow> release env record (safeFailure ErrOperationFailed e)
       | None \<Rightarrow>
         if newExists then (let v = v\<lparr> dp_phase := PhaseCleanupPending \<rparr> in do {
           r \<leftarrow> compareAndSwap env (dp_appID v) (dr_version record) fence v;
           case r of
             Err e \<Rightarrow> ret (Some e)
           | Panic \<Rightarrow> ret (errOf r)
           | Ok record \<Rightarrow> do {
               removed \<leftarrow> execRemove env fence (deploymentApp v) pending;
               case removed of
                 Some e \<Rightarrow> release env record (safeFailure ErrOperationFailed e)
               | None \<Rightarrow> reconcileSettle env record v priorInstance pending } })
         else reconcileSettle env record v priorInstance pending })"

definition reconcileDecide ::
  "'st rolloutEnv \<Rightarrow> deploymentRecord \<Rightarrow> deployment \<Rightarrow> runtimeState \<Rightarrow> string \<Rightarrow> string \<Rightarrow> ('st, docker_error option) rollout" where
  "reconcileDecide env record v st priorInstance pending =
     (let priorExists = (\<not> dp_priorAbsent v \<and> priorInstance \<noteq> [] \<and> instanceUp st priorInstance);
          newExists = (pending \<noteq> [] \<and> instanceUp st pending);
          unrelated = (rs_ruleTarget st \<noteq> [] \<and> rs_ruleTarget st \<noteq> dp_priorRuleTarget v \<and> rs_ruleTarget st \<noteq> pending);
          finishNew = ((dp_phase v = PhaseCutover \<or> dp_phase v = PhaseDraining) \<and> newExists
            \<and> cutOverComplete (dp_ruleRef v) (rs_ruleTarget st) pending) in
      if unrelated then release env record ErrReconcilePending
      else if \<not> finishNew \<and> historicalRollbackPending v then restoreHistoricalPrior env record st priorInstance pending newExists
      else if finishNew then reconcileFinish env record v priorInstance pending priorExists
      else reconcileUndo env record v st priorInstance pending priorExists newExists)"

definition reconcileRecord :: "'st rolloutEnv \<Rightarrow> deploymentRecord \<Rightarrow> ('st, docker_error option) rollout" where
  "reconcileRecord env record =
     (let v = dr_value record; fence = dp_fencingToken v;
          priorInstance = (if dp_priorInstance v = [] then dp_instanceID v else dp_priorInstance v);
          inspectRef = (if dp_phase v \<noteq> PhaseCutover \<and> dp_phase v \<noteq> PhaseDraining \<and> dp_phase v \<noteq> PhaseRouteReconcile \<and> \<not> dp_priorAbsent v
            then dp_priorRuleRef v else dp_ruleRef v) in do {
      r \<leftarrow> execInspect env fence (deploymentApp v) inspectRef;
      case r of
        Inl e \<Rightarrow> release env record (safeFailure ErrOperationFailed e)
      | Inr st \<Rightarrow>
        let pending = (if dp_pendingInstance v = [] then rs_candidateInstance st else dp_pendingInstance v) in
        if pending \<noteq> dp_pendingInstance v then (let v = v\<lparr> dp_pendingInstance := pending \<rparr> in do {
          r \<leftarrow> compareAndSwap env (dp_appID v) (dr_version record) fence v;
          case r of
            Err e \<Rightarrow> ret (Some e)
          | Panic \<Rightarrow> ret (errOf r)
          | Ok record \<Rightarrow> reconcileDecide env record v st priorInstance pending })
        else reconcileDecide env record v st priorInstance pending })"

definition Reconcile :: "'st rolloutEnv \<Rightarrow> string \<Rightarrow> ('st, docker_error option) rollout" where
  "Reconcile env appID =
     (if \<not> re_hasAuditor env then ret (Some ErrAuditRequired)
      else if \<not> re_hasStore env \<or> \<not> re_hasExecutor env then do {
        audit env ''rollout.reconcile'' ''unavailable'' (errorText ErrTypedHandlesUnavailable);
        ret (Some ErrTypedHandlesUnavailable) }
      else do {
        r \<leftarrow> storeLoad env appID;
        now \<leftarrow> tickA (re_now env);
        case r of
          Err e \<Rightarrow> ret (Some (safeFailure ErrOperationFailed e))
        | Panic \<Rightarrow> ret (errOf r)
        | Ok None \<Rightarrow> ret (Some ErrReconcilePending)
        | Ok (Some record) \<Rightarrow> (let v = dr_value record in
            if dp_phase v = PhaseActive \<or> dp_lease v \<noteq> [] \<and> now < dp_leaseUntil v then ret (Some ErrReconcilePending)
            else do {
              until \<leftarrow> leaseUntil env;
              leased \<leftarrow> acquireLease env appID (dr_version record) (v\<lparr> dp_lease := [] \<rparr>) until;
              case leased of
                Ok l \<Rightarrow> do {
                  err \<leftarrow> reconcileRecord env l;
                  audit env ''rollout.reconcile'' (if err = None then ''succeeded'' else ''failed'')
                    (if err = None then appID else errorText ErrOperationFailed);
                  ret err }
              | _ \<Rightarrow> ret (Some ErrReconcilePending) }) })"

section \<open>Publishing\<close>

definition rollback ::
  "'st rolloutEnv \<Rightarrow> deploymentRecord \<Rightarrow> deployment \<Rightarrow> bool \<Rightarrow> string \<Rightarrow> bool \<Rightarrow> docker_error \<Rightarrow> ('st, docker_error option) rollout" where
  "rollback env record prior existed pending routeMayPending cause = (let v = (dr_value record)\<lparr>
       dp_pendingInstance := pending, dp_priorAbsent := priorInstanceAbsent existed (dp_instanceID prior),
       dp_priorRuleTarget := dp_ruleTarget prior, dp_lastFailure := errorText ErrOperationFailed,
       dp_phase := (if routeMayPending then PhaseRouteReconcile else PhaseCleanupPending),
       dp_desiredRuleTarget := dp_ruleTarget prior \<rparr> in do {
     r \<leftarrow> compareAndSwap env (dp_appID v) (dr_version record) (dp_fencingToken v) v;
     case r of
       Ok nxt \<Rightarrow> do { reconcileErr \<leftarrow> reconcileRecord env nxt; fail env (errJoin cause reconcileErr) }
     | _ \<Rightarrow> fail env (errJoin cause (errOf r)) })"

text \<open>
  \<^verbatim>\<open>publish\<close>, cut at its persisted phases. \<open>publishFinish\<close> is the part after the route was
  switched, \<open>publishReady\<close> the part after the candidate was started, \<open>publishStart\<close> the part after
  the image was pulled, \<open>publishPull\<close> the part after the lease was acquired.
\<close>

definition publishFinish ::
  "'st rolloutEnv \<Rightarrow> app \<Rightarrow> app \<Rightarrow> string \<Rightarrow> deploymentRecord \<Rightarrow> deployment \<Rightarrow> bool \<Rightarrow> string \<Rightarrow> ('st, docker_error option) rollout" where
  "publishFinish env a runtimeApp digest record prior existed pending = do {
     r \<leftarrow> intent env record PhaseDraining pending pending pending;
     case r of
       Err e \<Rightarrow> ret (Some ErrReconcilePending)
     | Panic \<Rightarrow> ret (Some ErrReconcilePending)
     | Ok record \<Rightarrow> do {
         gone \<leftarrow> requireObservationPersist env;
         if gone \<noteq> None then abandonStalePublish env record
         else do {
           drained \<leftarrow> (if existed then do {
               progress env (ap_id a) PhaseDraining;
               execDrain env (dp_fencingToken (dr_value record)) runtimeApp (dp_instanceID prior) }
             else ret None);
           case drained of
             Some e \<Rightarrow> rollback env record prior existed pending True e
           | None \<Rightarrow> do {
               gone \<leftarrow> requireObservationPersist env;
               if gone \<noteq> None then abandonStalePublish env record
               else do {
                 r \<leftarrow> compareAndSwap env (ap_id a) (dr_version record) (dp_fencingToken (dr_value record)) (zeroDeployment\<lparr>
                   dp_appID := ap_id a, dp_agentID := ap_agentID a, dp_instanceID := pending, dp_image := ap_image a,
                   dp_ruleRef := ap_ruleRef a, dp_ruleTarget := pending, dp_generation := ap_generation a, dp_phase := PhaseActive,
                   dp_fencingToken := dp_fencingToken (dr_value record), dp_imageDigest := digest,
                   dp_history := publishedHistory (dr_value record) \<rparr>);
                 case r of
                   Ok _ \<Rightarrow> do { audit env ''rollout'' ''succeeded'' (ap_id a); ret None }
                 | _ \<Rightarrow> ret (Some ErrReconcilePending) } } } } }"

definition publishReady ::
  "'st rolloutEnv \<Rightarrow> app \<Rightarrow> app \<Rightarrow> string \<Rightarrow> deploymentRecord \<Rightarrow> deployment \<Rightarrow> bool \<Rightarrow> string \<Rightarrow> ('st, docker_error option) rollout" where
  "publishReady env a runtimeApp digest record prior existed pending = do {
     r \<leftarrow> intent env record PhaseReadiness pending (dp_ruleTarget prior) (dp_ruleTarget prior);
     case r of
       Err e \<Rightarrow> ret (Some ErrReconcilePending)
     | Panic \<Rightarrow> ret (Some ErrReconcilePending)
     | Ok record \<Rightarrow> do {
         progress env (ap_id a) PhaseReadiness;
         notReady \<leftarrow> execReady env (dp_fencingToken (dr_value record)) runtimeApp pending;
         case notReady of
           Some e \<Rightarrow> rollback env record prior existed pending False e
         | None \<Rightarrow>
           if ap_ruleRef a \<noteq> [] then do {
             r \<leftarrow> intent env record PhaseCutover pending (dp_ruleTarget prior) pending;
             case r of
               Err e \<Rightarrow> ret (Some ErrReconcilePending)
             | Panic \<Rightarrow> ret (Some ErrReconcilePending)
             | Ok record \<Rightarrow> do {
                 progress env (ap_id a) PhaseCutover;
                 failed \<leftarrow> execCutover env (dp_fencingToken (dr_value record)) (ap_ruleRef a) pending;
                 case failed of
                   Some e \<Rightarrow> rollback env record prior existed pending True e
                 | None \<Rightarrow> publishFinish env a runtimeApp digest record prior existed pending } }
           else publishFinish env a runtimeApp digest record prior existed pending } }"

definition publishStart ::
  "'st rolloutEnv \<Rightarrow> app \<Rightarrow> string \<Rightarrow> deploymentRecord \<Rightarrow> deployment \<Rightarrow> bool \<Rightarrow> ('st, docker_error option) rollout" where
  "publishStart env a digest record prior existed = do {
     r \<leftarrow> intent env record PhaseStarting [] (dp_ruleTarget prior) [];
     case r of
       Err e \<Rightarrow> ret (Some ErrReconcilePending)
     | Panic \<Rightarrow> ret (Some ErrReconcilePending)
     | Ok record \<Rightarrow> do {
         progress env (ap_id a) PhaseStarting;
         gone \<leftarrow> requireObservationPersist env;
         if gone \<noteq> None then abandonStalePublish env record
         else do {
           b \<leftarrow> bindLiveCatalogApp env a;
           case b of
             Err e \<Rightarrow> abandonStalePublish env record
           | Panic \<Rightarrow> abandonStalePublish env record
           | Ok a \<Rightarrow> (let runtimeApp = pinnedRuntimeApp env a digest in do {
               started \<leftarrow> execStart env (dp_fencingToken (dr_value record)) runtimeApp;
               case snd started of
                 Some e \<Rightarrow> rollback env record prior existed (fst started) False e
               | None \<Rightarrow> publishReady env a runtimeApp digest record prior existed (fst started) }) } } }"

definition publishPull ::
  "'st rolloutEnv \<Rightarrow> app \<Rightarrow> string \<Rightarrow> deploymentRecord \<Rightarrow> deployment \<Rightarrow> bool \<Rightarrow> ('st, docker_error option) rollout" where
  "publishPull env a digest record prior existed = do {
     gone \<leftarrow> requireObservationPersist env;
     if gone \<noteq> None then abandonStalePublish env record
     else do {
       b \<leftarrow> bindLiveCatalogApp env a;
       case b of
         Err e \<Rightarrow> abandonStalePublish env record
       | Panic \<Rightarrow> abandonStalePublish env record
       | Ok a \<Rightarrow> do {
           progress env (ap_id a) PhasePulling;
           failed \<leftarrow> execPull env (dp_fencingToken (dr_value record)) (pinnedRuntimeApp env a digest);
           case failed of
             Some e \<Rightarrow> rollback env record prior existed [] False e
           | None \<Rightarrow> do {
               gone \<leftarrow> requireObservationPersist env;
               if gone \<noteq> None then abandonStalePublish env record
               else publishStart env a digest record prior existed } } } }"

definition pullingDeployment :: "app \<Rightarrow> string \<Rightarrow> deployment \<Rightarrow> bool \<Rightarrow> deployment" where
  "pullingDeployment a digest prior existed = zeroDeployment\<lparr>
     dp_appID := ap_id a, dp_agentID := ap_agentID a, dp_instanceID := dp_instanceID prior, dp_image := ap_image a,
     dp_ruleRef := ap_ruleRef a, dp_ruleTarget := dp_ruleTarget prior, dp_generation := ap_generation a,
     dp_phase := PhasePulling, dp_priorImage := dp_image prior, dp_priorGeneration := dp_generation prior,
     dp_priorRuleRef := dp_ruleRef prior, dp_priorRuleTarget := dp_ruleTarget prior, dp_priorInstance := dp_instanceID prior,
     dp_priorAbsent := priorInstanceAbsent existed (dp_instanceID prior), dp_desiredRuleTarget := [],
     dp_imageDigest := digest, dp_availableDigest := dp_availableDigest prior, dp_priorDigest := dp_imageDigest prior,
     dp_history := dp_history prior \<rparr>"

definition publish :: "'st rolloutEnv \<Rightarrow> app \<Rightarrow> string \<Rightarrow> ('st, docker_error option) rollout" where
  "publish env a digest =
     (if \<not> re_hasAuditor env then ret (Some ErrAuditRequired)
      else if appValidate (re_validRange env) a \<noteq> Ok () then do {
        audit env ''rollout'' ''denied'' (errorText ErrInvalidPreview);
        ret (Some (ErrSafe ErrInvalidPreview)) }
      else if \<not> re_hasStore env \<or> \<not> re_hasExecutor env then do {
        audit env ''rollout'' ''unavailable'' (errorText ErrTypedHandlesUnavailable);
        ret (Some ErrTypedHandlesUnavailable) }
      else do {
        r \<leftarrow> storeLoad env (ap_id a);
        now \<leftarrow> tickA (re_now env);
        case r of
          Err e \<Rightarrow> ret (Some (safeFailure ErrOperationFailed e))
        | Panic \<Rightarrow> ret (errOf r)
        | Ok found \<Rightarrow> (let prior = recordOf found; existed = (found \<noteq> None) in
            if rolloutBusy (dr_value prior) existed now then ret (Some ErrReconcilePending)
            else do {
              gone \<leftarrow> requireObservationPersist env;
              case gone of
                Some e \<Rightarrow> ret (Some e)
              | None \<Rightarrow> do {
                  until \<leftarrow> leaseUntil env;
                  leased \<leftarrow> acquireLease env (ap_id a) (dr_version prior) (pullingDeployment a digest (dr_value prior) existed) until;
                  case leased of
                    Ok record \<Rightarrow> publishPull env a digest record (dr_value prior) existed
                  | _ \<Rightarrow> ret (Some ErrReconcilePending) } }) })"

definition Update :: "'st rolloutEnv \<Rightarrow> app \<Rightarrow> ('st, docker_error option) rollout" where
  "Update env a = publish env a []"

section \<open>Operations on a published application\<close>

definition readyStore :: "'st rolloutEnv \<Rightarrow> app option \<Rightarrow> ('st, docker_error option) rollout" where
  "readyStore env a =
     (if \<not> re_hasAuditor env then ret (Some ErrAuditRequired)
      else if (case a of None \<Rightarrow> False | Some b \<Rightarrow> appValidate (re_validRange env) b \<noteq> Ok ()) then do {
        audit env ''rollout'' ''denied'' (errorText ErrInvalidPreview);
        ret (Some (ErrSafe ErrInvalidPreview)) }
      else if \<not> re_hasStore env then do {
        audit env ''rollout'' ''unavailable'' (errorText ErrTypedHandlesUnavailable);
        ret (Some ErrTypedHandlesUnavailable) }
      else ret None)"

definition ready :: "'st rolloutEnv \<Rightarrow> app option \<Rightarrow> ('st, docker_error option) rollout" where
  "ready env a = do {
     e \<leftarrow> readyStore env a;
     if e \<noteq> None then ret e
     else if \<not> re_hasExecutor env then do {
       audit env ''rollout'' ''unavailable'' (errorText ErrTypedHandlesUnavailable);
       ret (Some ErrTypedHandlesUnavailable) }
     else ret None }"

definition ConfirmUpdate :: "'st rolloutEnv \<Rightarrow> app \<Rightarrow> ('st, docker_error option) rollout" where
  "ConfirmUpdate env a = do {
     e \<leftarrow> ready env (Some a);
     if e \<noteq> None then ret e
     else do {
       r \<leftarrow> storeLoad env (ap_id a);
       case r of
         Err e \<Rightarrow> ret (Some (safeFailure ErrOperationFailed e))
       | Panic \<Rightarrow> ret (errOf r)
       | Ok found \<Rightarrow> (let v = dr_value (recordOf found) in
           if found = None \<or> dp_availableDigest v = [] then do {
             audit env ''rollout'' ''denied'' (errorText ErrInvalidPreview);
             ret (Some ErrInvalidPreview) }
           else if dp_availableDigest v = dp_imageDigest v then ret None
           else publish env a (dp_availableDigest v)) } }"

definition HealthRecover :: "'st rolloutEnv \<Rightarrow> app \<Rightarrow> ('st, docker_error option) rollout" where
  "HealthRecover env a = do {
     e \<leftarrow> ready env (Some a);
     if e \<noteq> None then ret e
     else do {
       r \<leftarrow> storeLoad env (ap_id a);
       now \<leftarrow> tickA (re_now env);
       case r of
         Err e \<Rightarrow> ret (Some (safeFailure ErrOperationFailed e))
       | Panic \<Rightarrow> ret (errOf r)
       | Ok found \<Rightarrow> (let v = dr_value (recordOf found) in
           if rolloutBusy v (found \<noteq> None) now then ret (Some ErrReconcilePending)
           else if found \<noteq> None \<and> dp_imageDigest v \<noteq> []
           then publish env (a\<lparr> ap_image := pinImageDigest (re_lower env) (ap_image a) (dp_imageDigest v) \<rparr>) (dp_imageDigest v)
           else publish env a []) } }"

definition rollbackRepublishApp :: "'st rolloutEnv \<Rightarrow> app \<Rightarrow> deployment \<Rightarrow> deploymentRevision \<Rightarrow> app" where
  "rollbackRepublishApp env a current r =
     (let img0 = (if rv_image r \<noteq> [] then rv_image r else if dp_image current \<noteq> [] then dp_image current else ap_image a);
          img = pinImageDigest (re_lower env) img0 (rv_imageDigest r) in
      a\<lparr> ap_id := (if dp_appID current = [] then ap_id a else dp_appID current),
         ap_agentID := (if ap_agentID a = [] then dp_agentID current else ap_agentID a),
         ap_image := img,
         ap_compose := (if ap_compose a \<noteq> [] then re_pinCompose env (ap_compose a) img (rv_imageDigest r) else ap_compose a),
         ap_ruleRef := rv_ruleRef r,
         ap_generation := (if rv_generation r \<noteq> [] then rv_generation r else ap_generation a) \<rparr>)"

text \<open>\<^verbatim>\<open>Rollback\<close> once the revision's instance is known to be present: switch back and record it.\<close>

definition rollbackToInstance ::
  "'st rolloutEnv \<Rightarrow> string \<Rightarrow> deploymentRecord \<Rightarrow> deployment \<Rightarrow> deploymentRevision \<Rightarrow> ('st, docker_error option) rollout" where
  "rollbackToInstance env appID record current r = do {
     until \<leftarrow> leaseUntil env;
     leased \<leftarrow> acquireLease env appID (dr_version record) (historicalRollbackIntent current r) until;
     case leased of
       Err e \<Rightarrow> ret (Some ErrReconcilePending)
     | Panic \<Rightarrow> ret (Some ErrReconcilePending)
     | Ok l \<Rightarrow> (let fence = dp_fencingToken (dr_value l) in do {
         progress env appID PhaseCutover;
         failed \<leftarrow> execCutover env fence (rv_ruleRef r) (rv_instanceID r);
         case failed of
           Some e \<Rightarrow> abortHistoricalRollback env l current False e
         | None \<Rightarrow> do {
             drained \<leftarrow> (if dp_instanceID current \<noteq> [] \<and> dp_instanceID current \<noteq> rv_instanceID r then do {
                 progress env appID PhaseDraining;
                 execDrain env fence (deploymentApp current) (dp_instanceID current) }
               else ret None);
             case drained of
               Some e \<Rightarrow> abortHistoricalRollback env l current True e
             | None \<Rightarrow> do {
                 s \<leftarrow> compareAndSwap env appID (dr_version l) fence (zeroDeployment\<lparr>
                   dp_appID := appID, dp_agentID := dp_agentID current, dp_instanceID := rv_instanceID r, dp_image := rv_image r,
                   dp_ruleRef := rv_ruleRef r, dp_ruleTarget := (if rv_ruleTarget r = [] then rv_instanceID r else rv_ruleTarget r),
                   dp_generation := rv_generation r, dp_phase := PhaseActive, dp_fencingToken := fence,
                   dp_imageDigest := rv_imageDigest r, dp_history := butlast (dp_history current) \<rparr>);
                 case s of
                   Ok _ \<Rightarrow> do { audit env ''rollout'' ''succeeded'' appID; ret None }
                 | _ \<Rightarrow> ret (Some ErrReconcilePending) } } }) }"

definition Rollback :: "'st rolloutEnv \<Rightarrow> app \<Rightarrow> ('st, docker_error option) rollout" where
  "Rollback env a = do {
     e \<leftarrow> ready env None;
     if e \<noteq> None then ret e
     else (let appID = trimSpace (ap_id a) in
       if appID = [] then do {
         audit env ''rollout'' ''denied'' (errorText ErrInvalidPreview); ret (Some ErrInvalidPreview) }
       else do {
         r \<leftarrow> storeLoad env appID;
         now \<leftarrow> tickA (re_now env);
         case r of
           Err e \<Rightarrow> ret (Some (safeFailure ErrOperationFailed e))
         | Panic \<Rightarrow> ret (errOf r)
         | Ok found \<Rightarrow> (let record = recordOf found; current = dr_value record in
             if found = None \<or> dp_history current = [] then do {
               audit env ''rollout'' ''denied'' (errorText ErrInvalidPreview); ret (Some ErrInvalidPreview) }
             else if rolloutBusy current True now then ret (Some ErrReconcilePending)
             else (let r = last (dp_history current) in do {
               history \<leftarrow> (if rv_instanceID r \<noteq> []
                 then forgetGoneHistoryInstance env record (dp_history current) (rv_instanceID r) else ret (dp_history current));
               (let gone = (rv_instanceID r \<noteq> [] \<and> rv_instanceID (last history) = []);
                    r = (if gone then r\<lparr> rv_instanceID := [] \<rparr> else r);
                    current = (if gone then current\<lparr> dp_history := history \<rparr> else current) in do {
                 stored \<leftarrow> (if gone then compareAndSwap env appID (dr_version record) (dp_fencingToken current) current
                   else ret (Ok record));
                 case stored of
                   Err e \<Rightarrow> ret (Some ErrReconcilePending)
                 | Panic \<Rightarrow> ret (Some ErrReconcilePending)
                 | Ok _ \<Rightarrow>
                   if rv_instanceID r = [] \<or> rv_image r = [] \<or> rv_ruleRef r = [] then
                     (let target = rollbackRepublishApp env a current r in
                      if appValidate (re_validRange env) target \<noteq> Ok () then do {
                        audit env ''rollout'' ''denied'' (errorText ErrInvalidPreview);
                        ret (Some (ErrSafe ErrInvalidPreview)) }
                      else publish env target (rv_imageDigest r))
                   else rollbackToInstance env appID record current r }) })) }) }"

definition rememberDigest ::
  "'st rolloutEnv \<Rightarrow> deploymentRecord \<Rightarrow> app \<Rightarrow> string \<Rightarrow> string \<Rightarrow> bool \<Rightarrow> ('st, docker_error option) rollout" where
  "rememberDigest env record a current available existed = do {
     gone \<leftarrow> requireObservationPersist env;
     case gone of Some e \<Rightarrow> ret (Some e) | None \<Rightarrow> (let v = dr_value record in
       if existed \<and> dp_imageDigest v = current \<and> dp_availableDigest v = available then ret None
       else if \<not> existed then do {
         until \<leftarrow> leaseUntil env;
         leased \<leftarrow> acquireLease env (ap_id a) (dr_version record) (zeroDeployment\<lparr>
           dp_appID := ap_id a, dp_agentID := ap_agentID a, dp_image := ap_image a, dp_ruleRef := ap_ruleRef a,
           dp_generation := ap_generation a, dp_phase := PhaseActive, dp_imageDigest := current, dp_availableDigest := available \<rparr>) until;
         case leased of
           Err e \<Rightarrow> ret (Some ErrReconcilePending)
         | Panic \<Rightarrow> ret (Some ErrReconcilePending)
         | Ok l \<Rightarrow> do {
             gone \<leftarrow> requireObservationPersist env;
             case gone of
               Some e \<Rightarrow> do { _ \<leftarrow> deleteCAS env (ap_id a) (dr_version l) (dp_fencingToken (dr_value l)); ret (Some e) }
             | None \<Rightarrow> do {
                 r \<leftarrow> compareAndSwap env (ap_id a) (dr_version l) (dp_fencingToken (dr_value l))
                   ((dr_value l)\<lparr> dp_lease := [], dp_leaseUntil := 0 \<rparr>);
                 ret (case r of Ok _ \<Rightarrow> None | _ \<Rightarrow> Some ErrReconcilePending) } } }
       else do {
         gone \<leftarrow> requireObservationPersist env;
         case gone of Some e \<Rightarrow> ret (Some e) | None \<Rightarrow> do {
           r \<leftarrow> compareAndSwap env (ap_id a) (dr_version record) (dp_fencingToken v)
             (v\<lparr> dp_imageDigest := current, dp_availableDigest := available \<rparr>);
           ret (case r of Ok _ \<Rightarrow> None | _ \<Rightarrow> Some ErrReconcilePending) } }) }"

end
