(* ===== verification/Docker_Traces.thy ===== *)
theory Docker_Traces
  imports Docker_Rollout
begin

text \<open>
  What a rollout asks of the host, in every environment: the order of the calls, the token they
  carry, and which of them each operation can make at all.
\<close>

section \<open>Symbolic execution of the primitive actions\<close>

lemma wp_tickA [wp_simps]: "wp (tickA f) Q w = Q (f (w_tick w)) (w\<lparr> w_tick := Suc (w_tick w) \<rparr>)"
  by (simp add: tickA_def wp_simps)

lemma wp_logA [wp_simps]: "wp (logA e) Q w = Q () (w\<lparr> w_log := w_log w @ [e] \<rparr>)"
  by (simp add: logA_def wp_simps)

lemma wp_storeA [wp_simps]:
  "wp (storeA env f) Q w = (case f (re_call env (w_tick w)) (re_other env (w_tick w) (w_store w)) of
     (s', r) \<Rightarrow> Q r (w\<lparr> w_store := s', w_tick := Suc (w_tick w) \<rparr>))"
  by (simp add: storeA_def wp_simps split: prod.splits)

section \<open>Programs that only emit events of a kind\<close>

definition quiet :: "(hostEvent \<Rightarrow> bool) \<Rightarrow> ('st, 'a) rollout \<Rightarrow> bool" where
  "quiet P m \<longleftrightarrow> (\<forall>w. wp m (\<lambda>_ w'. \<exists>es. w_log w' = w_log w @ es \<and> list_all P es) w)"

named_theorems quiet_intros \<open>programs that emit only events of a kind\<close>

lemma quiet_ret [quiet_intros]: "quiet P (ret x)"
  by (simp add: quiet_def wp_simps)

lemma quiet_tickA [quiet_intros]: "quiet P (tickA f)"
  by (simp add: quiet_def wp_simps)

lemma quiet_logA [quiet_intros]: "P e \<Longrightarrow> quiet P (logA e)"
  by (simp add: quiet_def wp_simps)

lemma quiet_storeA [quiet_intros]: "quiet P (storeA env f)"
  by (simp add: quiet_def wp_simps split: prod.splits)

lemma quiet_bind [quiet_intros]:
  fixes m :: "('st, 'a) rollout"
  assumes "quiet P m" and "\<And>x. quiet P (f x)"
  shows "quiet P (State_Monad.bind m f)"
proof -
  have "wp m (\<lambda>x. wp (f x) (\<lambda>_ w'. \<exists>es. w_log w' = w_log w @ es \<and> list_all P es)) w" for w :: "'st world"
  proof (rule wp_mono [OF assms(1) [unfolded quiet_def, rule_format]])
    fix x and w1 :: "'st world"
    assume "\<exists>es. w_log w1 = w_log w @ es \<and> list_all P es"
    then obtain es where es: "w_log w1 = w_log w @ es" "list_all P es" by blast
    show "wp (f x) (\<lambda>_ w'. \<exists>es. w_log w' = w_log w @ es \<and> list_all P es) w1"
      by (rule wp_mono [OF assms(2) [unfolded quiet_def, rule_format]]) (use es in auto)
  qed
  then show ?thesis by (simp add: quiet_def wp_simps)
qed

lemma quiet_if [quiet_intros]: "(b \<Longrightarrow> quiet P m) \<Longrightarrow> (\<not> b \<Longrightarrow> quiet P n) \<Longrightarrow> quiet P (if b then m else n)"
  by simp

lemma quiet_option [quiet_intros]:
  "quiet P m \<Longrightarrow> (\<And>y. quiet P (n y)) \<Longrightarrow> quiet P (case x of None \<Rightarrow> m | Some y \<Rightarrow> n y)"
  by (cases x) auto

lemma quiet_res [quiet_intros]:
  "(\<And>y. quiet P (m y)) \<Longrightarrow> (\<And>e. quiet P (n e)) \<Longrightarrow> quiet P k \<Longrightarrow>
    quiet P (case x of Ok y \<Rightarrow> m y | Err e \<Rightarrow> n e | Panic \<Rightarrow> k)"
  by (cases x) auto

lemma quiet_sum [quiet_intros]:
  "(\<And>y. quiet P (m y)) \<Longrightarrow> (\<And>z. quiet P (n z)) \<Longrightarrow> quiet P (case x of Inl y \<Rightarrow> m y | Inr z \<Rightarrow> n z)"
  by (cases x) auto

lemma quiet_let [quiet_intros]: "quiet P (f e) \<Longrightarrow> quiet P (let x = e in f x)"
  by simp

lemmas exec_defs = execPull_def execStart_def execReady_def execCutover_def execDrain_def execRemove_def execInspect_def

lemmas store_action_defs = storeLoad_def acquireLease_def compareAndSwap_def deleteCAS_def

lemma quiet_store [quiet_intros]:
  "quiet P (storeLoad env i)" "quiet P (acquireLease env i ver v until)" "quiet P (compareAndSwap env i ver f v)"
  "quiet P (deleteCAS env i ver f)"
  by (simp_all add: store_action_defs quiet_storeA)

lemma quiet_exec [quiet_intros]:
  "(\<And>r. P (EvPull f a r)) \<Longrightarrow> quiet P (execPull env f a)"
  "(\<And>i r. P (EvStart f a i r)) \<Longrightarrow> quiet P (execStart env f a)"
  "(\<And>r. P (EvReady f a i r)) \<Longrightarrow> quiet P (execReady env f a i)"
  "(\<And>r. P (EvCutover f rr t r)) \<Longrightarrow> quiet P (execCutover env f rr t)"
  "(\<And>r. P (EvDrain f a i r)) \<Longrightarrow> quiet P (execDrain env f a i)"
  "(\<And>r. P (EvRemove f a i r)) \<Longrightarrow> quiet P (execRemove env f a i)"
  "(\<And>r. P (EvInspect f a rr r)) \<Longrightarrow> quiet P (execInspect env f a rr)"
  by (auto simp: exec_defs intro!: quiet_intros)

lemma quiet_audit [quiet_intros]: "P (EvAudit x y z) \<Longrightarrow> quiet P (audit env x y z)"
  by (auto simp: audit_def intro!: quiet_intros)

lemma quiet_progress [quiet_intros]: "(\<And>x y z. P (EvAudit x y z)) \<Longrightarrow> quiet P (progress env i p)"
  by (auto simp: progress_def intro!: quiet_intros)

lemma quiet_fail [quiet_intros]: "(\<And>x y z. P (EvAudit x y z)) \<Longrightarrow> quiet P (fail env e)"
  by (auto simp: fail_def intro!: quiet_intros)

lemma quiet_catalog [quiet_intros]:
  "quiet P (requireObservationPersist env)" "quiet P (bindLiveCatalogApp env a)" "quiet P (leaseUntil env)"
  by (auto simp: requireObservationPersist_def bindLiveCatalogApp_def leaseUntil_def intro!: quiet_intros)

lemma quiet_record [quiet_intros]:
  "quiet P (abandonStalePublish env record)" "quiet P (intent env record ph pn ac de)" "quiet P (release env record e)"
  by (auto simp: abandonStalePublish_def intent_def release_def Let_def intro!: quiet_intros)

section \<open>Store calls of a rollout\<close>

context deployment_store
begin

text \<open>The state a store call sees: the store after what others did before it.\<close>

lemma wp_load:
  assumes "re_ops env = ops"
    and "\<And>s' e. recOf s' = recOf (re_other env (w_tick w) (w_store w)) \<Longrightarrow>
      Q (Err e) (w\<lparr> w_store := s', w_tick := Suc (w_tick w) \<rparr>)"
    and "\<And>s'. recOf s' = recOf (re_other env (w_tick w) (w_store w)) \<Longrightarrow>
      Q (Ok (recOf s' i)) (w\<lparr> w_store := s', w_tick := Suc (w_tick w) \<rparr>)"
  shows "wp (storeLoad env i) Q w"
proof -
  let ?s = "re_other env (w_tick w) (w_store w)"
  show ?thesis
    using assms(2,3) [of ?s] load_Ok [of "re_call env (w_tick w)" i ?s] load_not_Panic [of "re_call env (w_tick w)" i ?s]
    by (cases "so_load ops (re_call env (w_tick w)) i ?s") (auto simp: storeLoad_def wp_simps assms(1))
qed

lemma wp_acquire:
  assumes "re_ops env = ops"
    and "\<And>s' e f. recOf s' = recOf (re_other env (w_tick w) (w_store w))
        \<or> recOf s' = (recOf (re_other env (w_tick w) (w_store w)))(i \<mapsto> leasedRecord i ver v f until) \<Longrightarrow>
      Q (Err e) (w\<lparr> w_store := s', w_tick := Suc (w_tick w) \<rparr>)"
    and "\<And>s' f. dr_version (recordOf (recOf (re_other env (w_tick w) (w_store w)) i)) = ver \<Longrightarrow>
        recOf s' = (recOf (re_other env (w_tick w) (w_store w)))(i \<mapsto> leasedRecord i ver v f until) \<Longrightarrow>
      Q (Ok (leasedRecord i ver v f until)) (w\<lparr> w_store := s', w_tick := Suc (w_tick w) \<rparr>)"
  shows "wp (acquireLease env i ver v until) Q w"
proof -
  let ?s = "re_other env (w_tick w) (w_store w)"
  obtain s' r where r: "so_acquireLease ops (re_call env (w_tick w)) i ver v until ?s = (s', r)" by fastforce
  show ?thesis
    using acquire_result [OF r] assms(2,3) [of s'] r
    by (auto simp: acquireLease_def wp_simps assms(1))
qed

lemma wp_cas:
  assumes "re_ops env = ops"
    and "\<And>s' e. recOf s' = recOf (re_other env (w_tick w) (w_store w))
        \<or> recOf s' = (recOf (re_other env (w_tick w) (w_store w)))(i \<mapsto> swappedRecord i ver f v) \<Longrightarrow>
      Q (Err e) (w\<lparr> w_store := s', w_tick := Suc (w_tick w) \<rparr>)"
    and "\<And>s'. dr_version (recordOf (recOf (re_other env (w_tick w) (w_store w)) i)) = ver \<Longrightarrow>
        dp_fencingToken (dr_value (recordOf (recOf (re_other env (w_tick w) (w_store w)) i))) = f \<Longrightarrow>
        recOf s' = (recOf (re_other env (w_tick w) (w_store w)))(i \<mapsto> swappedRecord i ver f v) \<Longrightarrow>
      Q (Ok (swappedRecord i ver f v)) (w\<lparr> w_store := s', w_tick := Suc (w_tick w) \<rparr>)"
  shows "wp (compareAndSwap env i ver f v) Q w"
proof -
  let ?s = "re_other env (w_tick w) (w_store w)"
  obtain s' r where r: "so_compareAndSwap ops (re_call env (w_tick w)) i ver f v ?s = (s', r)" by fastforce
  show ?thesis
    using cas_result [OF r] assms(2,3) [of s'] r
    by (auto simp: compareAndSwap_def wp_simps assms(1))
qed

lemma wp_delete:
  assumes "re_ops env = ops"
    and "\<And>s' r. recOf s' = recOf (re_other env (w_tick w) (w_store w)) \<and> r \<noteq> Ok ()
        \<or> recOf s' = (recOf (re_other env (w_tick w) (w_store w)))(i := None) \<Longrightarrow>
      Q r (w\<lparr> w_store := s', w_tick := Suc (w_tick w) \<rparr>)"
  shows "wp (deleteCAS env i ver f) Q w"
proof -
  let ?s = "re_other env (w_tick w) (w_store w)"
  obtain s' r where r: "so_deleteCAS ops (re_call env (w_tick w)) i ver f ?s = (s', r)" by fastforce
  show ?thesis
    using delete_result [OF r] assms(2) [of s' r] r
    by (auto simp: deleteCAS_def wp_simps assms(1))
qed

lemma quiet_cas:
  assumes "re_ops env = ops" and "quiet P (k (Ok (swappedRecord i ver f v)))" and "\<And>e. quiet P (k (Err e))"
  shows "quiet P (State_Monad.bind (compareAndSwap env i ver f v) k)"
  unfolding quiet_def wp_bind
proof (intro allI wp_cas [OF assms(1)], goal_cases)
  case (1 w s' e)
  show ?case by (rule wp_mono [OF assms(3) [unfolded quiet_def, rule_format]]) simp
next
  case (2 w s')
  show ?case by (rule wp_mono [OF assms(2) [unfolded quiet_def, rule_format]]) simp
qed

lemma quiet_acquire:
  assumes "re_ops env = ops" and "\<And>f. quiet P (k (Ok (leasedRecord i ver v f until)))" and "\<And>e. quiet P (k (Err e))"
  shows "quiet P (State_Monad.bind (acquireLease env i ver v until) k)"
  unfolding quiet_def wp_bind
proof (intro allI wp_acquire [OF assms(1)], goal_cases)
  case (1 w s' e f)
  show ?case by (rule wp_mono [OF assms(3) [unfolded quiet_def, rule_format]]) simp
next
  case (2 w s' f)
  show ?case by (rule wp_mono [OF assms(2) [unfolded quiet_def, rule_format]]) simp
qed

end

section \<open>Reconciliation never drains what it does not finish\<close>

fun isDrain :: "hostEvent \<Rightarrow> bool" where
  "isDrain (EvDrain f a i r) = True"
| "isDrain e = False"

lemma isDrain_others:
  "\<not> isDrain (EvPull f a r)" "\<not> isDrain (EvStart f a i r)" "\<not> isDrain (EvReady f a i r)"
  "\<not> isDrain (EvCutover f rr t r)" "\<not> isDrain (EvAudit x y z)"
  by simp_all

lemma quiet_restoreHistoricalPrior [quiet_intros]:
  "(\<And>f rr t r. P (EvCutover f rr t r)) \<Longrightarrow> quiet P (restoreHistoricalPrior env record st p q x)"
  by (auto simp: restoreHistoricalPrior_def Let_def intro!: quiet_intros)

lemma quiet_reconcileSettle [quiet_intros]:
  "(\<And>f a rr r. P (EvInspect f a rr r)) \<Longrightarrow> quiet P (reconcileSettle env record v p q)"
  by (auto simp: reconcileSettle_def Let_def intro!: quiet_intros)

lemma quiet_reconcileUndo:
  "(\<And>f rr t r. P (EvCutover f rr t r)) \<Longrightarrow> (\<And>f a rr r. P (EvInspect f a rr r)) \<Longrightarrow> (\<And>f a i r. P (EvRemove f a i r)) \<Longrightarrow>
    quiet P (reconcileUndo env record v st p q x y)"
  by (auto simp: reconcileUndo_def Let_def intro!: quiet_intros)

lemma quiet_reconcileRecord_no_drain:
  assumes "dp_phase (dr_value record) \<noteq> PhaseCutover" "dp_phase (dr_value record) \<noteq> PhaseDraining"
  shows "quiet (\<lambda>e. \<not> isDrain e) (reconcileRecord env record)"
  using assms by (auto simp: reconcileRecord_def reconcileDecide_def Let_def intro!: quiet_intros quiet_reconcileUndo)

section \<open>The token of an effect\<close>

fun eventFence :: "hostEvent \<Rightarrow> u64 option" where
  "eventFence (EvPull f a r) = Some f"
| "eventFence (EvStart f a i r) = Some f"
| "eventFence (EvReady f a i r) = Some f"
| "eventFence (EvCutover f rr t r) = Some f"
| "eventFence (EvDrain f a i r) = Some f"
| "eventFence (EvRemove f a i r) = Some f"
| "eventFence (EvInspect f a rr r) = Some f"
| "eventFence (EvAudit x y z) = None"

definition carries :: "u64 \<Rightarrow> hostEvent \<Rightarrow> bool" where
  "carries f e \<longleftrightarrow> eventFence e = None \<or> eventFence e = Some f"

lemma carries_simps [simp]:
  "carries f (EvPull g a r) \<longleftrightarrow> g = f" "carries f (EvStart g a i r) \<longleftrightarrow> g = f" "carries f (EvReady g a i r) \<longleftrightarrow> g = f"
  "carries f (EvCutover g rr t r) \<longleftrightarrow> g = f" "carries f (EvDrain g a i r) \<longleftrightarrow> g = f" "carries f (EvRemove g a i r) \<longleftrightarrow> g = f"
  "carries f (EvInspect g a rr q) \<longleftrightarrow> g = f" "carries f (EvAudit x y z)"
  by (auto simp: carries_def)

lemma carries_finish: "dp_fencingToken v = f \<Longrightarrow> quiet (carries f) (reconcileFinish env record v p q x)"
  unfolding reconcileFinish_def Let_def by (intro quiet_intros) simp_all

lemma carries_settle: "dp_fencingToken v = f \<Longrightarrow> quiet (carries f) (reconcileSettle env record v p q)"
  unfolding reconcileSettle_def Let_def by (intro quiet_intros) simp_all

lemma carries_undo: "dp_fencingToken v = f \<Longrightarrow> quiet (carries f) (reconcileUndo env record v st p q x y)"
  unfolding reconcileUndo_def Let_def by (intro quiet_intros carries_settle) simp_all

lemma carries_historical:
  "dp_fencingToken (dr_value record) = f \<Longrightarrow> quiet (carries f) (restoreHistoricalPrior env record st p q x)"
  unfolding restoreHistoricalPrior_def Let_def by (intro quiet_intros) simp_all

lemma carries_decide:
  "dp_fencingToken v = f \<Longrightarrow> dp_fencingToken (dr_value record) = f \<Longrightarrow> quiet (carries f) (reconcileDecide env record v st p q)"
  unfolding reconcileDecide_def Let_def by (intro quiet_if quiet_record carries_finish carries_undo carries_historical)

text \<open>One token, and drains only for a candidate that is up and routed.\<close>

definition drainAllowed :: "u64 \<Rightarrow> string \<Rightarrow> hostEvent list \<Rightarrow> bool" where
  "drainAllowed f ruleRef es \<longleftrightarrow> (\<exists>a i. EvStart f a i None \<in> set es \<and> EvReady f a i None \<in> set es
     \<and> (ruleRef \<noteq> [] \<longrightarrow> EvCutover f ruleRef i None \<in> set es))"

definition drainsGuarded :: "u64 \<Rightarrow> string \<Rightarrow> hostEvent list \<Rightarrow> bool" where
  "drainsGuarded f ruleRef es \<longleftrightarrow> (\<forall>xs e ys. es = xs @ e # ys \<longrightarrow> isDrain e \<longrightarrow> drainAllowed f ruleRef xs)"

lemma drainAllowed_append: "drainAllowed f rr xs \<Longrightarrow> drainAllowed f rr (xs @ ys)"
  by (auto simp: drainAllowed_def)

lemma drainsGuarded_allowed: "drainsGuarded f rr pre \<Longrightarrow> drainAllowed f rr pre \<Longrightarrow> drainsGuarded f rr (pre @ es)"
  unfolding drainsGuarded_def
  by (auto simp: append_eq_append_conv2 append_eq_Cons_conv intro: drainAllowed_append)

lemma drainsGuarded_no_drain:
  "drainsGuarded f rr pre \<Longrightarrow> list_all (\<lambda>e. \<not> isDrain e) es \<Longrightarrow> drainsGuarded f rr (pre @ es)"
  unfolding drainsGuarded_def
  by (auto simp: append_eq_append_conv2 append_eq_Cons_conv list_all_iff)

lemma drainsGuarded_Nil [simp]: "drainsGuarded f rr []"
  by (simp add: drainsGuarded_def)

lemma drainsGuarded_snoc: "drainsGuarded f rr pre \<Longrightarrow> \<not> isDrain e \<Longrightarrow> drainsGuarded f rr (pre @ [e])"
  by (rule drainsGuarded_no_drain) simp_all

lemma quiet_conj:
  assumes "quiet P m" "quiet R m"
  shows "quiet (\<lambda>e. P e \<and> R e) m"
  unfolding quiet_def
proof
  fix w
  show "wp m (\<lambda>_ w'. \<exists>es. w_log w' = w_log w @ es \<and> list_all (\<lambda>e. P e \<and> R e) es) w"
    by (rule wp_mono [OF wp_conj [OF assms(1) [unfolded quiet_def, rule_format] assms(2) [unfolded quiet_def, rule_format]]])
      (auto simp: list_all_iff)
qed

definition traceOk :: "u64 \<Rightarrow> string \<Rightarrow> hostEvent list \<Rightarrow> bool" where
  "traceOk f rr es \<longleftrightarrow> drainsGuarded f rr es \<and> list_all (carries f) es"

definition traceFrom :: "hostEvent list \<Rightarrow> u64 \<Rightarrow> string \<Rightarrow> 'a \<Rightarrow> 'st world \<Rightarrow> bool" where
  "traceFrom l0 f rr r w \<longleftrightarrow> (\<exists>es. w_log w = l0 @ es \<and> traceOk f rr es)"

lemma traceOk_snoc: "traceOk f rr es \<Longrightarrow> \<not> isDrain e \<Longrightarrow> carries f e \<Longrightarrow> traceOk f rr (es @ [e])"
  by (simp add: traceOk_def drainsGuarded_snoc)

lemma quiet_trace:
  fixes m :: "('st, 'a) rollout"
  assumes "quiet (\<lambda>e. \<not> isDrain e) m" "quiet (carries f) m" "w_log w = l0 @ es" "traceOk f rr es"
  shows "wp m (traceFrom l0 f rr) w"
proof (rule wp_mono [OF quiet_conj [OF assms(1,2), unfolded quiet_def, rule_format]])
  fix a and w' :: "'st world"
  assume "\<exists>xs. w_log w' = w_log w @ xs \<and> list_all (\<lambda>e. \<not> isDrain e \<and> carries f e) xs"
  then obtain xs where xs: "w_log w' = l0 @ es @ xs" "list_all (\<lambda>e. \<not> isDrain e) xs" "list_all (carries f) xs"
    using assms(3) by (auto simp: list_all_iff)
  then have "traceOk f rr (es @ xs)" using assms(4) by (simp add: traceOk_def drainsGuarded_no_drain)
  with xs(1) show "traceFrom l0 f rr a w'" by (auto simp: traceFrom_def)
qed

lemma quiet_trace_allowed:
  assumes "quiet (carries f) m" "w_log w = l0 @ es" "traceOk f rr es" "drainAllowed f rr es"
  shows "wp m (traceFrom l0 f rr) w"
  by (rule wp_mono [OF assms(1) [unfolded quiet_def, rule_format]])
    (use assms(2,3,4) in \<open>auto simp: traceFrom_def traceOk_def intro: drainsGuarded_allowed\<close>)

lemma swapped_simps [simp]:
  "dp_phase (dr_value (swappedRecord i ver f v)) = dp_phase v"
  "dp_appID (dr_value (swappedRecord i ver f v)) = i"
  "dr_version (swappedRecord i ver f v) = ver + 1"
  "dp_phase (dr_value (leasedRecord i ver v f until)) = dp_phase v"
  "dp_appID (dr_value (leasedRecord i ver v f until)) = i"
  "dr_version (leasedRecord i ver v f until) = ver + 1"
  by (simp_all add: swappedRecord_def leasedRecord_def)

context deployment_store
begin

lemma carries_reconcileRecord:
  assumes "re_ops env = ops" and "dp_fencingToken (dr_value record) = f"
  shows "quiet (carries f) (reconcileRecord env record)"
  unfolding reconcileRecord_def Let_def
  apply (rule quiet_bind)
   subgoal using assms(2) by (auto intro: quiet_intros)
  apply (rule quiet_sum)
   subgoal by (rule quiet_intros)
  apply (rule quiet_if)
   subgoal using assms by (intro quiet_cas) (auto intro: quiet_ret carries_decide)
  subgoal using assms by (auto intro: carries_decide)
  done

lemma quiet_rollback:
  assumes "re_ops env = ops"
  shows "quiet (\<lambda>e. \<not> isDrain e) (rollback env record prior existed pending route cause)"
    and "dp_fencingToken (dr_value record) = f \<Longrightarrow> quiet (carries f) (rollback env record prior existed pending route cause)"
proof -
  show "quiet (\<lambda>e. \<not> isDrain e) (rollback env record prior existed pending route cause)"
    unfolding rollback_def Let_def
    by (rule quiet_cas [OF assms]) (auto intro!: quiet_reconcileRecord_no_drain quiet_intros)
  show "quiet (carries f) (rollback env record prior existed pending route cause)" if "dp_fencingToken (dr_value record) = f"
    unfolding rollback_def Let_def
    by (rule quiet_cas [OF assms]) (use that in \<open>auto intro!: carries_reconcileRecord [OF assms] quiet_intros\<close>)
qed

lemma carries_publishFinish:
  assumes "re_ops env = ops" and "dp_fencingToken (dr_value record) = f"
  shows "quiet (carries f) (publishFinish env a b digest record prior existed pending)"
  unfolding publishFinish_def intent_def Let_def
  by (rule quiet_cas [OF assms(1)]) (use assms in \<open>auto intro!: quiet_rollback(2) [OF assms(1)] quiet_intros\<close>)

end

text \<open>
  Stepping through a program: so far the trace is fine and holds the events \<open>F\<close>.
\<close>

definition sofar :: "hostEvent list \<Rightarrow> u64 \<Rightarrow> string \<Rightarrow> hostEvent set \<Rightarrow> 'st world \<Rightarrow> bool" where
  "sofar l0 f rr F w \<longleftrightarrow> (\<exists>es. w_log w = l0 @ es \<and> traceOk f rr es \<and> F \<subseteq> set es)"

lemma sofar_done: "sofar l0 f rr F w \<Longrightarrow> traceFrom l0 f rr r w"
  by (auto simp: sofar_def traceFrom_def)

lemma sofar_quiet:
  fixes m :: "('st, 'a) rollout"
  assumes "sofar l0 f rr F w" and "quiet (\<lambda>e. \<not> isDrain e \<and> carries f e) m" and "\<And>x w'. sofar l0 f rr F w' \<Longrightarrow> Q x w'"
  shows "wp m Q w"
proof (rule wp_mono [OF assms(2) [unfolded quiet_def, rule_format]])
  fix x and w' :: "'st world"
  assume "\<exists>xs. w_log w' = w_log w @ xs \<and> list_all (\<lambda>e. \<not> isDrain e \<and> carries f e) xs"
  then obtain xs where xs: "w_log w' = w_log w @ xs" "list_all (\<lambda>e. \<not> isDrain e \<and> carries f e) xs" by blast
  obtain es where es: "w_log w = l0 @ es" "traceOk f rr es" "F \<subseteq> set es" using assms(1) by (auto simp: sofar_def)
  have "traceOk f rr (es @ xs)"
    using es(2) xs(2) drainsGuarded_no_drain [of f rr es xs] by (auto simp: traceOk_def list_all_iff)
  with es xs show "Q x w'" by (intro assms(3)) (auto simp: sofar_def)
qed

lemma sofar_event:
  assumes "sofar l0 f rr F w" and "\<not> isDrain e" "carries f e" "w_log w' = w_log w @ [e]"
  shows "sofar l0 f rr (insert e F) w'"
  using assms traceOk_snoc [of f rr _ e] by (fastforce simp: sofar_def)

lemma sofar_exec:
  assumes "sofar l0 f rr F w" and "fc = f"
  shows "(\<And>r w'. sofar l0 f rr (insert (EvPull f a r) F) w' \<Longrightarrow> wp (k r) Q w') \<Longrightarrow>
      wp (State_Monad.bind (execPull env fc a) k) Q w"
    and "(\<And>r w'. sofar l0 f rr (insert (EvStart f a (fst r) (snd r)) F) w' \<Longrightarrow> wp (k2 r) Q w') \<Longrightarrow>
      wp (State_Monad.bind (execStart env fc a) k2) Q w"
    and "(\<And>r w'. sofar l0 f rr (insert (EvReady f a i r) F) w' \<Longrightarrow> wp (k r) Q w') \<Longrightarrow>
      wp (State_Monad.bind (execReady env fc a i) k) Q w"
    and "(\<And>r w'. sofar l0 f rr (insert (EvCutover f rf t r) F) w' \<Longrightarrow> wp (k r) Q w') \<Longrightarrow>
      wp (State_Monad.bind (execCutover env fc rf t) k) Q w"
  unfolding exec_defs wp_simps assms(2)
  by (elim meta_allE, elim meta_impE, rule sofar_event [OF assms(1)], simp_all)+

lemma sofar_calls:
  assumes "sofar l0 f rr F w"
  shows "(\<And>w'. sofar l0 f rr F w' \<Longrightarrow> wp (k1 ()) Q w') \<Longrightarrow> wp (State_Monad.bind (progress env i p) k1) Q w"
    and "(\<And>x w'. sofar l0 f rr F w' \<Longrightarrow> wp (k2 x) Q w') \<Longrightarrow> wp (State_Monad.bind (requireObservationPersist env) k2) Q w"
    and "(\<And>x w'. sofar l0 f rr F w' \<Longrightarrow> wp (k3 x) Q w') \<Longrightarrow> wp (State_Monad.bind (bindLiveCatalogApp env a) k3) Q w"
    and "wp (abandonStalePublish env record) (traceFrom l0 f rr) w"
  unfolding wp_bind by (rule sofar_quiet [OF assms]; auto intro!: quiet_conj quiet_intros sofar_done)+

context deployment_store
begin

lemma sofar_intent:
  assumes "re_ops env = ops" "sofar l0 f rr F w" "dp_fencingToken (dr_value record) = f"
    and "\<And>e w'. sofar l0 f rr F w' \<Longrightarrow> wp (k (Err e)) Q w'"
    and "\<And>r w'. sofar l0 f rr F w' \<Longrightarrow> dp_fencingToken (dr_value r) = f \<Longrightarrow> wp (k (Ok r)) Q w'"
  shows "wp (State_Monad.bind (intent env record ph pn ac de) k) Q w"
  unfolding intent_def Let_def wp_bind
proof (rule wp_cas [OF assms(1)], goal_cases)
  case (1 s' e)
  show ?case using assms(2) by (intro assms(4)) (simp add: sofar_def)
next
  case (2 s')
  show ?case using assms(2,3) by (intro assms(5)) (simp_all add: sofar_def)
qed

text \<open>The stages of \<^verbatim>\<open>publish\<close>, from the last to the first.\<close>

lemma trace_rollback:
  assumes "re_ops env = ops" and "sofar l0 f rr F w" and "dp_fencingToken (dr_value record) = f"
  shows "wp (rollback env record prior existed pending route cause) (traceFrom l0 f rr) w"
  by (rule sofar_quiet [OF assms(2) quiet_conj [OF quiet_rollback(1) [OF assms(1)] quiet_rollback(2) [OF assms(1,3)]]])
    (rule sofar_done)

lemma trace_publishFinish:
  assumes "re_ops env = ops" and "sofar l0 f rr F w" and "drainAllowed f rr xs" "set xs \<subseteq> F"
    and "dp_fencingToken (dr_value record) = f"
  shows "wp (publishFinish env a b digest record prior existed pending) (traceFrom l0 f rr) w"
proof -
  obtain es where es: "w_log w = l0 @ es" "traceOk f rr es" "F \<subseteq> set es" using assms(2) by (auto simp: sofar_def)
  have "drainAllowed f rr es" using assms(3,4) es(3) by (fastforce simp: drainAllowed_def)
  then show ?thesis by (rule quiet_trace_allowed [OF carries_publishFinish [OF assms(1,5)] es(1,2)])
qed

lemma trace_publishReady:
  assumes "re_ops env = ops" and "sofar l0 f (ap_ruleRef a) F w"
    and "EvStart f b pending None \<in> F" and "dp_fencingToken (dr_value record) = f"
  shows "wp (publishReady env a b digest record prior existed pending) (traceFrom l0 f (ap_ruleRef a)) w"
  unfolding publishReady_def
  apply (rule sofar_intent [OF assms(1,2,4)])
   apply (simp add: wp_simps sofar_done)
  subgoal for r w1
    apply (simp only: res.case)
    apply (erule sofar_calls(1))
    apply (erule sofar_exec(3), simp)
    subgoal for w2 notReady w3
      apply (cases notReady)
       prefer 2
       subgoal by (simp add: trace_rollback [OF assms(1)])
      apply (cases "ap_ruleRef a = []")
       subgoal using assms(3)
         by (simp, intro trace_publishFinish [OF assms(1), where xs = "[EvStart f b pending None, EvReady f b pending None]"])
           (auto simp: drainAllowed_def)
      apply (simp only: option.case if_True simp_thms)
      apply (rule sofar_intent [OF assms(1)], assumption, assumption)
       apply (simp add: wp_simps sofar_done)
      subgoal for r2 w4
        apply (simp only: res.case)
        apply (erule sofar_calls(1))
        apply (erule sofar_exec(4), simp)
        subgoal for w5 failed w6
          apply (cases failed)
           prefer 2
           subgoal by (simp add: trace_rollback [OF assms(1)])
          subgoal using assms(3)
            by (simp, intro trace_publishFinish [OF assms(1), where xs = "[EvStart f b pending None, EvReady f b pending None, EvCutover f (ap_ruleRef a) pending None]"])
              (auto simp: drainAllowed_def)
          done
        done
      done
    done
  done

lemma bindLiveCatalogApp_ruleRef:
  "wp (bindLiveCatalogApp env a) (\<lambda>r w'. \<forall>b. r = Ok b \<longrightarrow> ap_ruleRef b = ap_ruleRef a \<and> ap_id b = ap_id a) w"
  by (auto simp: bindLiveCatalogApp_def wp_simps Let_def split: option.splits)

lemma sofar_bind:
  assumes "sofar l0 f rr F w"
    and "\<And>r w'. sofar l0 f rr F w' \<Longrightarrow> \<forall>b. r = Ok b \<longrightarrow> ap_ruleRef b = ap_ruleRef a \<and> ap_id b = ap_id a \<Longrightarrow> wp (k r) Q w'"
  shows "wp (State_Monad.bind (bindLiveCatalogApp env a) k) Q w"
proof -
  have "wp (bindLiveCatalogApp env a) (\<lambda>_. sofar l0 f rr F) w"
    by (rule sofar_quiet [OF assms(1)]) (auto intro!: quiet_intros)
  from wp_conj [OF this bindLiveCatalogApp_ruleRef] show ?thesis
    unfolding wp_bind by (rule wp_mono) (blast intro: assms(2))
qed

lemma trace_publishStart:
  assumes "re_ops env = ops" and "sofar l0 f (ap_ruleRef a) F w" and "dp_fencingToken (dr_value record) = f"
  shows "wp (publishStart env a digest record prior existed) (traceFrom l0 f (ap_ruleRef a)) w"
  unfolding publishStart_def
  apply (rule sofar_intent [OF assms])
   apply (simp add: wp_simps sofar_done)
  subgoal for r w1
    apply (simp only: res.case)
    apply (erule sofar_calls(1))
    apply (erule sofar_calls(2))
    subgoal for w2 gone w3
      apply (cases gone)
       prefer 2
       subgoal by (simp add: sofar_calls(4))
      apply (simp only: simp_thms if_False)
      apply (erule sofar_bind)
      subgoal for b w4
        apply (cases b)
          prefer 2
          subgoal by (simp add: sofar_calls(4))
         prefer 2
         subgoal by (simp add: sofar_calls(4))
        apply (simp only: res.case Let_def)
        apply (erule sofar_exec(2), simp)
        subgoal for c started w5
          apply (cases "snd started")
           prefer 2
           subgoal by (simp add: trace_rollback [OF assms(1)])
          subgoal using trace_publishReady [OF assms(1), of l0 f c "insert (EvStart f (pinnedRuntimeApp env c digest) (fst started) None) F" w5
              "pinnedRuntimeApp env c digest" "fst started" r] by simp
          done
        done
      done
    done
  done

lemma trace_publishPull:
  assumes "re_ops env = ops" and "w_log w = l0" and "dp_fencingToken (dr_value record) = f"
  shows "wp (publishPull env a digest record prior existed) (traceFrom l0 f (ap_ruleRef a)) w"
proof -
  have 0: "sofar l0 f (ap_ruleRef a) {} w" using assms(2) by (simp add: sofar_def traceOk_def)
  show ?thesis
    unfolding publishPull_def
    apply (rule sofar_calls(2) [OF 0])
    subgoal for gone w1
      apply (cases gone)
       prefer 2
       subgoal by (simp add: sofar_calls(4))
      apply (simp only: simp_thms if_False)
      apply (erule sofar_bind)
      subgoal for b w2
        apply (cases b)
          prefer 2
          subgoal by (simp add: sofar_calls(4))
         prefer 2
         subgoal by (simp add: sofar_calls(4))
        apply (simp only: res.case Let_def)
        apply (erule sofar_calls(1))
        apply (erule sofar_exec(1), simp add: assms(3))
        subgoal for c w3 failed w4
          apply (cases failed)
           prefer 2
           subgoal by (simp add: trace_rollback [OF assms(1)] assms(3))
          apply (simp only: option.case)
          apply (erule sofar_calls(2))
          subgoal for gone w5
            apply (cases gone)
             prefer 2
             subgoal by (simp add: sofar_calls(4))
            subgoal using trace_publishStart [OF assms(1), of l0 f c _ w5 "record"] assms(3) by simp
            done
          done
        done
      done
    done
qed

lemma trace_publish:
  assumes "re_ops env = ops"
  shows "wp (publish env a digest) (\<lambda>r w'. \<exists>f. traceFrom (w_log w) f (ap_ruleRef a) r w') w"
proof -
  have stop: "\<exists>f. traceFrom (w_log w) f (ap_ruleRef a) r w'" if "w_log w' = w_log w \<or> (\<exists>x y z. w_log w' = w_log w @ [EvAudit x y z])" for r and w' :: "'a world"
    using that by (auto simp: traceFrom_def traceOk_def drainsGuarded_def Cons_eq_append_conv)
  have pull: "wp (publishPull env a digest record prior existed) (\<lambda>r w'. \<exists>f. traceFrom (w_log w) f (ap_ruleRef a) r w') w1"
    if "w_log w1 = w_log w" for w1 "record" prior existed
    by (rule wp_mono [OF trace_publishPull [OF assms that refl]]) blast
  have lease: "wp (State_Monad.bind (acquireLease env i ver v until) (\<lambda>leased. case leased of
        Ok record \<Rightarrow> publishPull env a digest record prior existed | _ \<Rightarrow> ret (Some ErrReconcilePending)))
      (\<lambda>r w'. \<exists>f. traceFrom (w_log w) f (ap_ruleRef a) r w') w1"
    if "w_log w1 = w_log w" for i ver v until prior existed w1
    unfolding wp_bind by (rule wp_acquire [OF assms]) (use that in \<open>auto simp: wp_simps intro!: stop pull\<close>)
  have rest: "wp (State_Monad.bind (requireObservationPersist env) (\<lambda>gone. case gone of Some e \<Rightarrow> ret (Some e)
        | None \<Rightarrow> State_Monad.bind (leaseUntil env) (\<lambda>until. State_Monad.bind (acquireLease env i ver v until) (\<lambda>leased. case leased of
            Ok record \<Rightarrow> publishPull env a digest record prior existed | _ \<Rightarrow> ret (Some ErrReconcilePending)))))
      (\<lambda>r w'. \<exists>f. traceFrom (w_log w) f (ap_ruleRef a) r w') w1"
    if "w_log w1 = w_log w" for i ver v prior existed w1
    using that lease by (auto simp: requireObservationPersist_def leaseUntil_def wp_simps split: option.splits intro!: stop)
  show ?thesis
    unfolding publish_def Let_def wp_if wp_bind
    by (auto simp: wp_simps audit_def intro!: stop wp_load [OF assms] rest [unfolded wp_bind] split: if_splits)
qed

end

section \<open>Properties\<close>

text \<open>A host on which everything works, and an application with a published version.\<close>

definition calmEnv :: "'st storeOps \<Rightarrow> 'st rolloutEnv" where
  "calmEnv ops = \<lparr> re_ops = ops, re_hasAuditor = True, re_hasStore = True, re_hasExecutor = True, re_leaseDuration = 0,
     re_validRange = (\<lambda>_. True), re_lower = (\<lambda>s. s), re_pinCompose = (\<lambda>c _ _. c), re_now = (\<lambda>n. n), re_live = (\<lambda>_. None),
     re_call = (\<lambda>_. noFault), re_other = (\<lambda>_ s. s), re_pull = (\<lambda>_. None), re_start = (\<lambda>_. (''web-2'', None)),
     re_ready = (\<lambda>_. None), re_cutover = (\<lambda>_. None), re_drain = (\<lambda>_. None), re_remove = (\<lambda>_. None),
     re_inspect = (\<lambda>_. Inl ErrAgentOffline) \<rparr>"

definition webApp :: app where
  "webApp = zeroApp\<lparr> ap_id := ''web'', ap_generation := ''g2'', ap_image := ''nginx:2'', ap_ruleRef := ''rule-1'' \<rparr>"

definition webRecord :: deploymentRecord where
  "webRecord = \<lparr> dr_version = 4, dr_value = zeroDeployment\<lparr> dp_appID := ''web'', dp_instanceID := ''web-1'', dp_image := ''nginx:1'',
     dp_ruleRef := ''rule-1'', dp_ruleTarget := ''web-1'', dp_generation := ''g1'', dp_phase := PhaseActive, dp_fencingToken := 2 \<rparr> \<rparr>"

definition webWorld :: "deploymentSnapshot option world" where
  "webWorld = \<lparr> w_store = Some \<lparr> sn_records = [(''web'', webRecord)], sn_fences = [(''web'', 2)] \<rparr>, w_log = [], w_tick = 0 \<rparr>"

text \<open>
  C23. Publishing keeps a serving instance until its successor serves: in every environment (host
  failures, store faults, interference by other actors, a catalog that changes under the run)
  all calls of one run carry one fencing token, and an instance is drained only after this run
  started a candidate, found it ready and, when the application has a rule, switched the rule to
  it, each of them with success.
\<close>

theorem publish_order:
  assumes "re_ops env = perOps" and "run_state (publish env a digest) w = (r, w')"
  shows "\<exists>f es. w_log w' = w_log w @ es \<and> (\<forall>e \<in> set es. eventFence e = None \<or> eventFence e = Some f)
    \<and> (\<forall>xs g b i res ys. es = xs @ EvDrain g b i res # ys \<longrightarrow>
        (\<exists>c n. EvStart f c n None \<in> set xs \<and> EvReady f c n None \<in> set xs
          \<and> (ap_ruleRef a \<noteq> [] \<longrightarrow> EvCutover f (ap_ruleRef a) n None \<in> set xs)))"
proof -
  obtain f es where "w_log w' = w_log w @ es" "traceOk f (ap_ruleRef a) es"
    using wp_run [OF per.trace_publish [OF assms(1)] assms(2)] by (auto simp: traceFrom_def)
  moreover from this have "drainAllowed f (ap_ruleRef a) xs" if "es = xs @ EvDrain g b i res # ys" for xs g b i res ys
    using that by (auto simp: traceOk_def drainsGuarded_def)
  ultimately show ?thesis
    unfolding drainAllowed_def by (intro exI [of _ f] exI [of _ es]) (auto simp: traceOk_def carries_def list_all_iff)
qed

theorem publish_order_witness:
  "\<exists>w' f xs ys. run_state (publish (calmEnv perOps) webApp []) webWorld = (None, w')
    \<and> w_log w' = xs @ EvDrain 3 webApp ''web-1'' None # ys
    \<and> (\<exists>c n. EvStart f c n None \<in> set xs \<and> EvReady f c n None \<in> set xs \<and> EvCutover f ''rule-1'' n None \<in> set xs)"
proof -
  let ?w = "snd (run_state (publish (calmEnv perOps) webApp []) webWorld)"
  have run: "run_state (publish (calmEnv perOps) webApp []) webWorld = (None, ?w)"
  proof -
    have "fst (run_state (publish (calmEnv perOps) webApp []) webWorld) = None" by code_simp
    then show ?thesis by (metis prod.collapse)
  qed
  have "EvDrain 3 webApp ''web-1'' None \<in> set (w_log ?w)" by code_simp
  then obtain xs ys where xs: "w_log ?w = xs @ EvDrain 3 webApp ''web-1'' None # ys" by (meson split_list)
  have "re_ops (calmEnv perOps) = perOps" by (simp add: calmEnv_def)
  from publish_order [OF this run] obtain f es where es: "w_log ?w = w_log webWorld @ es"
    and ord: "\<And>xs g b i res ys. es = xs @ EvDrain g b i res # ys \<Longrightarrow>
      \<exists>c n. EvStart f c n None \<in> set xs \<and> EvReady f c n None \<in> set xs
        \<and> (ap_ruleRef webApp \<noteq> [] \<longrightarrow> EvCutover f (ap_ruleRef webApp) n None \<in> set xs)"
    by blast
  from es xs have "es = xs @ EvDrain 3 webApp ''web-1'' None # ys" by (simp add: webWorld_def)
  from ord [OF this] have
    "\<exists>c n. EvStart f c n None \<in> set xs \<and> EvReady f c n None \<in> set xs \<and> EvCutover f ''rule-1'' n None \<in> set xs"
    by (simp add: webApp_def)
  with run xs show ?thesis by blast
qed

text \<open>
  C24. A running rollout is not disturbed by a second one: when the record of the application is
  in an unfinished phase, or active under a lease that has not run out, publishing returns
  \<^verbatim>\<open>ErrReconcilePending\<close> and changes neither the store nor the host.
\<close>

theorem publish_refuses_busy:
  assumes "re_hasAuditor env" "re_hasStore env" "re_hasExecutor env" "appValidate (re_validRange env) a = Ok ()"
    and "\<And>n s. re_other env n s = s"
    and "so_load (re_ops env) (re_call env (w_tick w)) (ap_id a) (w_store w) = Ok (Some record)"
    and "dp_phase (dr_value record) \<notin> {PhaseUnset, PhaseActive}
      \<or> dp_lease (dr_value record) \<noteq> [] \<and> re_now env (Suc (w_tick w)) < dp_leaseUntil (dr_value record)"
  shows "run_state (publish env a digest) w = (Some ErrReconcilePending, w\<lparr> w_tick := w_tick w + 2 \<rparr>)"
proof -
  have "rolloutBusy (dr_value record) True (re_now env (Suc (w_tick w)))"
    using assms(7) by (auto simp: rolloutBusy_def)
  with assms(1-6) show ?thesis
    by (simp add: publish_def storeLoad_def storeA_def tickA_def recordOf_def)
qed

definition busyWorld :: "deploymentSnapshot option world" where
  "busyWorld = \<lparr> w_store = Some \<lparr> sn_records = [(''web'', webRecord\<lparr> dr_value := (dr_value webRecord)\<lparr> dp_phase := PhaseReadiness \<rparr> \<rparr>)],
     sn_fences = [(''web'', 2)] \<rparr>, w_log = [], w_tick = 0 \<rparr>"

theorem publish_refuses_busy_witness:
  "run_state (publish (calmEnv perOps) webApp []) busyWorld = (Some ErrReconcilePending, busyWorld\<lparr> w_tick := 2 \<rparr>)"
proof -
  have "run_state (publish (calmEnv perOps) webApp []) busyWorld = (Some ErrReconcilePending, busyWorld\<lparr> w_tick := w_tick busyWorld + 2 \<rparr>)"
  proof (rule publish_refuses_busy)
    show "appValidate (re_validRange (calmEnv perOps)) webApp = Ok ()" by code_simp
    show "so_load (re_ops (calmEnv perOps)) (re_call (calmEnv perOps) (w_tick busyWorld)) (ap_id webApp) (w_store busyWorld)
        = Ok (Some (webRecord\<lparr> dr_value := (dr_value webRecord)\<lparr> dp_phase := PhaseReadiness \<rparr> \<rparr>))" by code_simp
  qed (simp_all add: calmEnv_def webRecord_def)
  then show ?thesis by (simp add: busyWorld_def)
qed

end
