(* ===== verification/L4_Model.thy ===== *)
theory L4_Model
  imports Go_Strings Go_State "HOL-Library.Multiset" "HOL-Library.List_Lexorder" "HOL-Library.Char_ord"
begin

text \<open>
  The mapping model of \<^verbatim>\<open>src/plugins/reverse-l4\<close>: mappings and their validation (\<^verbatim>\<open>model.go\<close>),
  the catalog document with the checks of its encoder and decoder (\<^verbatim>\<open>state.go\<close>), the document
  that \<^verbatim>\<open>commit\<close> writes, and the fields that an operation identifier is hashed from. Errors are the
  sentinel that \<^verbatim>\<open>errors.Is\<close> finds; texts around it are dropped. The checks and constants of the
  plugin SDK are the parameter \<open>l4sdk\<close>.
\<close>

section \<open>Errors and the SDK\<close>

datatype l4_error = ErrInvalidMapping | ErrMappingExists | ErrMappingNotFound | ErrMappingBound
  | ErrHostRuntimeUnavailable | ErrHostOperationFailed | ErrHostRejectedRequest | ErrStateUnavailable
  | ErrDeadline | ErrCanceled | ErrBoth l4_error l4_error

type_synonym 'a l4 = "(l4_error, 'a) res"

record reverseRequest =
  rq_entryAgentID :: string
  rq_exitAgentID :: string
  rq_protocol :: string
  rq_backendHost :: string
  rq_backendPort :: int
  rq_relayChain :: "int list"
  rq_sessionRef :: string

record l4sdk =
  sk_protocolTCP :: string
  sk_protocolUDP :: string
  sk_stateOnline :: string
  sk_stateOffline :: string
  sk_listenHostOk :: "string \<Rightarrow> bool"
  sk_reverseRequestOk :: "reverseRequest \<Rightarrow> bool"
  sk_sha256 :: "string \<Rightarrow> wire"

section \<open>Mappings\<close>

definition MaxMappings :: nat where "MaxMappings = 256"

definition MaxRelayHops :: nat where "MaxRelayHops = 32"

record mapping =
  mp_id :: string
  mp_name :: string
  mp_entryAgentID :: string
  mp_exitAgentID :: string
  mp_protocol :: string
  mp_listenHost :: string
  mp_listenPort :: int
  mp_backendHost :: string
  mp_backendPort :: int
  mp_relayChain :: "int list"
  mp_enabled :: bool
  mp_ruleRef :: string
  mp_sessionRef :: string
  mp_bridgeHost :: string
  mp_bridgePort :: int
  mp_revision :: u64
  mp_recoveryGeneration :: u64

definition zeroMapping :: mapping where
  "zeroMapping = \<lparr> mp_id = [], mp_name = [], mp_entryAgentID = [], mp_exitAgentID = [], mp_protocol = [],
     mp_listenHost = [], mp_listenPort = 0, mp_backendHost = [], mp_backendPort = 0, mp_relayChain = [],
     mp_enabled = False, mp_ruleRef = [], mp_sessionRef = [], mp_bridgeHost = [], mp_bridgePort = 0,
     mp_revision = 0, mp_recoveryGeneration = 0 \<rparr>"

definition mappingIDChar :: "char \<Rightarrow> bool" where
  "mappingIDChar c \<longleftrightarrow> CHR ''a'' \<le> c \<and> c \<le> CHR ''z'' \<or> CHR ''0'' \<le> c \<and> c \<le> CHR ''9'' \<or> c = CHR ''-''"

definition validMappingID :: "string \<Rightarrow> bool" where
  "validMappingID value =
     (if value = [] \<or> length value > 64 \<or> hd value = CHR ''-'' \<or> last value = CHR ''-'' then False
      else list_all mappingIDChar value)"

definition boundedRef :: "string \<Rightarrow> nat \<Rightarrow> bool" where
  "boundedRef value maximum \<longleftrightarrow> value \<noteq> [] \<and> length value \<le> maximum
     \<and> \<not> containsAny value [CHR 0x0D, CHR 0x0A, CHR 0x00, CHR 0x09, CHR '' ''] \<and> value = trimSpace value"

definition validAgentRef :: "string \<Rightarrow> bool" where
  "validAgentRef value \<longleftrightarrow> boundedRef value 128"

definition validBackendHost :: "string \<Rightarrow> bool" where
  "validBackendHost value =
     (if \<not> boundedRef value 253 then False
      else \<not> containsSub value ''://'' \<and> \<not> containsAny value [CHR ''/'', CHR 0x5C])"

definition mappingValidate :: "l4sdk \<Rightarrow> mapping \<Rightarrow> unit l4" where
  "mappingValidate sdk m =
     (if \<not> validMappingID (mp_id m) then Err ErrInvalidMapping
      else if mp_name m \<noteq> trimSpace (mp_name m) \<or> length (mp_name m) > 128
        \<or> containsAny (mp_name m) [CHR 0x0D, CHR 0x0A, CHR 0x00] then Err ErrInvalidMapping
      else if \<not> validAgentRef (mp_entryAgentID m) then Err ErrInvalidMapping
      else if \<not> validAgentRef (mp_exitAgentID m) then Err ErrInvalidMapping
      else if mp_entryAgentID m = mp_exitAgentID m then Err ErrInvalidMapping
      else if mp_protocol m \<noteq> sk_protocolTCP sdk \<and> mp_protocol m \<noteq> sk_protocolUDP sdk then Err ErrInvalidMapping
      else if mp_listenPort m \<le> 0 \<or> mp_listenPort m > 65535 then Err ErrInvalidMapping
      else if \<not> sk_listenHostOk sdk (mp_listenHost m) then Err ErrInvalidMapping
      else if \<not> validBackendHost (mp_backendHost m) then Err ErrInvalidMapping
      else if mp_backendPort m \<le> 0 \<or> mp_backendPort m > 65535 then Err ErrInvalidMapping
      else if length (mp_relayChain m) > MaxRelayHops then Err ErrMappingBound
      else if list_ex (\<lambda>hop. hop \<le> 0) (mp_relayChain m) then Err ErrInvalidMapping
      else if mp_ruleRef m \<noteq> [] \<and> \<not> boundedRef (mp_ruleRef m) 128 then Err ErrInvalidMapping
      else if mp_sessionRef m \<noteq> [] \<and> \<not> boundedRef (mp_sessionRef m) 190 then Err ErrInvalidMapping
      else if (mp_bridgeHost m = []) \<noteq> (mp_bridgePort m = 0) then Err ErrInvalidMapping
      else if mp_bridgePort m < 0 \<or> mp_bridgePort m > 65535 then Err ErrInvalidMapping
      else Ok ())"

definition effectiveListenHost :: "mapping \<Rightarrow> string" where
  "effectiveListenHost m = (if mp_listenHost m = [] then ''0.0.0.0'' else mp_listenHost m)"

definition sameUserSpec :: "mapping \<Rightarrow> mapping \<Rightarrow> bool" where
  "sameUserSpec m other \<longleftrightarrow> mp_id m = mp_id other \<and> mp_name m = mp_name other
     \<and> mp_entryAgentID m = mp_entryAgentID other \<and> mp_exitAgentID m = mp_exitAgentID other
     \<and> mp_protocol m = mp_protocol other \<and> effectiveListenHost m = effectiveListenHost other
     \<and> mp_listenPort m = mp_listenPort other \<and> mp_backendHost m = mp_backendHost other
     \<and> mp_backendPort m = mp_backendPort other \<and> mp_relayChain m = mp_relayChain other"

text \<open>
  \<^verbatim>\<open>sort.Slice\<close> sorts by the identifier and then by the revision. It is not stable, but records
  with equal keys do not meet in a catalog, where identifiers are unique.
\<close>

definition sortMappings :: "mapping list \<Rightarrow> mapping list" where
  "sortMappings ms = sort_key (\<lambda>m. mp_id m) (sort_key mp_revision ms)"

section \<open>The catalog document\<close>

record mappingSnapshot =
  ms_revision :: u64
  ms_mappings :: "mapping list"

definition emptySnapshot :: mappingSnapshot where
  "emptySnapshot = \<lparr> ms_revision = 0, ms_mappings = [] \<rparr>"

definition snapshotMapping :: "mappingSnapshot \<Rightarrow> string \<Rightarrow> mapping option" where
  "snapshotMapping sn i = find (\<lambda>m. mp_id m = i) (ms_mappings sn)"

definition encodeMappingState :: "l4sdk \<Rightarrow> (mappingSnapshot \<Rightarrow> bool) \<Rightarrow> mappingSnapshot \<Rightarrow> mappingSnapshot l4" where
  "encodeMappingState sdk fits sn =
     (if length (ms_mappings sn) > MaxMappings then Err ErrMappingBound
      else if list_ex (\<lambda>m. mappingValidate sdk m \<noteq> Ok ()) (ms_mappings sn) then Err ErrStateUnavailable
      else if \<not> fits sn then Err ErrStateUnavailable
      else Ok sn)"

fun decodeLoop :: "l4sdk \<Rightarrow> string list \<Rightarrow> mapping list \<Rightarrow> unit l4" where
  "decodeLoop sdk seen [] = Ok ()"
| "decodeLoop sdk seen (m # ms) =
     (if mappingValidate sdk m \<noteq> Ok () then Err ErrStateUnavailable
      else if mp_id m \<in> set seen then Err ErrStateUnavailable
      else decodeLoop sdk (mp_id m # seen) ms)"

definition decodeMappingState :: "l4sdk \<Rightarrow> (mappingSnapshot \<Rightarrow> bool) \<Rightarrow> mappingSnapshot \<Rightarrow> mappingSnapshot l4" where
  "decodeMappingState sdk fits sn =
     (if \<not> fits sn then Err ErrStateUnavailable
      else if length (ms_mappings sn) > MaxMappings then Err ErrMappingBound
      else rbind (decodeLoop sdk [] (ms_mappings sn)) (\<lambda>_. Ok sn))"

text \<open>The document that \<^verbatim>\<open>commit\<close> saves: \<open>removed\<close> is set when a mapping is deleted.\<close>

fun commitLoop :: "mapping \<Rightarrow> string option \<Rightarrow> mapping list \<Rightarrow> mapping list" where
  "commitLoop m removed [] = []"
| "commitLoop m removed (existing # rest) =
     (if removed = Some (mp_id existing) then commitLoop m removed rest
      else if mp_id m \<noteq> [] \<and> mp_id existing = mp_id m then m # commitLoop m removed rest
      else existing # commitLoop m removed rest)"

definition commitSnapshot :: "mappingSnapshot \<Rightarrow> mapping \<Rightarrow> string option \<Rightarrow> mappingSnapshot" where
  "commitSnapshot sn m removed =
     (let kept = commitLoop m removed (ms_mappings sn);
          all = (if mp_id m \<noteq> [] \<and> removed = None \<and> \<not> list_ex (\<lambda>existing. mp_id existing = mp_id m) kept
            then kept @ [m] else kept)
      in \<lparr> ms_revision = ms_revision sn + 1, ms_mappings = sortMappings all \<rparr>)"

section \<open>Operation identifiers\<close>

definition revisionString :: "u64 \<Rightarrow> string" where
  "revisionString r = ''rev-'' @ itoa (unat r)"

definition generationString :: "u64 \<Rightarrow> string" where
  "generationString g = ''gen-'' @ itoa (unat g)"

text \<open>\<^verbatim>\<open>%d\<close> of a signed integer and \<^verbatim>\<open>%t\<close> of a Boolean.\<close>

definition intText :: "int \<Rightarrow> string" where
  "intText i = (if i < 0 then CHR ''-'' # itoa (nat (- i)) else itoa (nat i))"

definition boolText :: "bool \<Rightarrow> string" where
  "boolText b = (if b then ''true'' else ''false'')"

text \<open>The bytes that are hashed: every field, followed by a zero byte.\<close>

definition keyBytes :: "string list \<Rightarrow> string" where
  "keyBytes fs = concat (map (\<lambda>field. field @ [CHR 0x00]) fs)"

definition stableOperationKey :: "l4sdk \<Rightarrow> string list \<Rightarrow> string" where
  "stableOperationKey sdk fs = ''reverse-l4:'' @ hexEncode (sk_sha256 sdk (keyBytes fs))"

definition relayField :: "int \<Rightarrow> string" where
  "relayField hop = ''relay-'' @ intText hop"

definition mutationFields :: "string \<Rightarrow> string \<Rightarrow> mapping \<Rightarrow> u64 \<Rightarrow> string list" where
  "mutationFields requestKey action m revision =
     [''reverse-l4'', ''mutation'', requestKey, action, mp_id m, revisionString revision,
      mp_name m, mp_entryAgentID m, mp_exitAgentID m, mp_protocol m,
      ''listen-'' @ intText (mp_listenPort m), mp_backendHost m, ''backend-'' @ intText (mp_backendPort m)]
     @ map relayField (mp_relayChain m)
     @ (if effectiveListenHost m \<noteq> ''0.0.0.0'' then [''listen-host'', effectiveListenHost m] else [])
     @ [''enabled-'' @ boolText (mp_enabled m), mp_ruleRef m, mp_sessionRef m, mp_bridgeHost m,
        ''bridge-'' @ intText (mp_bridgePort m), generationString (mp_recoveryGeneration m)]"

definition mutationOperationKey :: "l4sdk \<Rightarrow> string \<Rightarrow> string \<Rightarrow> mapping \<Rightarrow> u64 \<Rightarrow> string" where
  "mutationOperationKey sdk requestKey action m revision =
     stableOperationKey sdk (mutationFields requestKey action m revision)"

definition recoveryFields :: "string \<Rightarrow> string \<Rightarrow> u64 \<Rightarrow> u64 \<Rightarrow> string list" where
  "recoveryFields action mappingID revision generation =
     [''reverse-l4'', ''recovery'', action, mappingID, revisionString revision, generationString generation]"

definition recoveryOperationKey :: "l4sdk \<Rightarrow> string \<Rightarrow> string \<Rightarrow> u64 \<Rightarrow> u64 \<Rightarrow> string" where
  "recoveryOperationKey sdk action mappingID revision generation =
     stableOperationKey sdk (recoveryFields action mappingID revision generation)"

section \<open>Documents\<close>

lemma decodeLoop_iff:
  "decodeLoop sdk seen ms = Ok ()
    \<longleftrightarrow> (\<forall>m \<in> set ms. mappingValidate sdk m = Ok ()) \<and> distinct (map mp_id ms) \<and> mp_id ` set ms \<inter> set seen = {}"
  by (induction sdk seen ms rule: decodeLoop.induct) auto

lemma decodeMappingState_iff:
  "decodeMappingState sdk fits sn = Ok d \<longleftrightarrow> d = sn \<and> fits sn \<and> length (ms_mappings sn) \<le> MaxMappings
     \<and> (\<forall>m \<in> set (ms_mappings sn). mappingValidate sdk m = Ok ()) \<and> distinct (map mp_id (ms_mappings sn))"
proof -
  have "decodeLoop sdk [] (ms_mappings sn) = Ok u \<longleftrightarrow> decodeLoop sdk [] (ms_mappings sn) = Ok ()" for u by simp
  then show ?thesis by (auto simp: decodeMappingState_def decodeLoop_iff)
qed

lemma encodeMappingState_iff:
  "encodeMappingState sdk fits sn = Ok d \<longleftrightarrow> d = sn \<and> fits sn \<and> length (ms_mappings sn) \<le> MaxMappings
     \<and> (\<forall>m \<in> set (ms_mappings sn). mappingValidate sdk m = Ok ())"
  by (auto simp: encodeMappingState_def list_ex_iff)

lemma sortMappings_set [simp]: "set (sortMappings ms) = set ms"
  by (simp add: sortMappings_def)

lemma sortMappings_length [simp]: "length (sortMappings ms) = length ms"
  by (simp add: sortMappings_def)

lemma sortMappings_mset [simp]: "mset (sortMappings ms) = mset ms"
  by (simp add: sortMappings_def)

lemma sortMappings_distinct [simp]: "distinct (map mp_id (sortMappings ms)) \<longleftrightarrow> distinct (map mp_id ms)"
  by (metis mset_map mset_eq_imp_distinct_iff sortMappings_mset)

lemma sortMappings_sorted: "sorted (map mp_id (sortMappings ms))"
  by (simp add: sortMappings_def)

lemma commitLoop_ids:
  "map mp_id (commitLoop m removed ms) = filter (\<lambda>i. removed \<noteq> Some i) (map mp_id ms)"
  by (induction m removed ms rule: commitLoop.induct) auto

lemma commit_distinct:
  "distinct (map mp_id (ms_mappings sn)) \<Longrightarrow> distinct (map mp_id (ms_mappings (commitSnapshot sn m removed)))"
  using commitLoop_ids [of m removed "ms_mappings sn"] distinct_filter
  by (auto simp: commitSnapshot_def Let_def list_ex_iff)

lemma commit_decodes:
  assumes "decodeMappingState sdk fits sn = Ok sn"
    and "encodeMappingState sdk fits' (commitSnapshot sn m removed) = Ok d"
  shows "d = commitSnapshot sn m removed \<and> decodeMappingState sdk fits' d = Ok d"
  using assms commit_distinct by (auto simp: decodeMappingState_iff encodeMappingState_iff)

lemma find_distinct: "distinct (map f xs) \<Longrightarrow> x \<in> set xs \<Longrightarrow> find (\<lambda>y. f y = f x) xs = Some x"
  by (induction xs) force+

lemma snapshotMapping_iff:
  "distinct (map mp_id (ms_mappings sn)) \<Longrightarrow>
    snapshotMapping sn i = Some m \<longleftrightarrow> m \<in> set (ms_mappings sn) \<and> mp_id m = i"
  using find_distinct [of mp_id "ms_mappings sn"] by (auto simp: snapshotMapping_def find_Some_iff)

lemma snapshotMapping_None: "snapshotMapping sn i = None \<longleftrightarrow> i \<notin> mp_id ` set (ms_mappings sn)"
  by (auto simp: snapshotMapping_def find_None_iff)

lemma snapshotMapping_id: "snapshotMapping sn i = Some m \<Longrightarrow> mp_id m = i"
  by (auto simp: snapshotMapping_def find_Some_iff)

lemma commitLoop_put:
  "mp_id m \<noteq> [] \<Longrightarrow> commitLoop m None ms = map (\<lambda>x. if mp_id x = mp_id m then m else x) ms"
  by (induction ms) simp_all

lemma commitLoop_drop: "mp_id m = [] \<Longrightarrow> commitLoop m (Some i) ms = filter (\<lambda>x. mp_id x \<noteq> i) ms"
  by (induction ms) simp_all

lemma commit_put_set:
  assumes "mp_id m \<noteq> []"
  shows "x \<in> set (ms_mappings (commitSnapshot sn m None)) \<longleftrightarrow> x = m \<or> x \<in> set (ms_mappings sn) \<and> mp_id x \<noteq> mp_id m"
proof -
  let ?kept = "map (\<lambda>x. if mp_id x = mp_id m then m else x) (ms_mappings sn)"
  have ids: "list_ex (\<lambda>existing. mp_id existing = mp_id m) ?kept \<longleftrightarrow> m \<in> set ?kept"
    by (induction "ms_mappings sn" rule: list.induct) (auto simp: list_ex_iff)
  have "x \<in> set ?kept \<longleftrightarrow> x = m \<and> m \<in> set ?kept \<or> x \<in> set (ms_mappings sn) \<and> mp_id x \<noteq> mp_id m"
    by (auto split: if_splits)
  with assms ids show ?thesis
    by (auto simp: commitSnapshot_def Let_def commitLoop_put simp del: list_ex_iff set_map)
qed

lemma snapshotMapping_eqI:
  assumes "distinct (map mp_id (ms_mappings sn))" "distinct (map mp_id (ms_mappings sn'))"
    and "\<And>x. mp_id x = i \<Longrightarrow> x \<in> set (ms_mappings sn) \<longleftrightarrow> x \<in> set (ms_mappings sn')"
  shows "snapshotMapping sn i = snapshotMapping sn' i"
proof -
  have "snapshotMapping sn i = Some x \<longleftrightarrow> snapshotMapping sn' i = Some x" for x
    using assms(3) by (auto simp: snapshotMapping_iff [OF assms(1)] snapshotMapping_iff [OF assms(2)])
  then show ?thesis by (metis option.exhaust)
qed

lemma commit_put:
  assumes "distinct (map mp_id (ms_mappings sn))" "mp_id m \<noteq> []"
  shows "snapshotMapping (commitSnapshot sn m None) i = (if i = mp_id m then Some m else snapshotMapping sn i)"
proof (cases "i = mp_id m")
  case True
  with assms(2) show ?thesis
    by (simp add: snapshotMapping_iff [OF commit_distinct [OF assms(1)]] commit_put_set)
next
  case False
  have "snapshotMapping (commitSnapshot sn m None) i = snapshotMapping sn i"
  proof (rule snapshotMapping_eqI [OF commit_distinct [OF assms(1)] assms(1)])
    fix x :: mapping assume "mp_id x = i"
    with False assms(2) show "x \<in> set (ms_mappings (commitSnapshot sn m None)) \<longleftrightarrow> x \<in> set (ms_mappings sn)"
      by (auto simp: commit_put_set)
  qed
  with False show ?thesis by simp
qed

lemma commit_drop:
  assumes "distinct (map mp_id (ms_mappings sn))" "mp_id m = []"
  shows "snapshotMapping (commitSnapshot sn m (Some i)) j = (if j = i then None else snapshotMapping sn j)"
proof -
  have drop: "set (ms_mappings (commitSnapshot sn m (Some i))) = {x \<in> set (ms_mappings sn). mp_id x \<noteq> i}"
    using assms(2) by (simp add: commitSnapshot_def Let_def commitLoop_drop)
  show ?thesis
  proof (cases "j = i")
    case True
    with drop show ?thesis by (auto simp: snapshotMapping_None)
  next
    case False
    have "snapshotMapping (commitSnapshot sn m (Some i)) j = snapshotMapping sn j"
      by (rule snapshotMapping_eqI [OF commit_distinct [OF assms(1)] assms(1)]) (use False drop in auto)
    with False show ?thesis by simp
  qed
qed

lemma commit_revision [simp]: "ms_revision (commitSnapshot sn m removed) = ms_revision sn + 1"
  by (simp add: commitSnapshot_def Let_def)

section \<open>Keys identify intents\<close>

lemma split_at_nul:
  assumes "f @ x # s = g @ x # t" "x \<notin> set f" "x \<notin> set g"
  shows "f = g \<and> s = t"
proof -
  have "takeWhile (\<lambda>y. y \<noteq> x) (h @ x # u) = h" if "x \<notin> set h" for h u
    using that by (induction h) auto
  from this [of f s] this [of g t] assms have "f = g" by simp
  with assms(1) show ?thesis by simp
qed

lemma keyBytes_inj:
  assumes "\<forall>f \<in> set fs. CHR 0x00 \<notin> set f" "\<forall>g \<in> set gs. CHR 0x00 \<notin> set g" "keyBytes fs = keyBytes gs"
  shows "fs = gs"
  using assms
proof (induction fs arbitrary: gs)
  case Nil
  then show ?case by (cases gs) (simp_all add: keyBytes_def)
next
  case (Cons f fs)
  then obtain g gs' where gs: "gs = g # gs'" by (cases gs) (auto simp: keyBytes_def)
  with Cons.prems have "f @ CHR 0x00 # keyBytes fs = g @ CHR 0x00 # keyBytes gs'" by (simp add: keyBytes_def)
  from split_at_nul [OF this] Cons.prems gs have "f = g \<and> keyBytes fs = keyBytes gs'" by simp
  with Cons.IH [of gs'] Cons.prems(1,2) gs show ?case by simp
qed

lemma intText_inj: "intText i = intText j \<longleftrightarrow> i = j"
proof -
  have "CHR ''-'' \<notin> set (itoa n)" for n using itoa_digits [of n] by force
  then have "CHR ''-'' # s \<noteq> itoa n" "itoa n \<noteq> CHR ''-'' # s" for s n by (metis list.set_intros(1))+
  then show ?thesis by (simp add: intText_def itoa_inj eq_nat_nat_iff)
qed

lemma relays_inj: "map relayField xs = map relayField ys \<longleftrightarrow> xs = ys"
  by (rule inj_map_eq_map) (simp add: inj_def relayField_def intText_inj)

lemma relay_not_host: "''listen-host'' \<notin> set (map relayField xs)"
  by (auto simp: relayField_def)

text \<open>The variable part of the fields: the relay hops and the listen host unless it is the default.\<close>

lemma tagged_suffix_inj:
  assumes "A @ (if h \<noteq> d then [e, h] else []) = B @ (if k \<noteq> d then [e, k] else [])" "e \<notin> set A" "e \<notin> set B"
  shows "A = B \<and> h = k"
proof (cases "h = d"; cases "k = d")
  assume "h = d" "k \<noteq> d"
  with assms have "e \<in> set A" by simp
  with assms(2) show ?thesis by simp
next
  assume "h \<noteq> d" "k = d"
  with assms(1) have "A @ [e, h] = B" by simp
  then have "e \<in> set B" by force
  with assms(3) show ?thesis by simp
qed (use assms(1) in auto)

lemma variable_fields_inj:
  assumes "map relayField xs @ (if h \<noteq> d then [''listen-host'', h] else [])
      = map relayField ys @ (if k \<noteq> d then [''listen-host'', k] else [])"
  shows "xs = ys \<and> h = k"
  using tagged_suffix_inj [OF assms relay_not_host relay_not_host] by (simp add: relays_inj)

lemma boolText_inj: "boolText a = boolText b \<longleftrightarrow> a = b"
  by (simp add: boolText_def)

lemma u64_text_inj: "itoa (unat (a :: u64)) = itoa (unat b) \<longleftrightarrow> a = b"
  by (simp add: itoa_inj word_unat_eq_iff)

lemma mutationFields_inj:
  assumes eq: "mutationFields k a m r = mutationFields k' a' m' r'"
  shows "k = k' \<and> a = a' \<and> r = r' \<and> sameUserSpec m m' \<and> mp_enabled m = mp_enabled m' \<and> mp_ruleRef m = mp_ruleRef m'
      \<and> mp_sessionRef m = mp_sessionRef m' \<and> mp_bridgeHost m = mp_bridgeHost m' \<and> mp_bridgePort m = mp_bridgePort m'
      \<and> mp_recoveryGeneration m = mp_recoveryGeneration m'"
proof -
  define v where "v m = map relayField (mp_relayChain m)
    @ (if effectiveListenHost m \<noteq> ''0.0.0.0'' then [''listen-host'', effectiveListenHost m] else [])" for m :: mapping
  define t where "t m = [''enabled-'' @ boolText (mp_enabled m), mp_ruleRef m, mp_sessionRef m, mp_bridgeHost m,
    ''bridge-'' @ intText (mp_bridgePort m), generationString (mp_recoveryGeneration m)]" for m :: mapping
  from eq have vt: "v m @ t m = v m' @ t m'" unfolding mutationFields_def v_def t_def by simp
  moreover have "length (t m) = length (t m')" by (simp add: t_def)
  ultimately have "v m = v m'" "t m = t m'" by simp_all
  with eq variable_fields_inj [of "mp_relayChain m" "effectiveListenHost m" "''0.0.0.0''" "mp_relayChain m'" "effectiveListenHost m'"]
  show "k = k' \<and> a = a' \<and> r = r' \<and> sameUserSpec m m' \<and> mp_enabled m = mp_enabled m' \<and> mp_ruleRef m = mp_ruleRef m'
      \<and> mp_sessionRef m = mp_sessionRef m' \<and> mp_bridgeHost m = mp_bridgeHost m' \<and> mp_bridgePort m = mp_bridgePort m'
      \<and> mp_recoveryGeneration m = mp_recoveryGeneration m'"
    by (simp add: mutationFields_def v_def t_def sameUserSpec_def revisionString_def generationString_def
        intText_inj boolText_inj u64_text_inj)
qed

text \<open>
  C25. An operation identifier stands for one intent: when no field holds a zero byte, two
  mutations are hashed from the same bytes only if they have the same request key, action and
  revision and their mappings agree on the user's specification, the enabled flag, the host
  references, the bridge and the recovery generation; and no mutation is hashed from the bytes of
  a recovery attempt.
\<close>

theorem operation_key_intent:
  assumes "\<forall>f \<in> set (mutationFields k a m r). CHR 0x00 \<notin> set f"
    and "\<forall>f \<in> set (mutationFields k' a' m' r'). CHR 0x00 \<notin> set f"
    and "\<forall>f \<in> set (recoveryFields b i s g). CHR 0x00 \<notin> set f"
  shows "(keyBytes (mutationFields k a m r) = keyBytes (mutationFields k' a' m' r') \<longrightarrow>
      k = k' \<and> a = a' \<and> r = r' \<and> sameUserSpec m m' \<and> mp_enabled m = mp_enabled m' \<and> mp_ruleRef m = mp_ruleRef m'
      \<and> mp_sessionRef m = mp_sessionRef m' \<and> mp_bridgeHost m = mp_bridgeHost m' \<and> mp_bridgePort m = mp_bridgePort m'
      \<and> mp_recoveryGeneration m = mp_recoveryGeneration m')
    \<and> keyBytes (mutationFields k a m r) \<noteq> keyBytes (recoveryFields b i s g)"
proof (rule conjI, rule impI)
  assume "keyBytes (mutationFields k a m r) = keyBytes (mutationFields k' a' m' r')"
  then have "mutationFields k a m r = mutationFields k' a' m' r'" by (rule keyBytes_inj [OF assms(1,2)])
  then show "k = k' \<and> a = a' \<and> r = r' \<and> sameUserSpec m m' \<and> mp_enabled m = mp_enabled m' \<and> mp_ruleRef m = mp_ruleRef m'
      \<and> mp_sessionRef m = mp_sessionRef m' \<and> mp_bridgeHost m = mp_bridgeHost m' \<and> mp_bridgePort m = mp_bridgePort m'
      \<and> mp_recoveryGeneration m = mp_recoveryGeneration m'"
    by (rule mutationFields_inj)
next
  show "keyBytes (mutationFields k a m r) \<noteq> keyBytes (recoveryFields b i s g)"
    using keyBytes_inj [OF assms(1,3)] by (auto simp: mutationFields_def recoveryFields_def)
qed

theorem operation_key_intent_witness:
  "keyBytes (mutationFields ''op-1'' ''rule.create'' (zeroMapping\<lparr> mp_relayChain := [1, 12] \<rparr>) 3)
      \<noteq> keyBytes (mutationFields ''op-1'' ''rule.create'' (zeroMapping\<lparr> mp_relayChain := [11, 2] \<rparr>) 3)
    \<and> keyBytes (mutationFields ''op-1'' ''rule.create'' (zeroMapping\<lparr> mp_relayChain := [1, 12] \<rparr>) 3)
      \<noteq> keyBytes (recoveryFields ''rule.create'' ''web'' 3 1)"
proof -
  let ?m = "zeroMapping\<lparr> mp_relayChain := [1, 12] \<rparr>" and ?n = "zeroMapping\<lparr> mp_relayChain := [11, 2] \<rparr>"
  have "\<forall>f \<in> set (mutationFields ''op-1'' ''rule.create'' ?m 3). CHR 0x00 \<notin> set f"
    "\<forall>f \<in> set (mutationFields ''op-1'' ''rule.create'' ?n 3). CHR 0x00 \<notin> set f"
    "\<forall>f \<in> set (recoveryFields ''rule.create'' ''web'' 3 1). CHR 0x00 \<notin> set f"
    by code_simp+
  note operation_key_intent [OF this]
  moreover have "\<not> sameUserSpec ?m ?n" by (simp add: sameUserSpec_def)
  ultimately show ?thesis by blast
qed

end
