(* ===== verification/L4_Service.thy ===== *)
theory L4_Service
  imports L4_Model
begin

text \<open>
  The orchestration service of \<^verbatim>\<open>src/plugins/reverse-l4\<close>: the host calls of \<^verbatim>\<open>host_runtime.go\<close>, the two
  mapping states of \<^verbatim>\<open>state.go\<close> and the operations of \<^verbatim>\<open>service.go\<close> outside recovery. A program runs
  over a world: the mapping state, the log of host calls and commits, and a counter that indexes
  what comes from outside, the host's replies, random bytes, and what other goroutines did to the
  state before the service took its lock. Nothing is assumed about these.
\<close>

section \<open>Host calls\<close>

record channelSession =
  cs_sessionRef :: string
  cs_state :: string
  cs_bridgeHost :: string
  cs_bridgePort :: int
  cs_lastError :: string

record l4RuleResult =
  rr_ruleRef :: string
  rr_agentID :: string
  rr_enabled :: bool

record l4RuleRequest =
  lr_agentID :: string
  lr_ruleRef :: string
  lr_name :: string
  lr_protocol :: string
  lr_listenHost :: string
  lr_listenPort :: int
  lr_backends :: "(string \<times> int) list"
  lr_tags :: "string list"
  lr_enabled :: "bool option"

datatype ruleAction = RuleCreate | RuleUpdate | RuleEnable | RuleDisable | RuleDelete

text \<open>How the transport of the host fails.\<close>

datatype hostFailure = HostCanceled | HostDeadline | HostUnavailable | HostDenied | HostInvalidArgument | HostOtherFailure

text \<open>
  The reply to one call: the state of the context before it, whether the request encodes and
  validates, how the transport failed and the state of the context after that, the results, whether
  a write was stored and whether a write that failed took effect all the same.
\<close>

record hostReply =
  hr_ctx :: "l4_error option"
  hr_valid :: bool
  hr_failure :: "hostFailure option"
  hr_ctxAfter :: "l4_error option"
  hr_session :: channelSession
  hr_rule :: l4RuleResult
  hr_stored :: bool
  hr_effect :: bool

definition hostCall :: "bool \<Rightarrow> hostReply \<Rightarrow> l4_error option" where
  "hostCall available r =
     (if \<not> available then Some ErrHostRuntimeUnavailable
      else case hr_ctx r of Some e \<Rightarrow> Some e
      | None \<Rightarrow> if \<not> hr_valid r then Some ErrHostOperationFailed
        else case hr_failure r of None \<Rightarrow> None
        | Some f \<Rightarrow>
            if f = HostCanceled then Some ErrCanceled
            else if f = HostDeadline then Some ErrDeadline
            else case hr_ctxAfter r of Some e \<Rightarrow> Some e
            | None \<Rightarrow> (case f of HostUnavailable \<Rightarrow> Some ErrHostRuntimeUnavailable
                | HostDenied \<Rightarrow> Some ErrHostRejectedRequest
                | HostInvalidArgument \<Rightarrow> Some ErrHostRejectedRequest
                | _ \<Rightarrow> Some ErrHostOperationFailed))"

section \<open>Mapping states\<close>

record 'st mappingOps =
  mo_load :: "hostReply \<Rightarrow> 'st \<Rightarrow> mappingSnapshot l4"
  mo_save :: "hostReply \<Rightarrow> mappingSnapshot \<Rightarrow> 'st \<Rightarrow> 'st \<times> unit l4"

definition memoryLoad :: "hostReply \<Rightarrow> mappingSnapshot \<Rightarrow> mappingSnapshot l4" where
  "memoryLoad r s = Ok s"

definition memorySave :: "hostReply \<Rightarrow> mappingSnapshot \<Rightarrow> mappingSnapshot \<Rightarrow> mappingSnapshot \<times> unit l4" where
  "memorySave r sn s = (sn, Ok ())"

definition memoryOps :: "mappingSnapshot mappingOps" where
  "memoryOps = \<lparr> mo_load = memoryLoad, mo_save = memorySave \<rparr>"

text \<open>The state of the durable catalog is the document under its key, \<open>None\<close> when there is none.\<close>

definition durableLoad ::
  "l4sdk \<Rightarrow> (mappingSnapshot \<Rightarrow> bool) \<Rightarrow> bool \<Rightarrow> hostReply \<Rightarrow> mappingSnapshot option \<Rightarrow> mappingSnapshot l4" where
  "durableLoad sdk fits available r s =
     (if \<not> available then Err ErrHostRuntimeUnavailable
      else case hostCall available r of Some e \<Rightarrow> Err e
      | None \<Rightarrow> (case s of None \<Rightarrow> Ok emptySnapshot | Some doc \<Rightarrow> decodeMappingState sdk fits doc))"

definition durableSave ::
  "l4sdk \<Rightarrow> (mappingSnapshot \<Rightarrow> bool) \<Rightarrow> bool \<Rightarrow> hostReply \<Rightarrow> mappingSnapshot \<Rightarrow> mappingSnapshot option
    \<Rightarrow> mappingSnapshot option \<times> unit l4" where
  "durableSave sdk fits available r sn s =
     (if \<not> available then (s, Err ErrHostRuntimeUnavailable)
      else case encodeMappingState sdk fits sn of
        Ok doc \<Rightarrow>
          (case hostCall available r of
             Some e \<Rightarrow> (if hr_effect r then Some doc else s, Err e)
           | None \<Rightarrow> if hr_stored r then (Some doc, Ok ())
               else (if hr_effect r then Some doc else s, Err ErrStateUnavailable))
      | Err e \<Rightarrow> (s, Err e)
      | Panic \<Rightarrow> (s, Panic))"

definition durableOps :: "l4sdk \<Rightarrow> (mappingSnapshot \<Rightarrow> bool) \<Rightarrow> bool \<Rightarrow> mappingSnapshot option mappingOps" where
  "durableOps sdk fits available =
     \<lparr> mo_load = durableLoad sdk fits available, mo_save = durableSave sdk fits available \<rparr>"

section \<open>The world\<close>

datatype l4Event =
    EvEnsure string reverseRequest "channelSession l4"
  | EvChannelStatus string "channelSession l4"
  | EvTeardown string string "unit l4"
  | EvRule ruleAction string l4RuleRequest "l4RuleResult l4"
  | EvCommit mappingSnapshot mappingSnapshot "unit l4"

record 'st l4World =
  lw_store :: 'st
  lw_log :: "l4Event list"
  lw_tick :: nat

record 'st l4Env =
  le_sdk :: l4sdk
  le_ops :: "'st mappingOps"
  le_available :: bool
  le_requestKey :: string
  le_reply :: "nat \<Rightarrow> hostReply"
  le_random :: "nat \<Rightarrow> wire option"
  le_other :: "nat \<Rightarrow> 'st \<Rightarrow> 'st"
  le_lookup :: "nat \<Rightarrow> hostReply option"
  le_deadline :: "l4_error option"
  le_errorText :: "l4_error \<Rightarrow> string"

type_synonym ('st, 'a) l4prog = "('st l4World, 'a) state"

definition l4Tick :: "(nat \<Rightarrow> 'a) \<Rightarrow> ('st, 'a) l4prog" where
  "l4Tick f = State (\<lambda>w. (f (lw_tick w), w\<lparr> lw_tick := Suc (lw_tick w) \<rparr>))"

definition l4Log :: "l4Event \<Rightarrow> ('st, unit) l4prog" where
  "l4Log e = State (\<lambda>w. ((), w\<lparr> lw_log := lw_log w @ [e] \<rparr>))"

text \<open>The Go idiom of returning at once when a call gives an error.\<close>

definition tryA :: "('st, 'a l4) l4prog \<Rightarrow> ('a \<Rightarrow> ('st, 'b l4) l4prog) \<Rightarrow> ('st, 'b l4) l4prog" where
  "tryA m f = do { r \<leftarrow> m; case r of Ok x \<Rightarrow> f x | Err e \<Rightarrow> ret (Err e) | Panic \<Rightarrow> ret Panic }"

text \<open>Taking the lock and loading: others may have changed the state since the service last held it.\<close>

definition stateLoad :: "'st l4Env \<Rightarrow> ('st, mappingSnapshot l4) l4prog" where
  "stateLoad env = State (\<lambda>w.
     let s = le_other env (lw_tick w) (lw_store w) in
     (mo_load (le_ops env) (le_reply env (lw_tick w)) s, w\<lparr> lw_store := s, lw_tick := Suc (lw_tick w) \<rparr>))"

definition stateSave :: "'st l4Env \<Rightarrow> mappingSnapshot \<Rightarrow> ('st, unit l4) l4prog" where
  "stateSave env sn = State (\<lambda>w.
     case mo_save (le_ops env) (le_reply env (lw_tick w)) sn (lw_store w) of
       (s, r) \<Rightarrow> (r, w\<lparr> lw_store := s, lw_tick := Suc (lw_tick w) \<rparr>))"

definition commitA :: "'st l4Env \<Rightarrow> mappingSnapshot \<Rightarrow> mapping \<Rightarrow> string option \<Rightarrow> ('st, unit l4) l4prog" where
  "commitA env sn m removed = (let next = commitSnapshot sn m removed in do {
     r \<leftarrow> stateSave env next; l4Log (EvCommit sn next r); ret r })"

definition ensureChannel :: "'st l4Env \<Rightarrow> string \<Rightarrow> reverseRequest \<Rightarrow> ('st, channelSession l4) l4prog" where
  "ensureChannel env operationID request = do {
     r \<leftarrow> l4Tick (le_reply env);
     let result = (case hostCall (le_available env) r of Some e \<Rightarrow> Err e
       | None \<Rightarrow> if cs_state (hr_session r) \<noteq> sk_stateOnline (le_sdk env) \<and> cs_state (hr_session r) \<noteq> sk_stateOffline (le_sdk env)
           then Err ErrHostOperationFailed else Ok (hr_session r));
     l4Log (EvEnsure operationID request result);
     ret result }"

definition channelStatus :: "'st l4Env \<Rightarrow> string \<Rightarrow> ('st, channelSession l4) l4prog" where
  "channelStatus env sessionRef = do {
     r \<leftarrow> l4Tick (le_reply env);
     let result = (case hostCall (le_available env) r of Some e \<Rightarrow> Err e | None \<Rightarrow> Ok (hr_session r));
     l4Log (EvChannelStatus sessionRef result);
     ret result }"

definition teardownChannel :: "'st l4Env \<Rightarrow> string \<Rightarrow> string \<Rightarrow> ('st, unit l4) l4prog" where
  "teardownChannel env operationID sessionRef = do {
     r \<leftarrow> l4Tick (le_reply env);
     let result = (case hostCall (le_available env) r of Some e \<Rightarrow> Err e | None \<Rightarrow> Ok ());
     l4Log (EvTeardown operationID sessionRef result);
     ret result }"

definition ruleCall :: "'st l4Env \<Rightarrow> ruleAction \<Rightarrow> string \<Rightarrow> l4RuleRequest \<Rightarrow> ('st, l4RuleResult l4) l4prog" where
  "ruleCall env action operationID request = do {
     r \<leftarrow> l4Tick (le_reply env);
     let result = (case hostCall (le_available env) r of Some e \<Rightarrow> Err e
       | None \<Rightarrow> if action = RuleCreate \<and> rr_ruleRef (hr_rule r) = [] then Err ErrHostOperationFailed else Ok (hr_rule r));
     l4Log (EvRule action operationID request result);
     ret result }"

definition createRule :: "'st l4Env \<Rightarrow> string \<Rightarrow> l4RuleRequest \<Rightarrow> ('st, l4RuleResult l4) l4prog" where
  "createRule env operationID request = ruleCall env RuleCreate operationID request"

definition updateRule :: "'st l4Env \<Rightarrow> string \<Rightarrow> l4RuleRequest \<Rightarrow> ('st, l4RuleResult l4) l4prog" where
  "updateRule env operationID request = ruleCall env RuleUpdate operationID request"

definition setRuleEnabled :: "'st l4Env \<Rightarrow> string \<Rightarrow> l4RuleRequest \<Rightarrow> bool \<Rightarrow> ('st, l4RuleResult l4) l4prog" where
  "setRuleEnabled env operationID request enabled =
     ruleCall env (if enabled then RuleEnable else RuleDisable) operationID request"

definition deleteRule :: "'st l4Env \<Rightarrow> string \<Rightarrow> l4RuleRequest \<Rightarrow> ('st, unit l4) l4prog" where
  "deleteRule env operationID request = do {
     r \<leftarrow> ruleCall env RuleDelete operationID request;
     ret (case r of Ok _ \<Rightarrow> Ok () | Err e \<Rightarrow> Err e | Panic \<Rightarrow> Panic) }"

text \<open>\<^verbatim>\<open>err != nil && !errors.Is(err, ErrHostRejectedRequest)\<close>: a rejected request means that the target is gone.\<close>

definition unlessRejected :: "('st, 'a l4) l4prog \<Rightarrow> ('st, unit l4) l4prog" where
  "unlessRejected m = do {
     r \<leftarrow> m;
     ret (case r of Ok _ \<Rightarrow> Ok () | Err e \<Rightarrow> if e = ErrHostRejectedRequest then Ok () else Err e | Panic \<Rightarrow> Panic) }"

section \<open>Requests\<close>

definition ruleRequest :: "mapping \<Rightarrow> channelSession \<Rightarrow> l4RuleRequest" where
  "ruleRequest m session =
     \<lparr> lr_agentID = mp_entryAgentID m, lr_ruleRef = [],
       lr_name = ''reverse-l4/'' @ (if mp_name m = [] then mp_id m else mp_name m),
       lr_protocol = mp_protocol m, lr_listenHost = effectiveListenHost m, lr_listenPort = mp_listenPort m,
       lr_backends = [(cs_bridgeHost session, cs_bridgePort session)],
       lr_tags = [''reverse-l4'', ''mapping/'' @ mp_id m], lr_enabled = None \<rparr>"

definition ruleRefRequest :: "string \<Rightarrow> string \<Rightarrow> l4RuleRequest" where
  "ruleRefRequest ruleRef entryAgentID =
     \<lparr> lr_agentID = entryAgentID, lr_ruleRef = ruleRef, lr_name = [], lr_protocol = [], lr_listenHost = [],
       lr_listenPort = 0, lr_backends = [], lr_tags = [], lr_enabled = None \<rparr>"

definition ensureRequest :: "mapping \<Rightarrow> string \<Rightarrow> reverseRequest" where
  "ensureRequest m sessionRef =
     \<lparr> rq_entryAgentID = mp_entryAgentID m, rq_exitAgentID = mp_exitAgentID m, rq_protocol = mp_protocol m,
       rq_backendHost = mp_backendHost m, rq_backendPort = mp_backendPort m, rq_relayChain = mp_relayChain m,
       rq_sessionRef = sessionRef \<rparr>"

definition mutationKey :: "'st l4Env \<Rightarrow> string \<Rightarrow> mapping \<Rightarrow> u64 \<Rightarrow> string" where
  "mutationKey env action m revision = mutationOperationKey (le_sdk env) (le_requestKey env) action m revision"

definition ensureChannelFor :: "'st l4Env \<Rightarrow> mapping \<Rightarrow> string \<Rightarrow> u64 \<Rightarrow> ('st, channelSession l4) l4prog" where
  "ensureChannelFor env m sessionRef revision =
     (if \<not> sk_reverseRequestOk (le_sdk env) (ensureRequest m sessionRef) then ret (Err ErrInvalidMapping)
      else ensureChannel env (mutationKey env ''channel.ensure'' m revision) (ensureRequest m sessionRef))"

definition withSession :: "mapping \<Rightarrow> channelSession \<Rightarrow> mapping" where
  "withSession m session = m\<lparr> mp_sessionRef := cs_sessionRef session,
     mp_bridgeHost := cs_bridgeHost session, mp_bridgePort := cs_bridgePort session \<rparr>"

section \<open>Mutations\<close>

definition generateMappingID :: "wire option \<Rightarrow> string l4" where
  "generateMappingID raw = (case raw of None \<Rightarrow> Err ErrInvalidMapping
     | Some bs \<Rightarrow> let i = hexEncode bs in if \<not> validMappingID i then Err ErrInvalidMapping else Ok i)"

definition mappingIDAllocTries :: nat where "mappingIDAllocTries = 8"

primrec allocateMappingID :: "'st l4Env \<Rightarrow> mappingSnapshot \<Rightarrow> nat \<Rightarrow> ('st, string l4) l4prog" where
  "allocateMappingID env sn 0 = ret (Err ErrMappingExists)"
| "allocateMappingID env sn (Suc tries) = do {
     raw \<leftarrow> l4Tick (le_random env);
     case generateMappingID raw of
       Ok i \<Rightarrow> if snapshotMapping sn i = None then ret (Ok i) else allocateMappingID env sn tries
     | Err e \<Rightarrow> ret (Err e)
     | Panic \<Rightarrow> ret Panic }"

text \<open>The identifier of a new mapping: a fresh one, or the one asked for when it is free.\<close>

definition createIdentify :: "'st l4Env \<Rightarrow> mappingSnapshot \<Rightarrow> mapping \<Rightarrow> ('st, mapping l4) l4prog" where
  "createIdentify env sn m =
     (if mp_id m = [] then
        tryA (allocateMappingID env sn mappingIDAllocTries) (\<lambda>i.
          let m' = m\<lparr> mp_id := i \<rparr> in
          ret (case mappingValidate (le_sdk env) m' of Ok _ \<Rightarrow> Ok m' | Err e \<Rightarrow> Err e | Panic \<Rightarrow> Panic))
      else ret (if snapshotMapping sn (mp_id m) \<noteq> None then Err ErrMappingExists else Ok m))"

definition createSpec :: "mapping \<Rightarrow> mapping" where
  "createSpec m = m\<lparr> mp_ruleRef := [], mp_sessionRef := [], mp_bridgeHost := [], mp_bridgePort := 0, mp_enabled := True,
     mp_revision := 0, mp_recoveryGeneration := 0, mp_listenHost := effectiveListenHost m \<rparr>"

definition l4Create :: "'st l4Env \<Rightarrow> mapping \<Rightarrow> ('st, mapping l4) l4prog" where
  "l4Create env spec = (let m0 = createSpec spec in
     tryA (ret (if mp_id m0 \<noteq> [] then mappingValidate (le_sdk env) m0 else Ok ())) (\<lambda>_.
     tryA (stateLoad env) (\<lambda>sn.
     tryA (createIdentify env sn m0) (\<lambda>m.
     if length (ms_mappings sn) \<ge> MaxMappings then ret (Err ErrMappingBound)
     else let revision = ms_revision sn + 1 in
     tryA (ensureChannelFor env m [] revision) (\<lambda>session.
     tryA (createRule env (mutationKey env ''rule.create'' m revision) (ruleRequest m session)) (\<lambda>rule.
     let created = (withSession m session)\<lparr> mp_ruleRef := rr_ruleRef rule, mp_revision := revision \<rparr> in
     tryA (commitA env sn created None) (\<lambda>_. ret (Ok created))))))))"

text \<open>The rule step of an enabled mapping: create a rule, or update the one it has and create one when that is gone.\<close>

definition createRuleFor :: "'st l4Env \<Rightarrow> mapping \<Rightarrow> channelSession \<Rightarrow> u64 \<Rightarrow> ('st, mapping l4) l4prog" where
  "createRuleFor env m session revision =
     tryA (createRule env (mutationKey env ''rule.create'' m revision) (ruleRequest m session)) (\<lambda>rule.
       ret (Ok (m\<lparr> mp_ruleRef := rr_ruleRef rule \<rparr>)))"

definition updateRuleFor :: "'st l4Env \<Rightarrow> mapping \<Rightarrow> channelSession \<Rightarrow> u64 \<Rightarrow> ('st, mapping l4) l4prog" where
  "updateRuleFor env m session revision = do {
     r \<leftarrow> updateRule env (mutationKey env ''rule.update'' m revision)
       ((ruleRequest m session)\<lparr> lr_ruleRef := mp_ruleRef m, lr_enabled := Some True \<rparr>);
     case r of Ok _ \<Rightarrow> ret (Ok m)
     | Err e \<Rightarrow> if e = ErrHostRejectedRequest then createRuleFor env m session revision else ret (Err e)
     | Panic \<Rightarrow> ret Panic }"

definition updateSpec :: "mapping \<Rightarrow> mapping \<Rightarrow> mapping" where
  "updateSpec existing spec = spec\<lparr> mp_listenHost := effectiveListenHost spec, mp_enabled := mp_enabled existing,
     mp_ruleRef := mp_ruleRef existing, mp_sessionRef := mp_sessionRef existing,
     mp_bridgeHost := mp_bridgeHost existing, mp_bridgePort := mp_bridgePort existing,
     mp_revision := mp_revision existing, mp_recoveryGeneration := mp_recoveryGeneration existing \<rparr>"

text \<open>Releasing the rule of a mapping whose entry agent moved.\<close>

definition releaseMovedRule :: "'st l4Env \<Rightarrow> bool \<Rightarrow> mapping \<Rightarrow> mapping \<Rightarrow> u64 \<Rightarrow> ('st, unit l4) l4prog" where
  "releaseMovedRule env entryMoved existing updated revision =
     (if entryMoved \<and> mp_ruleRef existing \<noteq> []
      then unlessRejected (deleteRule env (mutationKey env ''rule.delete'' updated revision)
        (ruleRefRequest (mp_ruleRef existing) (mp_entryAgentID existing)))
      else ret (Ok ()))"

definition updateDisabled :: "'st l4Env \<Rightarrow> mappingSnapshot \<Rightarrow> mapping \<Rightarrow> mapping \<Rightarrow> ('st, mapping l4) l4prog" where
  "updateDisabled env sn existing updated =
     (let entryMoved = (mp_entryAgentID updated \<noteq> mp_entryAgentID existing) in
     tryA (releaseMovedRule env entryMoved existing updated (mp_revision updated)) (\<lambda>_.
     let final = (if entryMoved then updated\<lparr> mp_ruleRef := [], mp_bridgeHost := [], mp_bridgePort := 0 \<rparr> else updated) in
     tryA (commitA env sn final None) (\<lambda>_. ret (Ok final))))"

definition updateEnabled :: "'st l4Env \<Rightarrow> mappingSnapshot \<Rightarrow> mapping \<Rightarrow> mapping \<Rightarrow> ('st, mapping l4) l4prog" where
  "updateEnabled env sn existing updated =
     (let revision = mp_revision updated;
          entryMoved = (mp_entryAgentID updated \<noteq> mp_entryAgentID existing);
          ownersMoved = (entryMoved \<or> mp_exitAgentID updated \<noteq> mp_exitAgentID existing) in
     tryA (if ownersMoved \<and> mp_sessionRef existing \<noteq> []
       then unlessRejected (teardownChannel env (mutationKey env ''channel.teardown'' updated revision) (mp_sessionRef existing))
       else ret (Ok ())) (\<lambda>_.
     tryA (ensureChannelFor env updated (if ownersMoved then [] else mp_sessionRef existing) revision) (\<lambda>session.
     let attached = withSession updated session in
     tryA (if entryMoved
       then tryA (releaseMovedRule env entryMoved existing attached revision) (\<lambda>_. createRuleFor env attached session revision)
       else if mp_ruleRef existing = [] then createRuleFor env attached session revision
       else updateRuleFor env attached session revision) (\<lambda>final.
     tryA (commitA env sn final None) (\<lambda>_. ret (Ok final))))))"

definition l4Update :: "'st l4Env \<Rightarrow> mapping \<Rightarrow> ('st, mapping l4) l4prog" where
  "l4Update env spec =
     tryA (stateLoad env) (\<lambda>sn.
     case snapshotMapping sn (mp_id spec) of None \<Rightarrow> ret (Err ErrMappingNotFound)
     | Some existing \<Rightarrow>
       let updated = updateSpec existing spec in
       tryA (ret (mappingValidate (le_sdk env) updated)) (\<lambda>_.
       if sameUserSpec updated existing then ret (Ok existing)
       else let revised = updated\<lparr> mp_revision := mp_revision existing + 1 \<rparr> in
         if \<not> mp_enabled existing then updateDisabled env sn existing revised
         else updateEnabled env sn existing revised))"

definition disableMapping :: "'st l4Env \<Rightarrow> mappingSnapshot \<Rightarrow> mapping \<Rightarrow> ('st, mapping l4) l4prog" where
  "disableMapping env sn existing =
     (let revision = mp_revision existing + 1; updated = existing\<lparr> mp_revision := revision \<rparr> in
     tryA (if mp_sessionRef existing \<noteq> []
       then unlessRejected (teardownChannel env (mutationKey env ''channel.teardown'' updated revision) (mp_sessionRef existing))
       else ret (Ok ())) (\<lambda>_.
     tryA (if mp_ruleRef existing \<noteq> []
       then unlessRejected (setRuleEnabled env (mutationKey env ''rule.disable'' updated revision)
         (ruleRefRequest (mp_ruleRef existing) (mp_entryAgentID existing)) False)
       else ret (Ok ())) (\<lambda>_.
     let final = updated\<lparr> mp_enabled := False, mp_bridgeHost := [], mp_bridgePort := 0 \<rparr> in
     tryA (commitA env sn final None) (\<lambda>_. ret (Ok final)))))"

definition enableMapping :: "'st l4Env \<Rightarrow> mappingSnapshot \<Rightarrow> mapping \<Rightarrow> ('st, mapping l4) l4prog" where
  "enableMapping env sn existing =
     (let revision = mp_revision existing + 1 in
     tryA (ensureChannelFor env existing (mp_sessionRef existing) revision) (\<lambda>session.
     let attached = withSession (existing\<lparr> mp_revision := revision \<rparr>) session in
     tryA (if mp_ruleRef existing = [] then createRuleFor env attached session revision
       else updateRuleFor env attached session revision) (\<lambda>ruled.
     let final = ruled\<lparr> mp_enabled := True \<rparr> in
     tryA (commitA env sn final None) (\<lambda>_. ret (Ok final)))))"

definition l4SetEnabled :: "'st l4Env \<Rightarrow> string \<Rightarrow> bool \<Rightarrow> ('st, mapping l4) l4prog" where
  "l4SetEnabled env i enabled =
     tryA (stateLoad env) (\<lambda>sn.
     case snapshotMapping sn i of None \<Rightarrow> ret (Err ErrMappingNotFound)
     | Some existing \<Rightarrow>
       if mp_enabled existing = enabled then ret (Ok existing)
       else if \<not> enabled then disableMapping env sn existing
       else enableMapping env sn existing)"

definition l4Delete :: "'st l4Env \<Rightarrow> string \<Rightarrow> ('st, unit l4) l4prog" where
  "l4Delete env i =
     tryA (stateLoad env) (\<lambda>sn.
     case snapshotMapping sn i of None \<Rightarrow> ret (Ok ())
     | Some existing \<Rightarrow>
       let revision = mp_revision existing + 1 in
       tryA (if mp_sessionRef existing \<noteq> []
         then unlessRejected (teardownChannel env (mutationKey env ''channel.teardown'' existing revision) (mp_sessionRef existing))
         else ret (Ok ())) (\<lambda>_.
       tryA (if mp_ruleRef existing \<noteq> []
         then unlessRejected (deleteRule env (mutationKey env ''rule.delete'' existing revision)
           (ruleRefRequest (mp_ruleRef existing) (mp_entryAgentID existing)))
         else ret (Ok ())) (\<lambda>_.
       commitA env sn zeroMapping (Some (mp_id existing)))))"

text \<open>The mutations of the management page, whose handler keeps only the error.\<close>

datatype l4Mutation = CreateMapping mapping | UpdateMapping mapping | SetMappingEnabled string bool | DeleteMapping string

definition dropResult :: "('st, 'a l4) l4prog \<Rightarrow> ('st, unit l4) l4prog" where
  "dropResult m = tryA m (\<lambda>_. ret (Ok ()))"

definition runMutation :: "'st l4Env \<Rightarrow> l4Mutation \<Rightarrow> ('st, unit l4) l4prog" where
  "runMutation env q = (case q of
     CreateMapping spec \<Rightarrow> dropResult (l4Create env spec)
   | UpdateMapping spec \<Rightarrow> dropResult (l4Update env spec)
   | SetMappingEnabled i enabled \<Rightarrow> dropResult (l4SetEnabled env i enabled)
   | DeleteMapping i \<Rightarrow> l4Delete env i)"

section \<open>Listing and status\<close>

definition l4List :: "'st l4Env \<Rightarrow> ('st, mapping list l4) l4prog" where
  "l4List env = tryA (stateLoad env) (\<lambda>sn. ret (Ok (sortMappings (ms_mappings sn))))"

definition channelStateNormalize :: "l4sdk \<Rightarrow> string \<Rightarrow> string" where
  "channelStateNormalize sdk state = (if trimSpace state = sk_stateOnline sdk then ''online'' else ''offline'')"

definition safeHostText :: "string \<Rightarrow> string" where
  "safeHostText message =
     map (\<lambda>c. if c = CHR 0x0D \<or> c = CHR 0x0A then CHR '' '' else c) (take 200 (trimSpace message))"

definition statusLookupLastError :: "'st l4Env \<Rightarrow> l4_error \<Rightarrow> string" where
  "statusLookupLastError env err =
     safeHostText ((if err = ErrDeadline then ''timeout'' else if err = ErrCanceled then ''cancel'' else ''host-error'')
       @ '': '' @ le_errorText env err)"

record mappingStatus =
  st_mapping :: mapping
  st_channelState :: string
  st_lastError :: string

text \<open>The projection of one mapping, given the host's answer to the lookup.\<close>

definition projectStatus :: "'st l4Env \<Rightarrow> mapping \<Rightarrow> channelSession l4 \<Rightarrow> mappingStatus \<times> l4_error option" where
  "projectStatus env m answer =
     (let unknown = \<lparr> st_mapping = m, st_channelState = ''unknown'', st_lastError = [] \<rparr> in
      case answer of
        Err e \<Rightarrow> if e = ErrHostRejectedRequest
          then (unknown\<lparr> st_channelState := ''offline'', st_lastError := ''reverse channel session is gone'' \<rparr>, None)
          else (unknown\<lparr> st_lastError := statusLookupLastError env e \<rparr>, Some e)
      | Ok session \<Rightarrow>
          (unknown\<lparr> st_channelState := channelStateNormalize (le_sdk env) (cs_state session),
             st_lastError := safeHostText (cs_lastError session) \<rparr>, None)
      | Panic \<Rightarrow> (unknown, None))"

text \<open>The cases that need no lookup.\<close>

definition localStatus :: "'st l4Env \<Rightarrow> mapping \<Rightarrow> mappingStatus option" where
  "localStatus env m =
     (let unknown = \<lparr> st_mapping = m, st_channelState = ''unknown'', st_lastError = [] \<rparr> in
      if \<not> mp_enabled m then Some (unknown\<lparr> st_channelState := ''offline'' \<rparr>)
      else if mp_sessionRef m = [] then Some unknown
      else if \<not> le_available env then Some (unknown\<lparr> st_lastError := statusLookupLastError env ErrHostRuntimeUnavailable \<rparr>)
      else None)"

definition lookupChannelStatus :: "'st l4Env \<Rightarrow> mapping \<Rightarrow> ('st, mappingStatus \<times> l4_error option) l4prog" where
  "lookupChannelStatus env m =
     (case localStatus env m of Some st \<Rightarrow> ret (st, None)
      | None \<Rightarrow> do { answer \<leftarrow> channelStatus env (mp_sessionRef m); ret (projectStatus env m answer) })"

definition l4Status :: "'st l4Env \<Rightarrow> string \<Rightarrow> ('st, mappingStatus l4) l4prog" where
  "l4Status env i =
     tryA (stateLoad env) (\<lambda>sn.
     case snapshotMapping sn i of None \<Rightarrow> ret (Err ErrMappingNotFound)
     | Some m \<Rightarrow> do { r \<leftarrow> lookupChannelStatus env m;
         ret (case snd r of None \<Rightarrow> Ok (fst r) | Some e \<Rightarrow> Err e) })"

text \<open>
  The collection looks the mappings up concurrently. \<open>le_lookup\<close> gives the reply to the job
  of an index when its goroutine delivered before the collection ended, and \<open>le_deadline\<close> the error
  of the shared context; without one the collection waits for every job.
\<close>

definition collectedStatus :: "'st l4Env \<Rightarrow> nat \<Rightarrow> mapping \<Rightarrow> mappingStatus" where
  "collectedStatus env index m =
     (case localStatus env m of Some st \<Rightarrow> st
      | None \<Rightarrow>
        (case le_lookup env index of
           Some r \<Rightarrow> fst (projectStatus env m (case hostCall (le_available env) r of Some e \<Rightarrow> Err e | None \<Rightarrow> Ok (hr_session r)))
         | None \<Rightarrow> \<lparr> st_mapping = m, st_channelState = ''unknown'',
             st_lastError = (case le_deadline env of Some e \<Rightarrow> statusLookupLastError env e | None \<Rightarrow> []) \<rparr>))"

definition l4Statuses :: "'st l4Env \<Rightarrow> ('st, mappingStatus list l4) l4prog" where
  "l4Statuses env =
     tryA (stateLoad env) (\<lambda>sn. ret (Ok (map (\<lambda>(index, m). collectedStatus env index m) (enumerate 0 (ms_mappings sn)))))"

section \<open>Running programs\<close>

lemma run_tryA_Ok:
  "run_state (tryA m f) w = (Ok y, w') \<longleftrightarrow> (\<exists>x w1. run_state m w = (Ok x, w1) \<and> run_state (f x) w1 = (Ok y, w'))"
  by (auto simp: tryA_def split: res.splits prod.splits)

lemma wp_tryA [wp_simps]:
  "wp (tryA m f) Q w = wp m (\<lambda>r. case r of Ok x \<Rightarrow> wp (f x) Q | Err e \<Rightarrow> Q (Err e) | Panic \<Rightarrow> Q Panic) w"
  by (auto simp: tryA_def wp_simps wp_def split: res.splits prod.splits)

lemma wp_l4Log [wp_simps]: "wp (l4Log e) Q w = Q () (w\<lparr> lw_log := lw_log w @ [e] \<rparr>)"
  by (simp add: l4Log_def wp_simps)

lemma wp_l4Tick [wp_simps]: "wp (l4Tick f) Q w = Q (f (lw_tick w)) (w\<lparr> lw_tick := Suc (lw_tick w) \<rparr>)"
  by (simp add: l4Tick_def wp_simps)

end
