(* ===== verification/L4_Effects.thy ===== *)
theory L4_Effects
  imports L4_Service
begin

text \<open>
  What a mutation of the mapping service does to the host and to the catalog: it persists last and
  only after its host effects succeeded, an enabled mapping it returns has its rule pointed at
  its channel, and a delete releases both references before the record goes.
\<close>

section \<open>Phases of a mutation\<close>

fun isCommit :: "l4Event \<Rightarrow> bool" where
  "isCommit (EvCommit _ _ _) = True"
| "isCommit _ = False"

text \<open>A host call succeeded, or it was rejected because the target that it releases or updates is gone.\<close>

fun eventOk :: "l4Event \<Rightarrow> bool" where
  "eventOk (EvEnsure _ _ r) = is_ok r"
| "eventOk (EvChannelStatus _ r) = is_ok r"
| "eventOk (EvTeardown _ _ r) = (is_ok r \<or> r = Err ErrHostRejectedRequest)"
| "eventOk (EvRule a _ _ r) = (is_ok r \<or> a \<noteq> RuleCreate \<and> r = Err ErrHostRejectedRequest)"
| "eventOk (EvCommit _ _ r) = is_ok r"

definition hostPhase :: "('st, 'a l4) l4prog \<Rightarrow> bool" where
  "hostPhase m \<longleftrightarrow> (\<forall>w r w'. run_state m w = (r, w') \<longrightarrow> lw_store w' = lw_store w \<and>
     (\<exists>es. lw_log w' = lw_log w @ es \<and> list_all (\<lambda>e. \<not> isCommit e) es \<and> (is_ok r \<longrightarrow> list_all eventOk es)))"

definition persistsLast :: "l4Event list \<Rightarrow> 'a l4 \<Rightarrow> bool" where
  "persistsLast es r \<longleftrightarrow> (\<exists>es0 sn next c. es = es0 @ [EvCommit sn next c] \<and> list_all (\<lambda>e. \<not> isCommit e) es0
     \<and> list_all eventOk es0 \<and> is_ok c = is_ok r)"

text \<open>The state after saving a document that \<^verbatim>\<open>commit\<close> made from the loaded one.\<close>

definition savedFrom :: "'st l4Env \<Rightarrow> mappingSnapshot \<Rightarrow> 'st \<Rightarrow> 'st \<Rightarrow> bool" where
  "savedFrom env sn s s' \<longleftrightarrow> (\<exists>m removed r x. mo_save (le_ops env) r (commitSnapshot sn m removed) s = (s', x))"

definition mutates :: "'st l4Env \<Rightarrow> mappingSnapshot \<Rightarrow> ('st, 'a l4) l4prog \<Rightarrow> bool" where
  "mutates env sn m \<longleftrightarrow> (\<forall>w r w'. run_state m w = (r, w') \<longrightarrow> (\<exists>es. lw_log w' = lw_log w @ es
     \<and> (list_all (\<lambda>e. \<not> isCommit e) es \<and> lw_store w' = lw_store w
        \<or> persistsLast es r \<and> savedFrom env sn (lw_store w) (lw_store w'))))"

named_theorems phase_intros \<open>phases of the programs of the service\<close>

lemma hostPhaseI:
  "(\<And>w. wp m (\<lambda>r w'. lw_store w' = lw_store w \<and> (\<exists>es. lw_log w' = lw_log w @ es
      \<and> list_all (\<lambda>e. \<not> isCommit e) es \<and> (is_ok r \<longrightarrow> list_all eventOk es))) w) \<Longrightarrow> hostPhase m"
  by (auto simp: hostPhase_def dest: wp_run)

lemma hostPhaseE:
  assumes "hostPhase m" "run_state m w = (r, w')"
  obtains es where "lw_store w' = lw_store w" "lw_log w' = lw_log w @ es"
    "list_all (\<lambda>e. \<not> isCommit e) es" "is_ok r \<longrightarrow> list_all eventOk es"
  using assms unfolding hostPhase_def by blast

lemma hostPhase_ret [phase_intros]: "hostPhase (ret r)"
  by (simp add: hostPhase_def)

lemma hostPhase_tryA [phase_intros]:
  assumes "hostPhase m" "\<And>x. hostPhase (f x)"
  shows "hostPhase (tryA m f)"
  unfolding hostPhase_def
proof (intro allI impI)
  fix w r w' assume run: "run_state (tryA m f) w = (r, w')"
  obtain r1 w1 where 1: "run_state m w = (r1, w1)" by fastforce
  from hostPhaseE [OF assms(1) 1] obtain es where es: "lw_store w1 = lw_store w" "lw_log w1 = lw_log w @ es"
    "list_all (\<lambda>e. \<not> isCommit e) es" "is_ok r1 \<longrightarrow> list_all eventOk es" .
  show "lw_store w' = lw_store w \<and> (\<exists>es. lw_log w' = lw_log w @ es
      \<and> list_all (\<lambda>e. \<not> isCommit e) es \<and> (is_ok r \<longrightarrow> list_all eventOk es))"
  proof (cases r1)
    case (Ok x)
    with run 1 have "run_state (f x) w1 = (r, w')" by (simp add: tryA_def)
    from hostPhaseE [OF assms(2) this] obtain es' where "lw_store w' = lw_store w1" "lw_log w' = lw_log w1 @ es'"
      "list_all (\<lambda>e. \<not> isCommit e) es'" "is_ok r \<longrightarrow> list_all eventOk es'" .
    with es Ok show ?thesis by (intro conjI exI [of _ "es @ es'"]) auto
  qed (use run 1 es in \<open>auto simp: tryA_def\<close>)
qed

lemma mutates_after_host [phase_intros]:
  assumes "hostPhase m" "\<And>x. mutates env sn (f x)"
  shows "mutates env sn (tryA m f)"
  unfolding mutates_def
proof (intro allI impI)
  fix w r w' assume run: "run_state (tryA m f) w = (r, w')"
  obtain r1 w1 where 1: "run_state m w = (r1, w1)" by fastforce
  from hostPhaseE [OF assms(1) 1] obtain es where es: "lw_store w1 = lw_store w" "lw_log w1 = lw_log w @ es"
    "list_all (\<lambda>e. \<not> isCommit e) es" "is_ok r1 \<longrightarrow> list_all eventOk es" .
  show "\<exists>es. lw_log w' = lw_log w @ es
     \<and> (list_all (\<lambda>e. \<not> isCommit e) es \<and> lw_store w' = lw_store w
        \<or> persistsLast es r \<and> savedFrom env sn (lw_store w) (lw_store w'))"
  proof (cases r1)
    case (Ok x)
    with run 1 have "run_state (f x) w1 = (r, w')" by (simp add: tryA_def)
    with assms(2) [of x] obtain es' where es': "lw_log w' = lw_log w1 @ es'"
      "list_all (\<lambda>e. \<not> isCommit e) es' \<and> lw_store w' = lw_store w1
        \<or> persistsLast es' r \<and> savedFrom env sn (lw_store w1) (lw_store w')" unfolding mutates_def by blast
    have "persistsLast es' r \<Longrightarrow> persistsLast (es @ es') r"
      using es Ok unfolding persistsLast_def by (metis append.assoc is_ok.simps(1) list_all_append)
    with es es' show ?thesis by (intro exI [of _ "es @ es'"]) auto
  qed (use run 1 es in \<open>auto simp: tryA_def\<close>)
qed

lemma mutates_ret [phase_intros]: "mutates env sn (ret r)"
  by (simp add: mutates_def)

lemma mutates_commit [phase_intros]: "mutates env sn (commitA env sn m removed)"
  unfolding mutates_def persistsLast_def savedFrom_def
  by (auto simp: commitA_def stateSave_def l4Log_def Let_def split: prod.splits)

lemma mutates_commit_ret [phase_intros]: "mutates env sn (tryA (commitA env sn m removed) (\<lambda>_. ret (Ok x)))"
  unfolding mutates_def persistsLast_def savedFrom_def
  by (auto simp: tryA_def commitA_def stateSave_def l4Log_def Let_def split: prod.splits res.splits)

lemma phase_if [phase_intros]:
  "(b \<Longrightarrow> hostPhase m) \<Longrightarrow> (\<not> b \<Longrightarrow> hostPhase n) \<Longrightarrow> hostPhase (if b then m else n)"
  "(b \<Longrightarrow> mutates env sn m) \<Longrightarrow> (\<not> b \<Longrightarrow> mutates env sn n) \<Longrightarrow> mutates env sn (if b then m else n)"
  by simp_all

lemma mutates_option [phase_intros]:
  "mutates env sn m \<Longrightarrow> (\<And>y. x = Some y \<Longrightarrow> mutates env sn (g y)) \<Longrightarrow> mutates env sn (case x of None \<Rightarrow> m | Some y \<Rightarrow> g y)"
  by (cases x) simp_all

lemma phase_let [phase_intros]:
  "hostPhase (f x) \<Longrightarrow> hostPhase (let y = x in f y)"
  "mutates env sn (g x) \<Longrightarrow> mutates env sn (let y = x in g y)"
  by simp_all

lemma hostPhase_ensureChannel [phase_intros]: "hostPhase (ensureChannel env op req)"
  by (rule hostPhaseI) (auto simp: ensureChannel_def wp_simps)

lemma hostPhase_ensureChannelFor [phase_intros]: "hostPhase (ensureChannelFor env m ref revision)"
  unfolding ensureChannelFor_def by (intro phase_intros)

lemma hostPhase_createRule [phase_intros]: "hostPhase (createRule env op req)"
  by (rule hostPhaseI) (auto simp: createRule_def ruleCall_def wp_simps)

lemma unlessRejected_phase [phase_intros]:
  "hostPhase (unlessRejected (teardownChannel env op ref))"
  "hostPhase (unlessRejected (deleteRule env op req))"
  "hostPhase (unlessRejected (setRuleEnabled env op req b))"
  by (rule hostPhaseI, auto simp: unlessRejected_def teardownChannel_def deleteRule_def setRuleEnabled_def
      ruleCall_def wp_simps split: option.splits)+

lemma hostPhase_createRuleFor [phase_intros]: "hostPhase (createRuleFor env m session revision)"
  unfolding createRuleFor_def by (intro phase_intros)

lemma hostPhase_updateRuleFor [phase_intros]: "hostPhase (updateRuleFor env m session revision)"
  by (rule hostPhaseI) (auto simp: updateRuleFor_def updateRule_def createRuleFor_def createRule_def ruleCall_def wp_simps
      split: option.splits res.splits)

lemma hostPhase_allocate: "hostPhase (allocateMappingID env sn n)"
proof (induction n)
  case (Suc n)
  show ?case
  proof (rule hostPhaseI)
    fix w :: "'a l4World"
    from Suc have "wp (allocateMappingID env sn n) (\<lambda>r w'. lw_store w' = lw_store v \<and> (\<exists>es. lw_log w' = lw_log v @ es
        \<and> list_all (\<lambda>e. \<not> isCommit e) es \<and> (is_ok r \<longrightarrow> list_all eventOk es))) v" for v
      by (auto simp: hostPhase_def wp_def split: prod.splits)
    from this [of "w\<lparr> lw_tick := Suc (lw_tick w) \<rparr>"]
    show "wp (allocateMappingID env sn (Suc n)) (\<lambda>r w'. lw_store w' = lw_store w \<and> (\<exists>es. lw_log w' = lw_log w @ es
        \<and> list_all (\<lambda>e. \<not> isCommit e) es \<and> (is_ok r \<longrightarrow> list_all eventOk es))) w"
      by (auto simp: wp_simps split: res.splits)
  qed
qed (simp add: phase_intros)

lemma hostPhase_createIdentify [phase_intros]: "hostPhase (createIdentify env sn m)"
  unfolding createIdentify_def by (intro phase_intros hostPhase_allocate)

lemma hostPhase_releaseMovedRule [phase_intros]: "hostPhase (releaseMovedRule env b existing updated revision)"
  unfolding releaseMovedRule_def by (intro phase_intros)

lemma mutates_updateDisabled [phase_intros]: "mutates env sn (updateDisabled env sn existing updated)"
  unfolding updateDisabled_def by (intro phase_intros)

lemma mutates_updateEnabled [phase_intros]: "mutates env sn (updateEnabled env sn existing updated)"
  unfolding updateEnabled_def by (intro phase_intros)

lemma mutates_disable [phase_intros]: "mutates env sn (disableMapping env sn existing)"
  unfolding disableMapping_def by (intro phase_intros)

lemma mutates_enable [phase_intros]: "mutates env sn (enableMapping env sn existing)"
  unfolding enableMapping_def by (intro phase_intros)

text \<open>A mutation loads the catalog once, at its start.\<close>

definition loadedAndSaved :: "'st l4Env \<Rightarrow> 'st \<Rightarrow> 'st \<Rightarrow> bool" where
  "loadedAndSaved env s s' \<longleftrightarrow> (\<exists>r sn. mo_load (le_ops env) r s = Ok sn \<and> savedFrom env sn s s')"

definition mutation :: "'st l4Env \<Rightarrow> ('st, 'a l4) l4prog \<Rightarrow> bool" where
  "mutation env m \<longleftrightarrow> (\<forall>w r w'. run_state m w = (r, w') \<longrightarrow> (\<exists>es. lw_log w' = lw_log w @ es
     \<and> (list_all (\<lambda>e. \<not> isCommit e) es \<and> lw_store w' \<in> {lw_store w, le_other env (lw_tick w) (lw_store w)}
        \<or> persistsLast es r \<and> loadedAndSaved env (le_other env (lw_tick w) (lw_store w)) (lw_store w'))))"

lemma mutation_load:
  assumes "\<And>sn. mutates env sn (f sn)"
  shows "mutation env (tryA (stateLoad env) f)"
  unfolding mutation_def
proof (intro allI impI)
  fix w r w' assume run: "run_state (tryA (stateLoad env) f) w = (r, w')"
  let ?s = "le_other env (lw_tick w) (lw_store w)" and ?w1 = "w\<lparr> lw_store := le_other env (lw_tick w) (lw_store w), lw_tick := Suc (lw_tick w) \<rparr>"
  have 1: "run_state (stateLoad env) w = (mo_load (le_ops env) (le_reply env (lw_tick w)) ?s, ?w1)"
    by (simp add: stateLoad_def Let_def)
  show "\<exists>es. lw_log w' = lw_log w @ es
     \<and> (list_all (\<lambda>e. \<not> isCommit e) es \<and> lw_store w' \<in> {lw_store w, ?s}
        \<or> persistsLast es r \<and> loadedAndSaved env ?s (lw_store w'))"
  proof (cases "mo_load (le_ops env) (le_reply env (lw_tick w)) ?s")
    case (Ok sn)
    with run 1 have "run_state (f sn) ?w1 = (r, w')" by (simp add: tryA_def)
    with assms [of sn] obtain es where "lw_log w' = lw_log ?w1 @ es" "list_all (\<lambda>e. \<not> isCommit e) es \<and> lw_store w' = lw_store ?w1
        \<or> persistsLast es r \<and> savedFrom env sn (lw_store ?w1) (lw_store w')" unfolding mutates_def by blast
    with Ok show ?thesis by (intro exI [of _ es]) (auto simp: loadedAndSaved_def)
  qed (use run 1 in \<open>auto simp: tryA_def\<close>)
qed

lemma mutation_create: "mutation env (l4Create env spec)"
proof -
  let ?f = "tryA (stateLoad env) (\<lambda>sn. tryA (createIdentify env sn (createSpec spec)) (\<lambda>m.
     if length (ms_mappings sn) \<ge> MaxMappings then ret (Err ErrMappingBound)
     else let revision = ms_revision sn + 1 in
     tryA (ensureChannelFor env m [] revision) (\<lambda>session.
     tryA (createRule env (mutationKey env ''rule.create'' m revision) (ruleRequest m session)) (\<lambda>rule.
     let created = (withSession m session)\<lparr> mp_ruleRef := rr_ruleRef rule, mp_revision := revision \<rparr> in
     tryA (commitA env sn created None) (\<lambda>_. ret (Ok created))))))"
  have "mutation env ?f" by (intro mutation_load phase_intros)
  then show ?thesis
    by (auto simp: mutation_def l4Create_def Let_def tryA_def [of "ret _"] split: res.splits if_splits)
qed

lemma mutation_update: "mutation env (l4Update env spec)"
  unfolding l4Update_def by (intro mutation_load phase_intros)

lemma mutation_setEnabled: "mutation env (l4SetEnabled env i b)"
  unfolding l4SetEnabled_def by (intro mutation_load phase_intros)

lemma mutation_delete: "mutation env (l4Delete env i)"
  unfolding l4Delete_def by (intro mutation_load phase_intros)

lemma mutation_dropResult: "mutation env m \<Longrightarrow> mutation env (dropResult m)"
  unfolding mutation_def
proof (intro allI impI)
  fix w and r :: "unit l4" and w'
  assume m: "\<forall>w r w'. run_state m w = (r, w') \<longrightarrow> (\<exists>es. lw_log w' = lw_log w @ es
     \<and> (list_all (\<lambda>e. \<not> isCommit e) es \<and> lw_store w' \<in> {lw_store w, le_other env (lw_tick w) (lw_store w)}
        \<or> persistsLast es r \<and> loadedAndSaved env (le_other env (lw_tick w) (lw_store w)) (lw_store w')))"
    and run: "run_state (dropResult m) w = (r, w')"
  obtain r1 where "run_state m w = (r1, w')" "is_ok r1 = is_ok r"
    using run by (cases "run_state m w"; cases "fst (run_state m w)") (auto simp: dropResult_def tryA_def)
  with m show "\<exists>es. lw_log w' = lw_log w @ es
     \<and> (list_all (\<lambda>e. \<not> isCommit e) es \<and> lw_store w' \<in> {lw_store w, le_other env (lw_tick w) (lw_store w)}
        \<or> persistsLast es r \<and> loadedAndSaved env (le_other env (lw_tick w) (lw_store w)) (lw_store w'))"
    unfolding persistsLast_def by metis
qed

lemma mutation_runMutation: "mutation env (runMutation env q)"
  by (cases q) (simp_all add: runMutation_def mutation_dropResult mutation_create mutation_update
      mutation_setEnabled mutation_delete)

text \<open>
  C26. A mutation persists last, and only after its host effects succeeded: in every environment
  the events of a create, update, enable, disable or delete request hold no commit, and then the
  catalog is untouched by it, or they end with their only commit, every host call before it
  succeeded or was rejected because the target it releases or updates is gone, and the request
  succeeds exactly when that commit does.
\<close>

theorem mutation_persists_last:
  "case run_state (runMutation env q) w of (r, w') \<Rightarrow>
     \<exists>es. lw_log w' = lw_log w @ es \<and>
       (list_all (\<lambda>e. \<not> isCommit e) es \<and> lw_store w' \<in> {lw_store w, le_other env (lw_tick w) (lw_store w)}
        \<or> (\<exists>es0 sn next c. es = es0 @ [EvCommit sn next c] \<and> list_all (\<lambda>e. \<not> isCommit e \<and> eventOk e) es0
             \<and> is_ok c = is_ok r))"
proof -
  note mutation_runMutation [of env q]
  then have "\<exists>es. lw_log w' = lw_log w @ es
      \<and> (list_all (\<lambda>e. \<not> isCommit e) es \<and> lw_store w' \<in> {lw_store w, le_other env (lw_tick w) (lw_store w)}
        \<or> persistsLast es r \<and> loadedAndSaved env (le_other env (lw_tick w) (lw_store w)) (lw_store w'))"
    if "run_state (runMutation env q) w = (r, w')" for r w'
    using that unfolding mutation_def by blast
  moreover have "persistsLast es r \<Longrightarrow> \<exists>es0 sn next c. es = es0 @ [EvCommit sn next c]
      \<and> list_all (\<lambda>e. \<not> isCommit e \<and> eventOk e) es0 \<and> is_ok c = is_ok r" for es and r :: "unit l4"
    unfolding persistsLast_def list_all_iff by blast
  ultimately show ?thesis by (auto split: prod.split)
qed

section \<open>Enabled mappings are served\<close>

text \<open>
  The events \<open>es\<close> left the mapping served: a channel between its agents to its backend was ensured
  and is the one recorded, and its rule forwards its listener on the entry agent to that channel's
  bridge.
\<close>

definition channelFor :: "mapping \<Rightarrow> l4Event list \<Rightarrow> bool" where
  "channelFor m es \<longleftrightarrow> (\<exists>op ref session. EvEnsure op (ensureRequest m ref) (Ok session) \<in> set es
     \<and> cs_sessionRef session = mp_sessionRef m \<and> cs_bridgeHost session = mp_bridgeHost m \<and> cs_bridgePort session = mp_bridgePort m)"

definition forwardsTo :: "mapping \<Rightarrow> l4RuleRequest \<Rightarrow> bool" where
  "forwardsTo m req \<longleftrightarrow> lr_agentID req = mp_entryAgentID m \<and> lr_protocol req = mp_protocol m
     \<and> lr_listenHost req = effectiveListenHost m \<and> lr_listenPort req = mp_listenPort m
     \<and> lr_backends req = [(mp_bridgeHost m, mp_bridgePort m)]"

definition ruleFor :: "mapping \<Rightarrow> l4Event list \<Rightarrow> bool" where
  "ruleFor m es \<longleftrightarrow> (\<exists>a op req rule. EvRule a op req (Ok rule) \<in> set es \<and> forwardsTo m req
     \<and> (a = RuleCreate \<and> rr_ruleRef rule = mp_ruleRef m \<or> a = RuleUpdate \<and> lr_ruleRef req = mp_ruleRef m \<and> lr_enabled req = Some True))"

definition served :: "mapping \<Rightarrow> l4Event list \<Rightarrow> bool" where
  "served m es \<longleftrightarrow> channelFor m es \<and> ruleFor m es \<and>
     (\<exists>sn. EvCommit sn (commitSnapshot sn m None) (Ok ()) \<in> set es)"

lemma run_commit_Ok:
  "run_state (commitA env sn m removed) w = (Ok x, w') \<Longrightarrow>
    lw_log w' = lw_log w @ [EvCommit sn (commitSnapshot sn m removed) (Ok ())]"
  by (auto simp: commitA_def stateSave_def l4Log_def Let_def split: prod.splits)

lemma run_ensureChannelFor_Ok:
  "run_state (ensureChannelFor env m ref revision) w = (Ok session, w') \<Longrightarrow>
    \<exists>op. lw_log w' = lw_log w @ [EvEnsure op (ensureRequest m ref) (Ok session)]"
  by (auto simp: ensureChannelFor_def ensureChannel_def l4Tick_def l4Log_def Let_def split: option.splits if_splits)

lemma run_createRule_Ok:
  "run_state (createRule env op req) w = (Ok rule, w') \<Longrightarrow> lw_log w' = lw_log w @ [EvRule RuleCreate op req (Ok rule)]"
  by (auto simp: createRule_def ruleCall_def l4Tick_def l4Log_def Let_def split: option.splits if_splits)

lemma run_createRuleFor_Ok:
  assumes "run_state (createRuleFor env m session revision) w = (Ok m', w')"
  shows "\<exists>r op rule. m' = m\<lparr> mp_ruleRef := r \<rparr> \<and> r = rr_ruleRef rule
    \<and> lw_log w' = lw_log w @ [EvRule RuleCreate op (ruleRequest m session) (Ok rule)]"
  using assms by (auto simp: createRuleFor_def run_tryA_Ok dest!: run_createRule_Ok)

text \<open>After the rule step the mapping differs at most in its rule reference, and its rule is in place.\<close>

lemma run_ruleStep_Ok:
  assumes "run_state (createRuleFor env m session revision) w = (Ok m', w')
      \<or> run_state (updateRuleFor env m session revision) w = (Ok m', w')"
    and "cs_bridgeHost session = mp_bridgeHost m" "cs_bridgePort session = mp_bridgePort m"
  shows "(\<exists>r. m' = m\<lparr> mp_ruleRef := r \<rparr>) \<and> (\<exists>es. lw_log w' = lw_log w @ es \<and> ruleFor m' es)"
  using assms(1)
proof
  assume "run_state (createRuleFor env m session revision) w = (Ok m', w')"
  from run_createRuleFor_Ok [OF this] assms(2,3) show ?thesis
    by (fastforce simp: ruleFor_def forwardsTo_def ruleRequest_def effectiveListenHost_def)
next
  assume run: "run_state (updateRuleFor env m session revision) w = (Ok m', w')"
  let ?req = "(ruleRequest m session)\<lparr> lr_ruleRef := mp_ruleRef m, lr_enabled := Some True \<rparr>"
  obtain op r w1 where 1: "run_state (updateRule env op ?req) w = (r, w1)" "lw_log w1 = lw_log w @ [EvRule RuleUpdate op ?req r]"
    and 2: "case r of Ok _ \<Rightarrow> m' = m \<and> w' = w1
      | Err e \<Rightarrow> run_state (createRuleFor env m session revision) w1 = (Ok m', w') | Panic \<Rightarrow> False"
    using run by (auto simp: updateRuleFor_def updateRule_def ruleCall_def l4Tick_def l4Log_def Let_def
        split: res.splits if_splits)
  show ?thesis
  proof (cases r)
    case (Ok rule)
    with 1 2 assms(2,3) show ?thesis
      by (intro conjI exI [of _ "mp_ruleRef m"] exI [of _ "[EvRule RuleUpdate op ?req r]"])
        (auto simp: ruleFor_def forwardsTo_def ruleRequest_def effectiveListenHost_def)
  next
    case (Err e)
    with 2 run_createRuleFor_Ok [of env m session revision w1 m' w'] 1 assms(2,3) show ?thesis
      by (fastforce simp: ruleFor_def forwardsTo_def ruleRequest_def effectiveListenHost_def)
  qed (use 2 in simp)
qed

lemma served_mono: "channelFor m es \<Longrightarrow> channelFor m (es @ es')" "ruleFor m es \<Longrightarrow> ruleFor m (es' @ es @ es'')"
  unfolding channelFor_def ruleFor_def by auto

lemma channelFor_ensured:
  "EvEnsure op (ensureRequest m ref) (Ok session) \<in> set es \<Longrightarrow>
    channelFor ((withSession m session)\<lparr> mp_ruleRef := r \<rparr>) es"
  unfolding channelFor_def by (rule exI [of _ op], rule exI [of _ ref], rule exI [of _ session])
    (simp add: withSession_def ensureRequest_def)

text \<open>Fields that the channel and the rule do not depend on.\<close>

lemma served_irrelevant [simp]:
  "channelFor (m\<lparr> mp_enabled := b \<rparr>) es = channelFor m es" "ruleFor (m\<lparr> mp_enabled := b \<rparr>) es = ruleFor m es"
  "channelFor (m\<lparr> mp_revision := v \<rparr>) es = channelFor m es" "ruleFor (m\<lparr> mp_revision := v \<rparr>) es = ruleFor m es"
  by (simp_all add: channelFor_def ruleFor_def forwardsTo_def ensureRequest_def effectiveListenHost_def)

text \<open>Ensure, rule step and commit in sequence.\<close>

lemma run_attach_Ok:
  assumes "run_state (ensureChannelFor env m ref revision) w = (Ok session, w1)"
    and "lw_log w2 = lw_log w1 @ gap"
    and "run_state (createRuleFor env (withSession m' session) session revision) w2 = (Ok ruled, w3)
      \<or> run_state (updateRuleFor env (withSession m' session) session revision) w2 = (Ok ruled, w3)"
    and "ensureRequest m' ref = ensureRequest m ref"
  shows "\<exists>es. lw_log w3 = lw_log w @ es \<and> channelFor ruled es \<and> ruleFor ruled es"
proof -
  obtain op where 1: "lw_log w1 = lw_log w @ [EvEnsure op (ensureRequest m ref) (Ok session)]"
    using run_ensureChannelFor_Ok [OF assms(1)] by blast
  have "cs_bridgeHost session = mp_bridgeHost (withSession m' session)" "cs_bridgePort session = mp_bridgePort (withSession m' session)"
    by (simp_all add: withSession_def)
  from run_ruleStep_Ok [OF assms(3) this] obtain r es where
    r: "ruled = (withSession m' session)\<lparr> mp_ruleRef := r \<rparr>" and es: "lw_log w3 = lw_log w2 @ es" "ruleFor ruled es" by blast
  let ?es = "[EvEnsure op (ensureRequest m' ref) (Ok session)] @ gap @ es"
  have "channelFor ruled ?es" unfolding r by (rule channelFor_ensured [of op _ ref]) simp
  moreover have "ruleFor ruled ?es" using es(2) unfolding ruleFor_def by auto
  moreover have "lw_log w3 = lw_log w @ ?es" using 1 assms(2,4) es(1) by simp
  ultimately show ?thesis by blast
qed

lemma served_commit:
  assumes "lw_log w1 = lw_log w @ es" "channelFor m es" "ruleFor m es"
    and "run_state (commitA env sn m None) w1 = (Ok x, w')"
  shows "\<exists>es. lw_log w' = lw_log w @ es \<and> served m es"
proof -
  let ?es = "es @ [EvCommit sn (commitSnapshot sn m None) (Ok ())]"
  have "served m ?es" using assms(2,3) unfolding served_def channelFor_def ruleFor_def by auto
  with run_commit_Ok [OF assms(4)] assms(1) show ?thesis by (intro exI [of _ ?es]) simp
qed

lemma enable_served:
  assumes "run_state (enableMapping env sn existing) w = (Ok m, w')"
  shows "\<exists>es. lw_log w' = lw_log w @ es \<and> served m es"
proof -
  let ?v = "mp_revision existing + 1"
  from assms obtain session w1 ruled w2 x where
    1: "run_state (ensureChannelFor env existing (mp_sessionRef existing) ?v) w = (Ok session, w1)"
    and 2: "run_state (createRuleFor env (withSession (existing\<lparr> mp_revision := ?v \<rparr>) session) session ?v) w1 = (Ok ruled, w2)
      \<or> run_state (updateRuleFor env (withSession (existing\<lparr> mp_revision := ?v \<rparr>) session) session ?v) w1 = (Ok ruled, w2)"
    and 3: "run_state (commitA env sn m None) w2 = (Ok x, w')" and m: "m = ruled\<lparr> mp_enabled := True \<rparr>"
    by (auto simp: enableMapping_def Let_def run_tryA_Ok split: if_splits)
  have "\<exists>es. lw_log w2 = lw_log w @ es \<and> channelFor ruled es \<and> ruleFor ruled es"
    by (rule run_attach_Ok [OF 1 _ 2, of "[]"]) (simp_all add: ensureRequest_def)
  then obtain es where "lw_log w2 = lw_log w @ es" "channelFor m es" "ruleFor m es" using m by auto
  from served_commit [OF this 3] show ?thesis .
qed

lemma hostPhase_log: "hostPhase m \<Longrightarrow> run_state m w = (r, w') \<Longrightarrow> \<exists>es. lw_log w' = lw_log w @ es"
  by (erule hostPhaseE) auto

lemma update_served:
  assumes "run_state (updateEnabled env sn existing updated) w = (Ok m, w')"
  shows "\<exists>es. lw_log w' = lw_log w @ es \<and> served m es"
proof -
  let ?v = "mp_revision updated"
  let ?entry = "mp_entryAgentID updated \<noteq> mp_entryAgentID existing"
  let ?owners = "?entry \<or> mp_exitAgentID updated \<noteq> mp_exitAgentID existing"
  let ?ref = "if ?owners then [] else mp_sessionRef existing"
  let ?down = "if ?owners \<and> mp_sessionRef existing \<noteq> []
       then unlessRejected (teardownChannel env (mutationKey env ''channel.teardown'' updated ?v) (mp_sessionRef existing))
       else ret (Ok ())"
  let ?step = "\<lambda>session. if ?entry
       then tryA (releaseMovedRule env ?entry existing (withSession updated session) ?v)
         (\<lambda>_. createRuleFor env (withSession updated session) session ?v)
       else if mp_ruleRef existing = [] then createRuleFor env (withSession updated session) session ?v
       else updateRuleFor env (withSession updated session) session ?v"
  have "run_state (tryA ?down (\<lambda>_. tryA (ensureChannelFor env updated ?ref ?v) (\<lambda>session. tryA (?step session) (\<lambda>final.
      tryA (commitA env sn final None) (\<lambda>_. ret (Ok final)))))) w = (Ok m, w')"
    using assms by (simp only: updateEnabled_def Let_def)
  then obtain u w0 session w1 w3 x where
    0: "run_state ?down w = (Ok u, w0)"
    and 1: "run_state (ensureChannelFor env updated ?ref ?v) w0 = (Ok session, w1)"
    and rs: "run_state (?step session) w1 = (Ok m, w3)"
    and 4: "run_state (commitA env sn m None) w3 = (Ok x, w')"
    unfolding run_tryA_Ok by auto
  from rs obtain w2 where
    2: "w2 = w1 \<or> run_state (releaseMovedRule env ?entry existing (withSession updated session) ?v) w1 = (Ok u, w2)"
    and 3: "run_state (createRuleFor env (withSession updated session) session ?v) w2 = (Ok m, w3)
      \<or> run_state (updateRuleFor env (withSession updated session) session ?v) w2 = (Ok m, w3)"
    by (cases "?entry"; cases "mp_ruleRef existing = []") (auto simp: run_tryA_Ok)
  have "hostPhase ?down" by (intro phase_intros)
  from hostPhase_log [OF this 0] obtain es0 where es0: "lw_log w0 = lw_log w @ es0" ..
  have "\<exists>gap. lw_log w2 = lw_log w1 @ gap"
    using 2 hostPhase_log [OF hostPhase_releaseMovedRule] by (auto intro: exI [of _ "[]"])
  then obtain gap where "lw_log w2 = lw_log w1 @ gap" ..
  from run_attach_Ok [OF 1 this 3 refl] obtain es where es: "lw_log w3 = lw_log w0 @ es" "channelFor m es" "ruleFor m es" by blast
  from served_commit [OF es 4] obtain es' where "lw_log w' = lw_log w0 @ es'" "served m es'" by blast
  then show ?thesis using es0 unfolding served_def channelFor_def ruleFor_def by (intro exI [of _ "es0 @ es'"]) auto
qed

lemma create_served:
  assumes "run_state (l4Create env spec) w = (Ok m, w')"
  shows "\<exists>es. lw_log w' = lw_log w @ es \<and> served m es"
proof -
  let ?m0 = "createSpec spec"
  from assms obtain sn w0 m1 w1 session w2 rule w3 x where
    0: "run_state (stateLoad env) w = (Ok sn, w0)" and 1: "run_state (createIdentify env sn ?m0) w0 = (Ok m1, w1)"
    and 2: "run_state (ensureChannelFor env m1 [] (ms_revision sn + 1)) w1 = (Ok session, w2)"
    and 3: "run_state (createRule env (mutationKey env ''rule.create'' m1 (ms_revision sn + 1)) (ruleRequest m1 session)) w2 = (Ok rule, w3)"
    and m: "m = (withSession m1 session)\<lparr> mp_ruleRef := rr_ruleRef rule, mp_revision := ms_revision sn + 1 \<rparr>"
    and 4: "run_state (commitA env sn m None) w3 = (Ok x, w')"
    unfolding l4Create_def Let_def run_tryA_Ok by (auto simp: run_tryA_Ok split: if_splits)
  from hostPhase_log [OF hostPhase_createIdentify 1] obtain es0 where es0: "lw_log w1 = lw_log w0 @ es0" ..
  from run_ensureChannelFor_Ok [OF 2] obtain op where e2: "lw_log w2 = lw_log w1 @ [EvEnsure op (ensureRequest m1 []) (Ok session)]" ..
  let ?es = "es0 @ [EvEnsure op (ensureRequest m1 []) (Ok session)]
    @ [EvRule RuleCreate (mutationKey env ''rule.create'' m1 (ms_revision sn + 1)) (ruleRequest m1 session) (Ok rule)]"
  have "lw_log w3 = lw_log w @ ?es"
    using 0 es0 e2 run_createRule_Ok [OF 3] by (auto simp: stateLoad_def Let_def)
  moreover have "channelFor m ?es" unfolding m by (simp, rule channelFor_ensured [of op _ "[]"]) simp
  moreover have "ruleFor m ?es"
  proof -
    have "forwardsTo m (ruleRequest m1 session)"
      unfolding m by (simp add: forwardsTo_def ruleRequest_def withSession_def effectiveListenHost_def)
    moreover have "rr_ruleRef rule = mp_ruleRef m" by (simp add: m)
    ultimately show ?thesis unfolding ruleFor_def by auto
  qed
  ultimately show ?thesis using served_commit [OF _ _ _ 4] by blast
qed


text \<open>A host on which every call succeeds, and a catalog with one mapping.\<close>

definition calmSdk :: l4sdk where
  "calmSdk = \<lparr> sk_protocolTCP = ''tcp'', sk_protocolUDP = ''udp'', sk_stateOnline = ''online'', sk_stateOffline = ''offline'',
     sk_listenHostOk = (\<lambda>_. True), sk_reverseRequestOk = (\<lambda>_. True), sk_sha256 = (\<lambda>_. []) \<rparr>"

definition calmReply :: hostReply where
  "calmReply = \<lparr> hr_ctx = None, hr_valid = True, hr_failure = None, hr_ctxAfter = None,
     hr_session = \<lparr> cs_sessionRef = ''s1'', cs_state = ''online'', cs_bridgeHost = ''127.0.0.1'', cs_bridgePort = 7000, cs_lastError = [] \<rparr>,
     hr_rule = \<lparr> rr_ruleRef = ''r1'', rr_agentID = ''edge'', rr_enabled = True \<rparr>, hr_stored = True, hr_effect = True \<rparr>"

definition calmL4 :: "mappingSnapshot option l4Env" where
  "calmL4 = \<lparr> le_sdk = calmSdk, le_ops = durableOps calmSdk (\<lambda>_. True) True, le_available = True, le_requestKey = ''op-1'',
     le_reply = (\<lambda>_. calmReply), le_random = (\<lambda>_. Some [1, 2, 3, 4, 5, 6, 7, 8]), le_other = (\<lambda>_ s. s),
     le_lookup = (\<lambda>_. Some calmReply), le_deadline = None, le_errorText = (\<lambda>_. ''failed'') \<rparr>"

definition webMapping :: mapping where
  "webMapping = zeroMapping\<lparr> mp_id := ''web'', mp_entryAgentID := ''edge'', mp_exitAgentID := ''home'', mp_protocol := ''tcp'',
     mp_listenHost := ''0.0.0.0'', mp_listenPort := 8080, mp_backendHost := ''10.0.0.2'', mp_backendPort := 80 \<rparr>"

definition emptyL4World :: "mappingSnapshot option l4World" where
  "emptyL4World = \<lparr> lw_store = None, lw_log = [], lw_tick = 0 \<rparr>"


section \<open>Deleting\<close>

text \<open>The reference was released: the host confirmed it, or rejected the request because it is gone.\<close>

definition released :: "'a l4 \<Rightarrow> bool" where
  "released r \<longleftrightarrow> is_ok r \<or> r = Err ErrHostRejectedRequest"

lemma run_teardown_released:
  assumes "run_state (unlessRejected (teardownChannel env op ref)) w = (Ok u, w')"
  shows "lw_store w' = lw_store w \<and> (\<exists>r. lw_log w' = lw_log w @ [EvTeardown op ref r] \<and> released r)"
  using assms by (auto simp: unlessRejected_def teardownChannel_def l4Tick_def l4Log_def released_def Let_def
      split: option.splits if_splits)

lemma run_deleteRule_released:
  assumes "run_state (unlessRejected (deleteRule env op req)) w = (Ok u, w')"
  shows "lw_store w' = lw_store w \<and> (\<exists>r. lw_log w' = lw_log w @ [EvRule RuleDelete op req r] \<and> released r)"
  using assms by (auto simp: unlessRejected_def deleteRule_def ruleCall_def l4Tick_def l4Log_def released_def Let_def
      split: option.splits if_splits)

lemma run_durable_load:
  assumes "le_ops env = durableOps sdk fits available" "le_other env (lw_tick w) (lw_store w) = Some doc"
    and "run_state (stateLoad env) w = (Ok sn, w')"
  shows "sn = doc \<and> lw_store w' = Some doc \<and> lw_log w' = lw_log w \<and> distinct (map mp_id (ms_mappings doc))"
  using assms by (auto simp: stateLoad_def Let_def durableOps_def durableLoad_def decodeMappingState_iff split: option.splits if_splits)

lemma run_durable_commit:
  assumes "le_ops env = durableOps sdk fits available" "run_state (commitA env sn m removed) w = (Ok u, w')"
  shows "lw_store w' = Some (commitSnapshot sn m removed)
    \<and> lw_log w' = lw_log w @ [EvCommit sn (commitSnapshot sn m removed) (Ok ())]"
  using assms by (auto simp: commitA_def stateSave_def l4Log_def Let_def durableOps_def durableSave_def encodeMappingState_iff
      split: option.splits if_splits res.splits prod.splits)

text \<open>
  C28. A delete that succeeds leaves nothing behind: the durable catalog holds every other mapping
  unchanged and not the deleted one, and before that was written the channel and the rule that the
  record referred to were released, the rule on the entry agent that holds it.
\<close>

theorem delete_releases:
  assumes "le_ops env = durableOps sdk fits available"
    and "le_other env (lw_tick w) (lw_store w) = Some doc" "snapshotMapping doc i = Some existing"
    and "run_state (l4Delete env i) w = (Ok (), w')"
  shows "\<exists>next es. lw_store w' = Some next
    \<and> (\<forall>j. snapshotMapping next j = (if j = i then None else snapshotMapping doc j))
    \<and> lw_log w' = lw_log w @ es @ [EvCommit doc next (Ok ())]
    \<and> (mp_sessionRef existing \<noteq> [] \<longrightarrow> (\<exists>op r. EvTeardown op (mp_sessionRef existing) r \<in> set es \<and> released r))
    \<and> (mp_ruleRef existing \<noteq> [] \<longrightarrow> (\<exists>op r. EvRule RuleDelete op
          (ruleRefRequest (mp_ruleRef existing) (mp_entryAgentID existing)) r \<in> set es \<and> released r))"
proof -
  let ?v = "mp_revision existing + 1"
  let ?down = "if mp_sessionRef existing \<noteq> []
    then unlessRejected (teardownChannel env (mutationKey env ''channel.teardown'' existing ?v) (mp_sessionRef existing))
    else ret (Ok ())"
  let ?rule = "if mp_ruleRef existing \<noteq> []
    then unlessRejected (deleteRule env (mutationKey env ''rule.delete'' existing ?v)
      (ruleRefRequest (mp_ruleRef existing) (mp_entryAgentID existing))) else ret (Ok ())"
  from assms(4) obtain sn w0 where load: "run_state (stateLoad env) w = (Ok sn, w0)"
    and rest: "run_state (case snapshotMapping sn i of None \<Rightarrow> ret (Ok ())
     | Some existing \<Rightarrow> let revision = mp_revision existing + 1 in
       tryA (if mp_sessionRef existing \<noteq> []
         then unlessRejected (teardownChannel env (mutationKey env ''channel.teardown'' existing revision) (mp_sessionRef existing))
         else ret (Ok ())) (\<lambda>_.
       tryA (if mp_ruleRef existing \<noteq> []
         then unlessRejected (deleteRule env (mutationKey env ''rule.delete'' existing revision)
           (ruleRefRequest (mp_ruleRef existing) (mp_entryAgentID existing)))
         else ret (Ok ())) (\<lambda>_. commitA env sn zeroMapping (Some (mp_id existing))))) w0 = (Ok (), w')"
    unfolding l4Delete_def run_tryA_Ok by blast
  from run_durable_load [OF assms(1,2) load] have sn: "sn = doc" "lw_log w0 = lw_log w" "distinct (map mp_id (ms_mappings doc))" by auto
  have i: "mp_id existing = i" using assms(3) by (rule snapshotMapping_id)
  from rest sn(1) assms(3) i obtain w1 w2 where 1: "run_state ?down w0 = (Ok (), w1)" and 2: "run_state ?rule w1 = (Ok (), w2)"
    and 3: "run_state (commitA env doc zeroMapping (Some i)) w2 = (Ok (), w')"
    by (simp add: Let_def run_tryA_Ok split del: if_split) blast
  from 1 obtain es1 where es1: "lw_log w1 = lw_log w0 @ es1" "mp_sessionRef existing \<noteq> [] \<Longrightarrow>
      \<exists>op r. EvTeardown op (mp_sessionRef existing) r \<in> set es1 \<and> released r"
    by (cases "mp_sessionRef existing = []") (auto dest!: run_teardown_released)
  from 2 obtain es2 where es2: "lw_log w2 = lw_log w1 @ es2" "mp_ruleRef existing \<noteq> [] \<Longrightarrow> \<exists>op r. EvRule RuleDelete op
          (ruleRefRequest (mp_ruleRef existing) (mp_entryAgentID existing)) r \<in> set es2 \<and> released r"
    by (cases "mp_ruleRef existing = []") (auto dest!: run_deleteRule_released)
  have "snapshotMapping (commitSnapshot doc zeroMapping (Some i)) j = (if j = i then None else snapshotMapping doc j)" for j
    by (rule commit_drop [OF sn(3)]) (simp add: zeroMapping_def)
  with run_durable_commit [OF assms(1) 3] es1 es2 sn(2) show ?thesis
    by (intro exI [of _ "commitSnapshot doc zeroMapping (Some i)"] exI [of _ "es1 @ es2"]) auto
qed

definition servedMapping :: mapping where
  "servedMapping = webMapping\<lparr> mp_enabled := True, mp_sessionRef := ''s1'', mp_bridgeHost := ''127.0.0.1'', mp_bridgePort := 7000,
     mp_ruleRef := ''r1'', mp_revision := 1 \<rparr>"

definition servedWorld :: "mappingSnapshot option l4World" where
  "servedWorld = emptyL4World\<lparr> lw_store := Some \<lparr> ms_revision = 1, ms_mappings = [servedMapping] \<rparr> \<rparr>"

theorem delete_releases_witness:
  "\<exists>w' es next. run_state (l4Delete calmL4 ''web'') servedWorld = (Ok (), w') \<and> lw_store w' = Some next
    \<and> snapshotMapping next ''web'' = None \<and> lw_log w' = es @ [EvCommit \<lparr> ms_revision = 1, ms_mappings = [servedMapping] \<rparr> next (Ok ())]
    \<and> (\<exists>op r. EvTeardown op ''s1'' r \<in> set es \<and> released r)"
proof -
  let ?run = "run_state (l4Delete calmL4 ''web'') servedWorld" and ?doc = "\<lparr> ms_revision = 1, ms_mappings = [servedMapping] \<rparr>"
  have "fst ?run = Ok ()" by code_simp
  then have run: "?run = (Ok (), snd ?run)" by (metis prod.collapse)
  have ops: "le_ops calmL4 = durableOps calmSdk (\<lambda>_. True) True" by (simp add: calmL4_def)
  have doc: "le_other calmL4 (lw_tick servedWorld) (lw_store servedWorld) = Some ?doc" by (simp add: calmL4_def servedWorld_def)
  have found: "snapshotMapping ?doc ''web'' = Some servedMapping"
    by (simp add: snapshotMapping_def servedMapping_def webMapping_def)
  have "mp_sessionRef servedMapping = ''s1''" by (simp add: servedMapping_def)
  moreover obtain d es where d: "lw_store (snd ?run) = Some d"
    "\<forall>j. snapshotMapping d j = (if j = ''web'' then None else snapshotMapping ?doc j)"
    "lw_log (snd ?run) = lw_log servedWorld @ es @ [EvCommit ?doc d (Ok ())]"
    "mp_sessionRef servedMapping \<noteq> [] \<longrightarrow> (\<exists>op r. EvTeardown op (mp_sessionRef servedMapping) r \<in> set es \<and> released r)"
    using delete_releases [OF ops doc found run] by blast
  moreover from d(2) have "snapshotMapping d ''web'' = None" by simp
  moreover have "lw_log servedWorld = []" by (simp add: servedWorld_def emptyL4World_def)
  ultimately show ?thesis using run by (intro exI [of _ "snd ?run"] exI [of _ es] exI [of _ d]) simp
qed

section \<open>A rule without a record\<close>

definition saveFails :: "mappingSnapshot option l4Env" where
  "saveFails = calmL4\<lparr> le_reply := (\<lambda>n. if n = 3 then calmReply\<lparr> hr_stored := False, hr_effect := False \<rparr> else calmReply) \<rparr>"


end
