(* ===== verification/L4_Recovery.thy ===== *)
theory L4_Recovery
  imports L4_Effects
begin

text \<open>
  Recovery of the mapping service (\<^verbatim>\<open>src/plugins/reverse-l4/service.go\<close>). An attempt claims a
  mapping by raising its recovery generation, repairs its channel and rule outside the lock, and
  commits the new references only when nobody changed the mapping meanwhile; otherwise it releases
  what it made and aligns the host with the record of the winner. That last step can start over
  when the record changes again, so it runs on fuel, \<open>None\<close> meaning that the fuel ran out.
\<close>

section \<open>Definitions\<close>

definition recoveryKey :: "'st l4Env \<Rightarrow> string \<Rightarrow> mapping \<Rightarrow> string" where
  "recoveryKey env action m =
     recoveryOperationKey (le_sdk env) action (mp_id m) (mp_revision m) (mp_recoveryGeneration m)"

definition loadMapping :: "'st l4Env \<Rightarrow> string \<Rightarrow> ('st, mapping option l4) l4prog" where
  "loadMapping env i = tryA (stateLoad env) (\<lambda>sn. ret (Ok (snapshotMapping sn i)))"

text \<open>The record is still the one that was claimed.\<close>

definition stillClaimed :: "mapping \<Rightarrow> mapping option \<Rightarrow> bool" where
  "stillClaimed claimed current \<longleftrightarrow> (case current of None \<Rightarrow> False
     | Some m \<Rightarrow> mp_enabled m \<and> mp_revision m = mp_revision claimed \<and> mp_recoveryGeneration m = mp_recoveryGeneration claimed)"

definition mappingNeedsRecovery :: "'st l4Env \<Rightarrow> mapping \<Rightarrow> ('st, bool l4) l4prog" where
  "mappingNeedsRecovery env m =
     (if mp_sessionRef m = [] \<or> mp_ruleRef m = [] then ret (Ok True)
      else do {
        r \<leftarrow> channelStatus env (mp_sessionRef m);
        ret (case r of
          Err e \<Rightarrow> if e = ErrHostRejectedRequest then Ok True else Err e
        | Ok session \<Rightarrow>
            if channelStateNormalize (le_sdk env) (cs_state session) \<noteq> ''online'' then Ok True
            else if cs_bridgeHost session \<noteq> [] \<and> cs_bridgePort session > 0
              \<and> (cs_bridgeHost session \<noteq> mp_bridgeHost m \<or> cs_bridgePort session \<noteq> mp_bridgePort m) then Ok True
            else Ok False
        | Panic \<Rightarrow> Panic) })"

definition claimRecoveryAttempt :: "'st l4Env \<Rightarrow> mapping \<Rightarrow> ('st, mapping option l4) l4prog" where
  "claimRecoveryAttempt env observed =
     tryA (stateLoad env) (\<lambda>sn.
     case snapshotMapping sn (mp_id observed) of None \<Rightarrow> ret (Ok None)
     | Some current \<Rightarrow>
       if \<not> stillClaimed observed (Some current) then ret (Ok None)
       else let claimed = current\<lparr> mp_recoveryGeneration := mp_recoveryGeneration current + 1 \<rparr> in
         tryA (commitA env sn claimed None) (\<lambda>_. ret (Ok (Some claimed))))"

definition ensureChannelRecovery :: "'st l4Env \<Rightarrow> mapping \<Rightarrow> ('st, channelSession l4) l4prog" where
  "ensureChannelRecovery env m =
     (if \<not> sk_reverseRequestOk (le_sdk env) (ensureRequest m (mp_sessionRef m)) then ret (Err ErrInvalidMapping)
      else ensureChannel env (recoveryKey env ''channel.ensure'' m) (ensureRequest m (mp_sessionRef m)))"

text \<open>The mapping is passed by reference: on an error its rule reference is what it was.\<close>

definition alignRecoveredRule :: "'st l4Env \<Rightarrow> mapping \<Rightarrow> channelSession \<Rightarrow> ('st, mapping l4) l4prog" where
  "alignRecoveredRule env m session =
     (let create = tryA (createRule env (recoveryKey env ''rule.create'' m) (ruleRequest m session)) (\<lambda>rule.
        ret (Ok (m\<lparr> mp_ruleRef := rr_ruleRef rule \<rparr>))) in
      if mp_ruleRef m = [] then create
      else do {
        r \<leftarrow> updateRule env (recoveryKey env ''rule.update'' m)
          ((ruleRequest m session)\<lparr> lr_ruleRef := mp_ruleRef m, lr_enabled := Some True \<rparr>);
        case r of Ok _ \<Rightarrow> ret (Ok m)
        | Err e \<Rightarrow> if e \<noteq> ErrHostRejectedRequest then ret (Err e) else create
        | Panic \<Rightarrow> ret Panic })"

definition discardRecoveredHostEffects :: "'st l4Env \<Rightarrow> mapping \<Rightarrow> bool \<Rightarrow> ('st, unit l4) l4prog" where
  "discardRecoveredHostEffects env m removeRule =
     tryA (if mp_sessionRef m \<noteq> []
       then unlessRejected (teardownChannel env (recoveryKey env ''channel.teardown'' m) (mp_sessionRef m))
       else ret (Ok ())) (\<lambda>_.
     if mp_ruleRef m = [] then ret (Ok ())
     else if removeRule
       then unlessRejected (deleteRule env (recoveryKey env ''rule.delete'' m) (ruleRefRequest (mp_ruleRef m) (mp_entryAgentID m)))
       else unlessRejected (setRuleEnabled env (recoveryKey env ''rule.disable'' m)
         (ruleRefRequest (mp_ruleRef m) (mp_entryAgentID m)) False))"

definition discardDivergentRecoveredHostEffects :: "'st l4Env \<Rightarrow> mapping \<Rightarrow> mapping \<Rightarrow> ('st, unit l4) l4prog" where
  "discardDivergentRecoveredHostEffects env attempted current =
     (let divergent = attempted\<lparr>
            mp_sessionRef := (if mp_sessionRef attempted = mp_sessionRef current then [] else mp_sessionRef attempted),
            mp_ruleRef := (if mp_ruleRef attempted = mp_ruleRef current then [] else mp_ruleRef attempted) \<rparr>
      in if mp_sessionRef divergent = [] \<and> mp_ruleRef divergent = [] then ret (Ok ())
         else discardRecoveredHostEffects env divergent True)"

text \<open>\<open>again\<close> is the alignment with the winner's record, which may come back here.\<close>

definition abandonStaleRecovery ::
  "'st l4Env \<Rightarrow> (mapping \<Rightarrow> ('st, unit l4 option) l4prog) \<Rightarrow> mapping \<Rightarrow> mapping option \<Rightarrow> ('st, unit l4 option) l4prog" where
  "abandonStaleRecovery env again attempted current = (case current of
     None \<Rightarrow> do { r \<leftarrow> discardRecoveredHostEffects env attempted True; ret (Some r) }
   | Some m \<Rightarrow>
       if \<not> mp_enabled m then do {
         r \<leftarrow> tryA (discardRecoveredHostEffects env attempted False) (\<lambda>_.
           if mp_sessionRef m \<noteq> [] \<and> mp_sessionRef m \<noteq> mp_sessionRef attempted
           then discardRecoveredHostEffects env m False else ret (Ok ()));
         ret (Some r) }
       else do {
         r \<leftarrow> discardDivergentRecoveredHostEffects env attempted m;
         case r of Ok _ \<Rightarrow> again m | Err e \<Rightarrow> ret (Some (Err e)) | Panic \<Rightarrow> ret (Some Panic) })"

definition compensateClaimedRecovery ::
  "'st l4Env \<Rightarrow> (mapping \<Rightarrow> ('st, unit l4 option) l4prog) \<Rightarrow> mapping \<Rightarrow> mapping \<Rightarrow> l4_error \<Rightarrow> ('st, unit l4 option) l4prog" where
  "compensateClaimedRecovery env again claimed attempted cause = do {
     r \<leftarrow> loadMapping env (mp_id claimed);
     case r of
       Ok current \<Rightarrow>
         if stillClaimed claimed current then ret (Some (Err cause))
         else do {
           a \<leftarrow> abandonStaleRecovery env again attempted current;
           ret (case a of Some (Err e) \<Rightarrow> Some (Err (ErrBoth cause e)) | _ \<Rightarrow> a) }
     | Err _ \<Rightarrow> ret (Some (Err cause))
     | Panic \<Rightarrow> ret (Some Panic) }"

text \<open>The end of an attempt, under the lock: commit when the record is still the claimed one.\<close>

definition commitWhenClaimed ::
  "'st l4Env \<Rightarrow> mapping \<Rightarrow> mapping \<Rightarrow> ('st, (mapping option + unit l4) l4) l4prog" where
  "commitWhenClaimed env claimed restored =
     tryA (stateLoad env) (\<lambda>sn.
     let current = snapshotMapping sn (mp_id claimed) in
     if \<not> stillClaimed claimed current then ret (Ok (Inl current))
     else do { r \<leftarrow> commitA env sn restored None; ret (Ok (Inr r)) })"

definition commitRecoveredMapping ::
  "'st l4Env \<Rightarrow> (mapping \<Rightarrow> ('st, unit l4 option) l4prog) \<Rightarrow> mapping \<Rightarrow> mapping \<Rightarrow> ('st, unit l4 option) l4prog" where
  "commitRecoveredMapping env again claimed restored = do {
     r \<leftarrow> commitWhenClaimed env claimed restored;
     case r of
       Ok (Inl current) \<Rightarrow> abandonStaleRecovery env again restored current
     | Ok (Inr c) \<Rightarrow> ret (Some c)
     | Err e \<Rightarrow> ret (Some (Err e))
     | Panic \<Rightarrow> ret (Some Panic) }"

text \<open>Ensure the channel and align the rule; on an error, what the attempt holds at that point.\<close>

definition attemptRepair :: "'st l4Env \<Rightarrow> mapping \<Rightarrow> ('st, (mapping \<times> l4_error) + mapping) l4prog" where
  "attemptRepair env m = do {
     s \<leftarrow> ensureChannelRecovery env m;
     case s of
       Ok session \<Rightarrow> do {
         a \<leftarrow> alignRecoveredRule env (withSession m session) session;
         ret (case a of Ok m' \<Rightarrow> Inr m' | Err e \<Rightarrow> Inl (withSession m session, e)
           | Panic \<Rightarrow> Inl (withSession m session, ErrHostOperationFailed)) }
     | Err e \<Rightarrow> ret (Inl (m, e))
     | Panic \<Rightarrow> ret (Inl (m, ErrHostOperationFailed)) }"

primrec realignHostToMapping :: "nat \<Rightarrow> 'st l4Env \<Rightarrow> mapping \<Rightarrow> ('st, unit l4 option) l4prog" where
  "realignHostToMapping 0 env m = ret None"
| "realignHostToMapping (Suc fuel) env m = do {
     a \<leftarrow> attemptRepair env m;
     case a of
       Inl (attempted, e) \<Rightarrow> compensateClaimedRecovery env (realignHostToMapping fuel env) m attempted e
     | Inr attempted \<Rightarrow> do {
         r \<leftarrow> commitWhenClaimed env m attempted;
         case r of
           Ok (Inl current) \<Rightarrow> abandonStaleRecovery env (realignHostToMapping fuel env) attempted current
         | Ok (Inr (Ok _)) \<Rightarrow> ret (Some (Ok ()))
         | Ok (Inr (Err e)) \<Rightarrow> compensateClaimedRecovery env (realignHostToMapping fuel env) m attempted e
         | Ok (Inr Panic) \<Rightarrow> ret (Some Panic)
         | Err e \<Rightarrow> compensateClaimedRecovery env (realignHostToMapping fuel env) m attempted e
         | Panic \<Rightarrow> ret (Some Panic) } }"

definition recoverClaimed :: "nat \<Rightarrow> 'st l4Env \<Rightarrow> mapping \<Rightarrow> ('st, unit l4 option) l4prog" where
  "recoverClaimed fuel env claimed = do {
     a \<leftarrow> attemptRepair env claimed;
     case a of
       Inl (attempted, e) \<Rightarrow> compensateClaimedRecovery env (realignHostToMapping fuel env) claimed attempted e
     | Inr attempted \<Rightarrow> commitRecoveredMapping env (realignHostToMapping fuel env) claimed attempted }"

definition recoverMapping :: "nat \<Rightarrow> 'st l4Env \<Rightarrow> string \<Rightarrow> ('st, unit l4 option) l4prog" where
  "recoverMapping fuel env i =
     (if \<not> le_available env then ret (Some (Ok ()))
      else do {
        ctx \<leftarrow> l4Tick (\<lambda>n. hr_ctx (le_reply env n));
        case ctx of Some e \<Rightarrow> ret (Some (Err e))
        | None \<Rightarrow> do {
          c \<leftarrow> tryA (loadMapping env i) (\<lambda>found.
            case found of None \<Rightarrow> ret (Ok None)
            | Some m \<Rightarrow>
              if \<not> mp_enabled m then ret (Ok None)
              else tryA (mappingNeedsRecovery env m) (\<lambda>needed.
                if \<not> needed then ret (Ok None) else claimRecoveryAttempt env m));
          case c of
            Ok (Some claimed) \<Rightarrow> recoverClaimed fuel env claimed
          | Ok None \<Rightarrow> ret (Some (Ok ()))
          | Err e \<Rightarrow> ret (Some (Err e))
          | Panic \<Rightarrow> ret (Some Panic) } })"

text \<open>A pass over the catalog: the error of a mapping is dropped, and a canceled context ends the pass.\<close>

fun recoverEach :: "nat \<Rightarrow> 'st l4Env \<Rightarrow> mapping list \<Rightarrow> ('st, unit option) l4prog" where
  "recoverEach fuel env [] = ret (Some ())"
| "recoverEach fuel env (m # ms) = do {
     ctx \<leftarrow> l4Tick (\<lambda>n. hr_ctx (le_reply env n));
     if ctx \<noteq> None then ret (Some ())
     else if \<not> mp_enabled m then recoverEach fuel env ms
     else do {
       r \<leftarrow> recoverMapping fuel env (mp_id m);
       case r of None \<Rightarrow> ret None | Some _ \<Rightarrow> recoverEach fuel env ms } }"

definition recoverAll :: "nat \<Rightarrow> 'st l4Env \<Rightarrow> ('st, unit option) l4prog" where
  "recoverAll fuel env =
     (if \<not> le_available env then ret (Some ())
      else do {
        ctx \<leftarrow> l4Tick (\<lambda>n. hr_ctx (le_reply env n));
        if ctx \<noteq> None then ret (Some ())
        else do {
          r \<leftarrow> stateLoad env;
          case r of Ok sn \<Rightarrow> recoverEach fuel env (ms_mappings sn) | _ \<Rightarrow> ret (Some ()) } })"

text \<open>What the management page and the recovery loop ask of the service.\<close>

datatype l4Op = MutateOp l4Mutation | RecoverOp nat

definition runOp :: "'st l4Env \<Rightarrow> l4Op \<Rightarrow> ('st, unit) l4prog" where
  "runOp env q = (case q of
     MutateOp m \<Rightarrow> do { _ \<leftarrow> runMutation env m; ret () }
   | RecoverOp fuel \<Rightarrow> do { _ \<leftarrow> recoverAll fuel env; ret () })"

fun runOps :: "('st l4Env \<times> l4Op) list \<Rightarrow> 'st l4World \<Rightarrow> 'st l4World" where
  "runOps [] w = w"
| "runOps ((env, q) # rest) w = runOps rest (snd (run_state (runOp env q) w))"

end
