(* ===== verification/L4_Catalog.thy ===== *)
theory L4_Catalog
  imports L4_Recovery
begin

text \<open>
  The contract of a mapping state as the locale \<open>mapping_state\<close>, its two implementations, and the
  invariant that no operation of the service leaves a catalog that cannot be loaded again.
\<close>

section \<open>Host programs\<close>

text \<open>Programs that only talk to the host.\<close>

definition hostOnly :: "('st, 'a) l4prog \<Rightarrow> bool" where
  "hostOnly m \<longleftrightarrow> (\<forall>w r w'. run_state m w = (r, w') \<longrightarrow> lw_store w' = lw_store w \<and> lw_tick w \<le> lw_tick w'
     \<and> (\<exists>es. lw_log w' = lw_log w @ es \<and> list_all (\<lambda>e. \<not> isCommit e) es))"

named_theorems host_intros \<open>programs that only talk to the host\<close>

lemma hostOnly_ret [host_intros]: "hostOnly (ret x)"
  by (simp add: hostOnly_def)

lemma hostOnly_bind [host_intros]:
  assumes "hostOnly m" "\<And>x. hostOnly (f x)"
  shows "hostOnly (State_Monad.bind m f)"
  unfolding hostOnly_def
proof (intro allI impI)
  fix w r w' assume "run_state (State_Monad.bind m f) w = (r, w')"
  then obtain x w1 where 1: "run_state m w = (x, w1)" "run_state (f x) w1 = (r, w')" by (auto split: prod.splits)
  from 1(1) assms(1) obtain es where es: "lw_store w1 = lw_store w" "lw_tick w \<le> lw_tick w1" "lw_log w1 = lw_log w @ es"
    "list_all (\<lambda>e. \<not> isCommit e) es" unfolding hostOnly_def by blast
  from 1(2) assms(2) obtain es' where "lw_store w' = lw_store w1" "lw_tick w1 \<le> lw_tick w'" "lw_log w' = lw_log w1 @ es'"
    "list_all (\<lambda>e. \<not> isCommit e) es'" unfolding hostOnly_def by blast
  with es show "lw_store w' = lw_store w \<and> lw_tick w \<le> lw_tick w' \<and> (\<exists>es. lw_log w' = lw_log w @ es \<and> list_all (\<lambda>e. \<not> isCommit e) es)"
    by (intro conjI exI [of _ "es @ es'"]) auto
qed

lemma hostOnly_tick [host_intros]: "hostOnly (l4Tick f)"
  by (simp add: hostOnly_def l4Tick_def)

lemma hostOnly_log [host_intros]: "\<not> isCommit e \<Longrightarrow> hostOnly (l4Log e)"
  by (auto simp: hostOnly_def l4Log_def)

lemma hostOnly_if [host_intros]: "(b \<Longrightarrow> hostOnly m) \<Longrightarrow> (\<not> b \<Longrightarrow> hostOnly n) \<Longrightarrow> hostOnly (if b then m else n)"
  by simp

lemma hostOnly_res [host_intros]:
  "(\<And>x. hostOnly (f x)) \<Longrightarrow> (\<And>e. hostOnly (g e)) \<Longrightarrow> hostOnly p \<Longrightarrow> hostOnly (case r of Ok x \<Rightarrow> f x | Err e \<Rightarrow> g e | Panic \<Rightarrow> p)"
  by (cases r) simp_all

lemma hostOnly_tryA [host_intros]: "hostOnly m \<Longrightarrow> (\<And>x. hostOnly (f x)) \<Longrightarrow> hostOnly (tryA m f)"
  unfolding tryA_def by (intro host_intros)

lemma hostOnly_calls [host_intros]:
  "hostOnly (ensureChannel env op req)" "hostOnly (channelStatus env ref)" "hostOnly (teardownChannel env op ref)"
  "hostOnly (ruleCall env a op rule)"
  unfolding ensureChannel_def channelStatus_def teardownChannel_def ruleCall_def Let_def
  by (intro host_intros; simp)+

lemma hostOnly_repair [host_intros]:
  "hostOnly (ensureChannelRecovery env m)" "hostOnly (alignRecoveredRule env m session)" "hostOnly (attemptRepair env m)"
  "hostOnly (discardRecoveredHostEffects env m b)" "hostOnly (discardDivergentRecoveredHostEffects env m m')"
  "hostOnly (mappingNeedsRecovery env m)"
  unfolding ensureChannelRecovery_def alignRecoveredRule_def attemptRepair_def discardRecoveredHostEffects_def
    discardDivergentRecoveredHostEffects_def mappingNeedsRecovery_def unlessRejected_def createRule_def updateRule_def
    setRuleEnabled_def deleteRule_def Let_def
  by (intro host_intros)+

section \<open>The contract of a mapping state\<close>

definition idsOk :: "mappingSnapshot \<Rightarrow> bool" where
  "idsOk d \<longleftrightarrow> distinct (map mp_id (ms_mappings d)) \<and> list_all (\<lambda>m. mp_id m \<noteq> []) (ms_mappings d)"

locale mapping_state =
  fixes ops :: "'st mappingOps" and docOf :: "'st \<Rightarrow> mappingSnapshot" and good :: "'st \<Rightarrow> bool"
  assumes load_doc: "mo_load ops r s = Ok sn \<Longrightarrow> sn = docOf s"
    and load_ids: "good s \<Longrightarrow> mo_load ops r s = Ok sn \<Longrightarrow> idsOk sn"
    and save_cases: "mo_save ops r sn s = (s', x) \<Longrightarrow> s' = s \<or> docOf s' = sn"
    and save_ok: "mo_save ops r sn s = (s', Ok ()) \<Longrightarrow> docOf s' = sn"
    and save_good: "good s \<Longrightarrow> mo_load ops r s = Ok sn \<Longrightarrow>
      mo_save ops r' (commitSnapshot sn m removed) s = (s', x) \<Longrightarrow> good s'"

lemma idsOk_commit: "idsOk sn \<Longrightarrow> idsOk (commitSnapshot sn m removed)"
proof -
  assume ok: "idsOk sn"
  have "list_all (\<lambda>m. mp_id m \<noteq> []) (commitLoop m removed ms)" if "list_all (\<lambda>m. mp_id m \<noteq> []) ms" for ms
    using that by (induction m removed ms rule: commitLoop.induct) auto
  with ok have "list_all (\<lambda>m. mp_id m \<noteq> []) (ms_mappings (commitSnapshot sn m removed))"
    by (auto simp: idsOk_def commitSnapshot_def Let_def list_all_iff)
  with ok commit_distinct show ?thesis by (simp add: idsOk_def)
qed

interpretation memory: mapping_state memoryOps "\<lambda>s. s" idsOk
  by unfold_locales (auto simp: memoryOps_def memoryLoad_def memorySave_def idsOk_commit)

definition durableDoc :: "mappingSnapshot option \<Rightarrow> mappingSnapshot" where
  "durableDoc s = (case s of None \<Rightarrow> emptySnapshot | Some d \<Rightarrow> d)"

text \<open>The stored document, if any, is one that the decoder accepts.\<close>

definition durableGood :: "l4sdk \<Rightarrow> (mappingSnapshot \<Rightarrow> bool) \<Rightarrow> mappingSnapshot option \<Rightarrow> bool" where
  "durableGood sdk fits s \<longleftrightarrow> (case s of None \<Rightarrow> True | Some d \<Rightarrow> decodeMappingState sdk fits d = Ok d)"

lemma validate_id: "mappingValidate sdk m = Ok () \<Longrightarrow> mp_id m \<noteq> []"
  by (auto simp: mappingValidate_def validMappingID_def split: if_splits)

lemma decode_idsOk: "decodeMappingState sdk fits d = Ok d' \<Longrightarrow> idsOk d"
  by (auto simp: decodeMappingState_iff idsOk_def list_all_iff dest: validate_id)

lemma emptySnapshot_ids: "idsOk emptySnapshot"
  by (simp add: idsOk_def emptySnapshot_def)

interpretation durable: mapping_state "durableOps sdk fits available" durableDoc "durableGood sdk fits"
  for sdk fits available
proof unfold_locales
  fix r s sn assume "mo_load (durableOps sdk fits available) r s = Ok sn"
  then show "sn = durableDoc s"
    by (auto simp: durableOps_def durableLoad_def durableDoc_def decodeMappingState_iff split: if_splits option.splits)
next
  fix r s sn assume "mo_load (durableOps sdk fits available) r s = Ok sn"
  then show "idsOk sn"
    by (auto simp: durableOps_def durableLoad_def emptySnapshot_ids split: if_splits option.splits dest: decode_idsOk)
      (metis decodeMappingState_iff decode_idsOk)
next
  fix r sn s s' and x :: "unit l4" assume "mo_save (durableOps sdk fits available) r sn s = (s', x)"
  then show "s' = s \<or> durableDoc s' = sn"
    by (auto simp: durableOps_def durableSave_def durableDoc_def encodeMappingState_iff split: if_splits option.splits res.splits)
next
  fix r sn s s' assume "mo_save (durableOps sdk fits available) r sn s = (s', Ok ())"
  then show "durableDoc s' = sn"
    by (auto simp: durableOps_def durableSave_def durableDoc_def encodeMappingState_iff split: if_splits option.splits res.splits)
next
  fix s r sn r' m removed s' and x :: "unit l4"
  assume good: "durableGood sdk fits s" and load: "mo_load (durableOps sdk fits available) r s = Ok sn"
    and save: "mo_save (durableOps sdk fits available) r' (commitSnapshot sn m removed) s = (s', x)"
  have "distinct (map mp_id (ms_mappings sn))"
    using load by (auto simp: durableOps_def durableLoad_def emptySnapshot_def decodeMappingState_iff split: if_splits option.splits)
  then have "durableGood sdk fits (Some d)" if "encodeMappingState sdk fits (commitSnapshot sn m removed) = Ok d" for d
    using that commit_distinct by (auto simp: durableGood_def encodeMappingState_iff decodeMappingState_iff)
  with save good show "durableGood sdk fits s'"
    by (auto simp: durableOps_def durableSave_def split: if_splits option.splits res.splits)
qed

section \<open>The catalog stays loadable\<close>

definition storeFrom :: "'st l4Env \<Rightarrow> mappingSnapshot \<Rightarrow> ('st, 'a) l4prog \<Rightarrow> bool" where
  "storeFrom env sn m \<longleftrightarrow> (\<forall>w r w'. run_state m w = (r, w') \<longrightarrow>
     lw_store w' = lw_store w \<or> savedFrom env sn (lw_store w) (lw_store w'))"

lemma storeFrom_mutates: "mutates env sn m \<Longrightarrow> storeFrom env sn m"
  unfolding mutates_def storeFrom_def by blast

lemma storeFrom_commitWhenClaimed:
  "storeFrom env sn (let current = snapshotMapping sn (mp_id claimed) in
     if \<not> stillClaimed claimed current then ret (Ok (Inl current))
     else do { r \<leftarrow> commitA env sn restored None; ret (Ok (Inr r)) })"
  unfolding storeFrom_def savedFrom_def
  by (auto simp: Let_def commitA_def stateSave_def l4Log_def split: prod.splits)

context mapping_state
begin

definition relyGood :: "'st l4Env \<Rightarrow> bool" where
  "relyGood env \<longleftrightarrow> le_ops env = ops \<and> (\<forall>n s. good s \<longrightarrow> good (le_other env n s))"

definition keepsGood :: "('st, 'a) l4prog \<Rightarrow> bool" where
  "keepsGood m \<longleftrightarrow> (\<forall>w r w'. run_state m w = (r, w') \<longrightarrow> good (lw_store w) \<longrightarrow> good (lw_store w'))"

lemma keeps_ret: "keepsGood (ret x)"
  by (simp add: keepsGood_def)

lemma keeps_bind: "keepsGood m \<Longrightarrow> (\<And>x. keepsGood (f x)) \<Longrightarrow> keepsGood (State_Monad.bind m f)"
  unfolding keepsGood_def by (auto split: prod.splits)

lemma keeps_tryA: "keepsGood m \<Longrightarrow> (\<And>x. keepsGood (f x)) \<Longrightarrow> keepsGood (tryA m f)"
  unfolding tryA_def by (rule keeps_bind) (auto intro: keeps_ret split: res.split)

lemma keeps_hostOnly: "hostOnly m \<Longrightarrow> keepsGood m"
  unfolding hostOnly_def keepsGood_def by metis

lemmas keeps_calls = hostOnly_repair [THEN keeps_hostOnly] hostOnly_tick [THEN keeps_hostOnly]

lemma keeps_if: "keepsGood m \<Longrightarrow> keepsGood n \<Longrightarrow> keepsGood (if b then m else n)"
  by simp

lemma keeps_section:
  assumes "relyGood env" "\<And>sn. storeFrom env sn (f sn)"
  shows "keepsGood (tryA (stateLoad env) f)"
  unfolding keepsGood_def
proof (intro allI impI)
  fix w r w' assume run: "run_state (tryA (stateLoad env) f) w = (r, w')" and g: "good (lw_store w)"
  let ?s = "le_other env (lw_tick w) (lw_store w)" and ?w1 = "w\<lparr> lw_store := le_other env (lw_tick w) (lw_store w), lw_tick := Suc (lw_tick w) \<rparr>"
  let ?l = "mo_load ops (le_reply env (lw_tick w)) ?s"
  have ops: "le_ops env = ops" and gs: "good ?s" using assms(1) g by (auto simp: relyGood_def)
  have 1: "run_state (stateLoad env) w = (?l, ?w1)" using ops by (simp add: stateLoad_def Let_def)
  show "good (lw_store w')"
  proof (cases ?l)
    case (Ok sn)
    with run 1 have "run_state (f sn) ?w1 = (r, w')" by (simp add: tryA_def)
    with assms(2) [of sn] have "lw_store w' = ?s \<or> savedFrom env sn ?s (lw_store w')"
      by (force simp: storeFrom_def)
    with gs save_good [OF gs Ok] ops show ?thesis by (auto simp: savedFrom_def)
  qed (use run 1 gs in \<open>auto simp: tryA_def\<close>)
qed

lemma keeps_load: "relyGood env \<Longrightarrow> keepsGood (stateLoad env)"
  by (auto simp: keepsGood_def relyGood_def stateLoad_def Let_def)

lemma keeps_mutation:
  assumes "relyGood env"
  shows "keepsGood (runMutation env q)"
  unfolding keepsGood_def
proof (intro allI impI)
  fix w r w' assume run: "run_state (runMutation env q) w = (r, w')" and g: "good (lw_store w)"
  let ?s = "le_other env (lw_tick w) (lw_store w)"
  have gs: "good ?s" using assms g by (simp add: relyGood_def)
  have "mutation env (runMutation env q)" by (rule mutation_runMutation)
  with run have "lw_store w' \<in> {lw_store w, ?s} \<or> loadedAndSaved env ?s (lw_store w')"
    unfolding mutation_def by blast
  moreover have "good (lw_store w')" if "loadedAndSaved env ?s (lw_store w')"
    using that assms save_good [OF gs] unfolding loadedAndSaved_def savedFrom_def relyGood_def by blast
  ultimately show "good (lw_store w')" using g gs by auto
qed

lemma keeps_abandon:
  assumes "\<And>m. keepsGood (again m)"
  shows "keepsGood (abandonStaleRecovery env again attempted current)"
  unfolding abandonStaleRecovery_def
  by (auto intro!: keeps_if keeps_ret keeps_bind keeps_calls keeps_tryA assms split: option.split res.split)

lemma keeps_compensate:
  assumes "relyGood env" "\<And>m. keepsGood (again m)"
  shows "keepsGood (compensateClaimedRecovery env again claimed attempted cause)"
  unfolding compensateClaimedRecovery_def loadMapping_def
  by (auto intro!: keeps_bind keeps_tryA keeps_load keeps_ret keeps_abandon assms split: res.split)

lemma keeps_commitWhenClaimed: "relyGood env \<Longrightarrow> keepsGood (commitWhenClaimed env claimed restored)"
  unfolding commitWhenClaimed_def by (rule keeps_section [OF _ storeFrom_commitWhenClaimed])

lemma keeps_realign: "relyGood env \<Longrightarrow> keepsGood (realignHostToMapping fuel env m)"
  by (induction fuel arbitrary: m)
    (auto intro!: keeps_bind keeps_ret keeps_compensate keeps_abandon keeps_commitWhenClaimed keeps_calls
      split: sum.split res.split)

lemma keeps_claim:
  assumes "relyGood env"
  shows "keepsGood (claimRecoveryAttempt env m)"
  unfolding claimRecoveryAttempt_def Let_def
  by (rule keeps_section [OF assms storeFrom_mutates]) (intro phase_intros)

lemma keeps_recoverMapping:
  assumes "relyGood env"
  shows "keepsGood (recoverMapping fuel env i)"
proof -
  have attempt: "keepsGood (recoverClaimed fuel env m)" for m
    unfolding recoverClaimed_def commitRecoveredMapping_def
    by (auto intro!: keeps_bind keeps_ret keeps_compensate keeps_abandon keeps_commitWhenClaimed keeps_calls
        keeps_realign assms split: sum.split res.split)
  show ?thesis
    unfolding recoverMapping_def loadMapping_def
    by (auto intro!: keeps_bind keeps_tryA keeps_ret keeps_load keeps_calls keeps_claim attempt assms
        split: option.split res.split)
qed

lemma keeps_recoverEach: "relyGood env \<Longrightarrow> keepsGood (recoverEach fuel env ms)"
  by (induction fuel env ms rule: recoverEach.induct)
    (auto intro!: keeps_bind keeps_ret keeps_if keeps_calls keeps_recoverMapping split: option.split)

lemma keeps_op:
  assumes "relyGood env"
  shows "keepsGood (runOp env q)"
  unfolding runOp_def recoverAll_def
  by (auto intro!: keeps_bind keeps_ret keeps_mutation keeps_calls keeps_load keeps_recoverEach assms
      split: l4Op.split res.split)

end

text \<open>
  C32. The durable catalog stays loadable: whatever requests and recovery passes run, in whatever
  order and with whatever answers and faults of the host and the state, as long as the others
  keep it so, a document that the service leaves is accepted by the decoder: it is within the
  bound, every mapping is valid and no identifier occurs twice.
\<close>

theorem catalog_stays_loadable:
  assumes "\<forall>(env, q) \<in> set qs. (\<exists>available. le_ops env = durableOps sdk fits available)
      \<and> (\<forall>n s. durableGood sdk fits s \<longrightarrow> durableGood sdk fits (le_other env n s))"
    and "lw_store w = None" and "lw_store (runOps qs w) = Some d"
  shows "decodeMappingState sdk fits d = Ok d"
proof -
  have "durableGood sdk fits (lw_store (runOps qs w))" if "durableGood sdk fits (lw_store w)"
    using assms(1) that
  proof (induction qs arbitrary: w)
    case (Cons p qs)
    obtain env q where p: "p = (env, q)" by fastforce
    with Cons.prems(1) obtain available where "durable.relyGood sdk fits available env"
      by (auto simp: durable.relyGood_def)
    then have "durable.keepsGood sdk fits (runOp env q)" by (rule durable.keeps_op)
    with Cons.prems(2) have "durableGood sdk fits (lw_store (snd (run_state (runOp env q) w)))"
      unfolding durable.keepsGood_def by (metis prod.collapse)
    with Cons.IH Cons.prems(1) p show ?case by simp
  qed simp
  with assms(2,3) show ?thesis by (simp add: durableGood_def)
qed

theorem catalog_stays_loadable_witness:
  "\<exists>d. lw_store (runOps [(calmL4, MutateOp (CreateMapping webMapping)), (calmL4, RecoverOp 2)] emptyL4World) = Some d
    \<and> decodeMappingState calmSdk (\<lambda>_. True) d = Ok d \<and> length (ms_mappings d) = 1"
proof -
  let ?qs = "[(calmL4, MutateOp (CreateMapping webMapping)), (calmL4, RecoverOp 2)]"
  let ?s = "lw_store (runOps ?qs emptyL4World)"
  have "?s \<noteq> None \<and> length (ms_mappings (the ?s)) = 1" by code_simp
  then obtain d where d: "?s = Some d" "length (ms_mappings d) = 1" by auto
  have "\<forall>(env, q) \<in> set ?qs. (\<exists>available. le_ops env = durableOps calmSdk (\<lambda>_. True) available)
      \<and> (\<forall>n s. durableGood calmSdk (\<lambda>_. True) s \<longrightarrow> durableGood calmSdk (\<lambda>_. True) (le_other env n s))"
    by (auto simp: calmL4_def)
  moreover have "lw_store emptyL4World = None" by (simp add: emptyL4World_def)
  ultimately have "decodeMappingState calmSdk (\<lambda>_. True) d = Ok d" using d(1) by (rule catalog_stays_loadable)
  with d show ?thesis by blast
qed

end
