(* ===== verification/L4_Guarantee.thy ===== *)
theory L4_Guarantee
  imports L4_Catalog
begin

text \<open>
  Mutations and recovery run concurrently; only the sections between loading and committing the
  catalog are atomic. What others may do to the catalog between sections is the relation
  \<open>grows\<close>, which every commit of a mutation satisfies. Under it recovery never writes over a
  user's change.
\<close>

section \<open>What others may do\<close>

text \<open>What a user owns of a record, with its enabled flag and revision.\<close>

definition userPart :: "mapping \<Rightarrow> mapping" where
  "userPart m = m\<lparr> mp_ruleRef := [], mp_sessionRef := [], mp_bridgeHost := [], mp_bridgePort := 0, mp_recoveryGeneration := 0 \<rparr>"

definition docInv :: "mappingSnapshot \<Rightarrow> bool" where
  "docInv d \<longleftrightarrow> idsOk d \<and> list_all (\<lambda>m. mp_revision m \<le> ms_revision d) (ms_mappings d)"

text \<open>
  The revision of a record tells its specification: a record keeps it or gets a higher revision
  with a new one, and a record that was not there is newer than the whole catalog.
\<close>

definition grows :: "mappingSnapshot \<Rightarrow> mappingSnapshot \<Rightarrow> bool" where
  "grows d d' \<longleftrightarrow> (docInv d \<longrightarrow> docInv d' \<and> ms_revision d \<le> ms_revision d'
     \<and> (\<forall>i c'. snapshotMapping d' i = Some c' \<longrightarrow> (case snapshotMapping d i of
          None \<Rightarrow> ms_revision d < mp_revision c'
        | Some c \<Rightarrow> mp_revision c < mp_revision c' \<or> mp_revision c = mp_revision c' \<and> userPart c = userPart c')))"

definition keepsSpec :: "mappingSnapshot \<Rightarrow> mappingSnapshot \<Rightarrow> bool" where
  "keepsSpec d d' \<longleftrightarrow> (\<forall>i. map_option userPart (snapshotMapping d' i) = map_option userPart (snapshotMapping d i))"

lemma grows_refl: "grows d d"
  by (simp add: grows_def split: option.split)

lemma userPart_sel [simp]: "mp_revision (userPart c) = mp_revision c" "mp_id (userPart c) = mp_id c"
  "mp_enabled (userPart c) = mp_enabled c"
  by (simp_all add: userPart_def)

lemma userPart_revision: "userPart c = userPart c' \<Longrightarrow> mp_revision c = mp_revision c'"
  by (metis userPart_sel(1))

lemma docInv_iff: "docInv d \<longleftrightarrow> idsOk d \<and> (\<forall>i c. snapshotMapping d i = Some c \<longrightarrow> mp_revision c \<le> ms_revision d)"
  by (auto simp: docInv_def idsOk_def list_all_iff snapshotMapping_iff)

lemma docInv_old: "docInv d \<Longrightarrow> snapshotMapping d i = Some c \<Longrightarrow> mp_revision c \<le> ms_revision d"
  by (auto simp: docInv_iff)

lemma revision_step:
  assumes "r \<noteq> - (1 :: u64)"
  shows "r < r + 1"
proof -
  have "1 + r \<noteq> 0" using assms by (metis add.commute eq_neg_iff_add_eq_0)
  then have "unat (1 + r) = Suc (unat r)" by (rule unatSuc)
  then show ?thesis by (simp add: word_less_nat_alt add.commute)
qed

text \<open>A commit that puts a record with an owner that is new, changed under a higher revision, or unchanged.\<close>

lemma grows_put:
  assumes "mp_id m \<noteq> []" "ms_revision sn \<noteq> - 1"
    and "docInv sn \<Longrightarrow> mp_revision m \<le> ms_revision sn + 1"
    and "docInv sn \<Longrightarrow> case snapshotMapping sn (mp_id m) of None \<Rightarrow> ms_revision sn < mp_revision m
      | Some c \<Rightarrow> mp_revision c < mp_revision m \<or> userPart c = userPart m"
  shows "grows sn (commitSnapshot sn m None)"
  unfolding grows_def
proof
  assume inv: "docInv sn"
  have lt: "ms_revision sn < ms_revision sn + 1" by (rule revision_step) fact
  have dist: "distinct (map mp_id (ms_mappings sn))" using inv by (simp add: docInv_def idsOk_def)
  note put = commit_put [OF dist assms(1)]
  have "docInv (commitSnapshot sn m None)"
  proof -
    have "mp_revision c \<le> ms_revision sn + 1" if "snapshotMapping (commitSnapshot sn m None) i = Some c" for i c
      using that assms(3) [OF inv] docInv_old [OF inv, of i c] lt by (cases "i = mp_id m") (auto simp: put)
    moreover have "idsOk (commitSnapshot sn m None)" using inv idsOk_commit by (simp add: docInv_def)
    ultimately show ?thesis by (simp add: docInv_iff)
  qed
  moreover have "case snapshotMapping sn i of None \<Rightarrow> ms_revision sn < mp_revision c'
      | Some c \<Rightarrow> mp_revision c < mp_revision c' \<or> mp_revision c = mp_revision c' \<and> userPart c = userPart c'"
    if "snapshotMapping (commitSnapshot sn m None) i = Some c'" for i c'
    using that assms(4) [OF inv] by (auto simp: put split: if_splits option.splits dest: userPart_revision)
  ultimately show "docInv (commitSnapshot sn m None) \<and> ms_revision sn \<le> ms_revision (commitSnapshot sn m None)
     \<and> (\<forall>i c'. snapshotMapping (commitSnapshot sn m None) i = Some c' \<longrightarrow> (case snapshotMapping sn i of
          None \<Rightarrow> ms_revision sn < mp_revision c'
        | Some c \<Rightarrow> mp_revision c < mp_revision c' \<or> mp_revision c = mp_revision c' \<and> userPart c = userPart c'))"
    using lt by simp
qed

lemma grows_drop:
  assumes "ms_revision sn \<noteq> - 1"
  shows "grows sn (commitSnapshot sn zeroMapping (Some i))"
  unfolding grows_def
proof
  assume inv: "docInv sn"
  have lt: "ms_revision sn < ms_revision sn + 1" by (rule revision_step) fact
  have dist: "distinct (map mp_id (ms_mappings sn))" using inv by (simp add: docInv_def idsOk_def)
  have drop: "snapshotMapping (commitSnapshot sn zeroMapping (Some i)) j = (if j = i then None else snapshotMapping sn j)" for j
    by (rule commit_drop [OF dist]) (simp add: zeroMapping_def)
  have "docInv (commitSnapshot sn zeroMapping (Some i))"
  proof -
    have "mp_revision c \<le> ms_revision sn + 1" if "snapshotMapping (commitSnapshot sn zeroMapping (Some i)) j = Some c" for j c
      using that docInv_old [OF inv, of j c] lt by (cases "j = i") (auto simp: drop)
    moreover have "idsOk (commitSnapshot sn zeroMapping (Some i))" using inv idsOk_commit by (simp add: docInv_def)
    ultimately show ?thesis by (simp add: docInv_iff)
  qed
  then show "docInv (commitSnapshot sn zeroMapping (Some i)) \<and> ms_revision sn \<le> ms_revision (commitSnapshot sn zeroMapping (Some i))
     \<and> (\<forall>j c'. snapshotMapping (commitSnapshot sn zeroMapping (Some i)) j = Some c' \<longrightarrow> (case snapshotMapping sn j of
          None \<Rightarrow> ms_revision sn < mp_revision c'
        | Some c \<Rightarrow> mp_revision c < mp_revision c' \<or> mp_revision c = mp_revision c' \<and> userPart c = userPart c'))"
    using lt by (auto simp: drop split: if_splits)
qed

section \<open>Mutations satisfy it\<close>

definition commitGrows :: "l4Event \<Rightarrow> bool" where
  "commitGrows e \<longleftrightarrow> (case e of EvCommit sn d _ \<Rightarrow> ms_revision sn = - 1 \<or> grows sn d | _ \<Rightarrow> True)"

definition emits :: "(l4Event \<Rightarrow> bool) \<Rightarrow> ('st, 'a) l4prog \<Rightarrow> bool" where
  "emits R m \<longleftrightarrow> (\<forall>w r w'. run_state m w = (r, w') \<longrightarrow> (\<exists>es. lw_log w' = lw_log w @ es \<and> list_all R es))"

named_theorems emits_intros \<open>which events programs emit\<close>

lemma emits_host [emits_intros]: "hostPhase m \<Longrightarrow> emits commitGrows m"
  unfolding emits_def
proof (intro allI impI)
  fix w r w' assume "hostPhase m" "run_state m w = (r, w')"
  then obtain es where "lw_log w' = lw_log w @ es" "list_all (\<lambda>e. \<not> isCommit e) es" by (rule hostPhaseE)
  then have "lw_log w' = lw_log w @ es \<and> list_all commitGrows es"
    by (fastforce simp: list_all_iff commitGrows_def split: l4Event.split)
  then show "\<exists>es. lw_log w' = lw_log w @ es \<and> list_all commitGrows es" ..
qed

lemma emits_ret [emits_intros]: "emits R (ret x)"
  by (simp add: emits_def)

lemma emits_tryA:
  assumes "emits R m" "\<And>x w w1. run_state m w = (Ok x, w1) \<Longrightarrow> emits R (f x)"
  shows "emits R (tryA m f)"
  unfolding emits_def
proof (intro allI impI)
  fix w r w' assume run: "run_state (tryA m f) w = (r, w')"
  obtain r1 w1 where 1: "run_state m w = (r1, w1)" by fastforce
  with assms(1) obtain es where es: "lw_log w1 = lw_log w @ es" "list_all R es" unfolding emits_def by blast
  show "\<exists>es. lw_log w' = lw_log w @ es \<and> list_all R es"
  proof (cases r1)
    case (Ok x)
    with run 1 have "run_state (f x) w1 = (r, w')" by (simp add: tryA_def)
    with assms(2) 1 Ok obtain es' where "lw_log w' = lw_log w1 @ es'" "list_all R es'" unfolding emits_def by blast
    with es show ?thesis by (intro exI [of _ "es @ es'"]) simp
  qed (use run 1 es in \<open>auto simp: tryA_def\<close>)
qed

lemma emits_commit:
  assumes "\<And>r. R (EvCommit sn (commitSnapshot sn m removed) r)"
  shows "emits R (commitA env sn m removed)"
  unfolding emits_def using assms by (auto simp: commitA_def stateSave_def l4Log_def Let_def split: prod.splits)

lemma emits_load [emits_intros]: "emits R (stateLoad env)"
  by (auto simp: emits_def stateLoad_def Let_def)

lemma emits_put:
  assumes "ms_revision sn \<noteq> - 1 \<Longrightarrow> grows sn (commitSnapshot sn m None)"
  shows "emits commitGrows (tryA (commitA env sn m None) (\<lambda>_. ret (Ok x)))"
  using assms by (intro emits_tryA emits_commit emits_intros) (auto simp: commitGrows_def)

text \<open>The rule step changes nothing that a user owns.\<close>

lemma ruleStep_userPart:
  assumes "run_state (createRuleFor env m session revision) w = (Ok m', w')
      \<or> run_state (updateRuleFor env m session revision) w = (Ok m', w')"
  shows "userPart m' = userPart m"
  using assms by (auto simp: createRuleFor_def updateRuleFor_def updateRule_def run_tryA_Ok userPart_def ruleCall_def l4Tick_def
      l4Log_def Let_def split: res.splits if_splits)

lemma userPart_with [simp]: "userPart (withSession m session) = userPart m" "userPart (m\<lparr> mp_ruleRef := r \<rparr>) = userPart m"
  "userPart (m\<lparr> mp_recoveryGeneration := g \<rparr>) = userPart m"
  by (simp_all add: userPart_def withSession_def)

lemma userPart_eqD: "userPart c = userPart c' \<Longrightarrow> mp_id c = mp_id c' \<and> mp_revision c = mp_revision c' \<and> mp_enabled c = mp_enabled c'"
  by (metis userPart_sel)

text \<open>Putting a changed record of the catalog under the next revision.\<close>

lemma grows_revised:
  assumes "snapshotMapping sn i = Some existing" "mp_id m = i" "mp_revision m = mp_revision existing + 1"
    and "ms_revision sn \<noteq> - 1"
  shows "grows sn (commitSnapshot sn m None)"
proof (cases "docInv sn")
  case inv: True
  have id: "mp_id existing = i" using assms(1) by (rule snapshotMapping_id)
  have "existing \<in> set (ms_mappings sn)" using assms(1) inv by (auto simp: docInv_def idsOk_def snapshotMapping_iff)
  then have ne: "i \<noteq> []" using inv id by (auto simp: docInv_def idsOk_def list_all_iff)
  have le: "mp_revision existing \<le> ms_revision sn" using docInv_old [OF inv assms(1)] .
  then have lt: "mp_revision existing < mp_revision existing + 1"
    using assms(4) by (intro revision_step) (metis word_order.extremum_uniqueI)
  have "mp_revision existing + 1 \<le> ms_revision sn + 1"
    using le lt revision_step [OF assms(4)] unfolding word_less_nat_alt word_le_nat_alt by (simp add: unat_word_ariths)
  with lt show ?thesis using assms ne by (intro grows_put) simp_all
qed (simp add: grows_def)

lemma emits_option [emits_intros]:
  "emits R m \<Longrightarrow> (\<And>y. x = Some y \<Longrightarrow> emits R (g y)) \<Longrightarrow> emits R (case x of None \<Rightarrow> m | Some y \<Rightarrow> g y)"
  by (cases x) simp_all

lemma emits_if: "(b \<Longrightarrow> emits R m) \<Longrightarrow> (\<not> b \<Longrightarrow> emits R n) \<Longrightarrow> emits R (if b then m else n)"
  by simp

lemma guarded_Ok: "(case r of Ok _ \<Rightarrow> Ok x | Err e \<Rightarrow> Err e | Panic \<Rightarrow> Panic) = Ok y \<longleftrightarrow> r = Ok () \<and> y = x"
  by (cases r) auto

lemma createIdentify_fresh:
  assumes "run_state (createIdentify env sn m0) w = (Ok m, w')" "mp_revision m0 = 0"
  shows "snapshotMapping sn (mp_id m) = None \<and> mp_id m \<noteq> []"
proof -
  have alloc: "snapshotMapping sn i = None" if "run_state (allocateMappingID env sn n) v = (Ok i, v')" for n i v v'
    using that by (induction n arbitrary: v) (auto simp: l4Tick_def split: res.splits if_splits)
  show ?thesis
  proof (cases "mp_id m0 = []")
    case True
    with assms obtain i v where "run_state (allocateMappingID env sn mappingIDAllocTries) w = (Ok i, v)"
      "m = m0\<lparr> mp_id := i \<rparr>" "mappingValidate (le_sdk env) m = Ok ()"
      by (auto simp: createIdentify_def run_tryA_Ok Let_def guarded_Ok)
    with alloc validate_id show ?thesis by fastforce
  qed (use assms in \<open>auto simp: createIdentify_def split: if_splits\<close>)
qed

lemma emits_create: "emits commitGrows (l4Create env spec)"
  unfolding l4Create_def Let_def
proof (rule emits_tryA [OF emits_ret], rule emits_tryA [OF emits_load], rule emits_tryA [OF emits_host [OF hostPhase_createIdentify]])
  fix sn m w w1 assume run: "run_state (createIdentify env sn (createSpec spec)) w = (Ok m, w1)"
  have fresh: "snapshotMapping sn (mp_id m) = None" "mp_id m \<noteq> []"
    using createIdentify_fresh [OF run] by (simp_all add: createSpec_def)
  let ?v = "ms_revision sn + 1"
  have "grows sn (commitSnapshot sn ((withSession m session)\<lparr> mp_ruleRef := ref, mp_revision := ?v \<rparr>) None)"
    if "ms_revision sn \<noteq> - 1" for session ref
    using that fresh revision_step [OF that] by (intro grows_put) (simp_all add: withSession_def)
  then show "emits commitGrows (if MaxMappings \<le> length (ms_mappings sn) then ret (Err ErrMappingBound)
      else tryA (ensureChannelFor env m [] ?v) (\<lambda>session. tryA (createRule env (mutationKey env ''rule.create'' m ?v) (ruleRequest m session)) (\<lambda>rule.
        tryA (commitA env sn ((withSession m session)\<lparr> mp_ruleRef := rr_ruleRef rule, mp_revision := ?v \<rparr>) None)
          (\<lambda>_. ret (Ok ((withSession m session)\<lparr> mp_ruleRef := rr_ruleRef rule, mp_revision := ?v \<rparr>))))))"
    by (intro emits_if emits_ret emits_tryA [OF emits_host [OF hostPhase_ensureChannelFor]]
        emits_tryA [OF emits_host [OF hostPhase_createRule]] emits_put)
qed

lemma emits_enable:
  assumes "snapshotMapping sn i = Some existing"
  shows "emits commitGrows (enableMapping env sn existing)" "emits commitGrows (disableMapping env sn existing)"
proof -
  have id: "mp_id existing = i" using assms by (rule snapshotMapping_id)
  show "emits commitGrows (enableMapping env sn existing)"
    unfolding enableMapping_def Let_def
  proof (rule emits_tryA [OF emits_host [OF hostPhase_ensureChannelFor]], rule emits_tryA)
    fix session ruled w w1
    let ?m = "withSession (existing\<lparr> mp_revision := mp_revision existing + 1 \<rparr>) session"
    assume "run_state (if mp_ruleRef existing = [] then createRuleFor env ?m session (mp_revision existing + 1)
      else updateRuleFor env ?m session (mp_revision existing + 1)) w = (Ok ruled, w1)"
    then have "userPart ruled = userPart ?m" by (intro ruleStep_userPart) (auto split: if_splits)
    then have "mp_id ruled = i \<and> mp_revision ruled = mp_revision existing + 1" using id by (auto dest!: userPart_eqD simp: withSession_def)
    then show "emits commitGrows (tryA (commitA env sn (ruled\<lparr> mp_enabled := True \<rparr>) None) (\<lambda>_. ret (Ok (ruled\<lparr> mp_enabled := True \<rparr>))))"
      by (intro emits_put grows_revised [OF assms]) simp_all
  qed (intro emits_host phase_intros)
  show "emits commitGrows (disableMapping env sn existing)"
    unfolding disableMapping_def Let_def using id
    by (intro emits_tryA [OF emits_host] emits_put grows_revised [OF assms] phase_intros) simp_all
qed

lemma emits_update:
  assumes "snapshotMapping sn i = Some existing" "mp_id updated = i" "mp_revision updated = mp_revision existing + 1"
  shows "emits commitGrows (updateEnabled env sn existing updated)" "emits commitGrows (updateDisabled env sn existing updated)"
proof -
  show "emits commitGrows (updateDisabled env sn existing updated)"
    unfolding updateDisabled_def Let_def using assms(2,3)
    by (intro emits_tryA [OF emits_host] emits_put grows_revised [OF assms(1)] phase_intros) auto
  show "emits commitGrows (updateEnabled env sn existing updated)"
    unfolding updateEnabled_def Let_def
  proof (rule emits_tryA [OF emits_host], intro phase_intros, rule emits_tryA [OF emits_host [OF hostPhase_ensureChannelFor]],
      rule emits_tryA)
    fix session final w w1
    let ?m = "withSession updated session" and ?v = "mp_revision updated"
    assume "run_state (if mp_entryAgentID updated \<noteq> mp_entryAgentID existing
      then tryA (releaseMovedRule env (mp_entryAgentID updated \<noteq> mp_entryAgentID existing) existing ?m ?v) (\<lambda>_. createRuleFor env ?m session ?v)
      else if mp_ruleRef existing = [] then createRuleFor env ?m session ?v else updateRuleFor env ?m session ?v) w = (Ok final, w1)"
    then obtain w0 where "run_state (createRuleFor env ?m session ?v) w0 = (Ok final, w1)
        \<or> run_state (updateRuleFor env ?m session ?v) w0 = (Ok final, w1)"
      by (auto simp: run_tryA_Ok split: if_splits)
    then have "userPart final = userPart updated" using ruleStep_userPart by fastforce
    then show "emits commitGrows (tryA (commitA env sn final None) (\<lambda>_. ret (Ok final)))"
      using assms(2,3) by (intro emits_put grows_revised [OF assms(1)]) (auto dest!: userPart_eqD)
  qed (intro emits_host phase_intros)
qed

text \<open>
  C29. The revision of a mapping tells its specification: each commit of a create, update, enable,
  disable or delete request keeps every other record, and leaves the record it writes with the
  same specification under the same revision or raises the revision, a new record being newer than
  the whole catalog; only an exhausted 64-bit catalog revision is excepted.
\<close>

theorem mutation_grows:
  "case run_state (runMutation env q) w of (r, w') \<Rightarrow>
     \<exists>es. lw_log w' = lw_log w @ es
       \<and> list_all (\<lambda>e. case e of EvCommit sn d c \<Rightarrow> ms_revision sn = - 1 \<or> grows sn d | _ \<Rightarrow> True) es"
proof -
  have "emits commitGrows (runMutation env q)"
  proof (cases q)
    case (UpdateMapping spec)
    have "emits commitGrows (l4Update env spec)"
      unfolding l4Update_def Let_def
    proof (intro emits_tryA [OF emits_load] emits_option emits_if emits_tryA [OF emits_ret] emits_ret)
      fix sn existing assume found: "snapshotMapping sn (mp_id spec) = Some existing"
      let ?m = "(updateSpec existing spec)\<lparr> mp_revision := mp_revision existing + 1 \<rparr>"
      show "emits commitGrows (updateDisabled env sn existing ?m)"
        by (rule emits_update(2) [OF found]) (simp_all add: updateSpec_def)
      show "emits commitGrows (updateEnabled env sn existing ?m)"
        by (rule emits_update(1) [OF found]) (simp_all add: updateSpec_def)
    qed
    with UpdateMapping show ?thesis
      unfolding runMutation_def dropResult_def by (auto intro: emits_tryA emits_ret)
  next
    case (SetMappingEnabled i b)
    have "emits commitGrows (l4SetEnabled env i b)"
      unfolding l4SetEnabled_def
      by (intro emits_tryA [OF emits_load] emits_option emits_if emits_ret) (rule emits_enable, assumption)+
    with SetMappingEnabled show ?thesis
      unfolding runMutation_def dropResult_def by (auto intro: emits_tryA emits_ret)
  next
    case (DeleteMapping i)
    have "emits commitGrows (l4Delete env i)"
      unfolding l4Delete_def Let_def
      by (intro emits_tryA [OF emits_load] emits_option emits_ret emits_tryA [OF emits_host] emits_commit phase_intros)
        (auto simp: commitGrows_def intro: grows_drop)
    with DeleteMapping show ?thesis by (simp add: runMutation_def)
  qed (auto simp: runMutation_def dropResult_def intro: emits_tryA emits_ret emits_create)
  moreover have "commitGrows = (\<lambda>e. case e of EvCommit sn d c \<Rightarrow> ms_revision sn = - 1 \<or> grows sn d | _ \<Rightarrow> True)"
    by (simp add: fun_eq_iff commitGrows_def)
  ultimately show ?thesis unfolding emits_def by (auto split: prod.split)
qed

section \<open>Recovery under interference\<close>

text \<open>
  What recovery knows of a record it has seen: whenever the catalog still holds it under
  that revision, it holds the same specification.
\<close>

definition knows :: "mapping \<Rightarrow> mappingSnapshot \<Rightarrow> bool" where
  "knows m d \<longleftrightarrow> mp_revision m \<le> ms_revision d \<and> (case snapshotMapping d (mp_id m) of None \<Rightarrow> True
     | Some c \<Rightarrow> mp_revision m < mp_revision c \<or> userPart c = userPart m)"

lemma growsD:
  "grows d d' \<Longrightarrow> docInv d \<Longrightarrow> snapshotMapping d' i = Some c' \<Longrightarrow> (case snapshotMapping d i of
      None \<Rightarrow> ms_revision d < mp_revision c'
    | Some c \<Rightarrow> mp_revision c < mp_revision c' \<or> mp_revision c = mp_revision c' \<and> userPart c = userPart c')"
  unfolding grows_def by blast

lemma knows_grows:
  assumes "knows m d" "grows d d'" "docInv d"
  shows "knows m d'"
proof -
  have le: "ms_revision d \<le> ms_revision d'" "mp_revision m \<le> ms_revision d" using assms by (auto simp: grows_def knows_def)
  have "mp_revision m < mp_revision c' \<or> userPart c' = userPart m" if "snapshotMapping d' (mp_id m) = Some c'" for c'
  proof (cases "snapshotMapping d (mp_id m)")
    case None
    with growsD [OF assms(2,3) that] have "ms_revision d < mp_revision c'" by simp
    with le show ?thesis by auto
  next
    case (Some c)
    with growsD [OF assms(2,3) that]
    have "mp_revision c < mp_revision c' \<or> mp_revision c = mp_revision c' \<and> userPart c = userPart c'" by simp
    with assms(1) Some show ?thesis by (auto simp: knows_def dest: userPart_revision)
  qed
  with le show ?thesis by (auto simp: knows_def split: option.split)
qed

lemma knows_seen: "docInv d \<Longrightarrow> snapshotMapping d i = Some m \<Longrightarrow> knows m d"
  using docInv_old snapshotMapping_id by (fastforce simp: knows_def)

lemma knows_userPart: "userPart m = userPart m' \<Longrightarrow> knows m d = knows m' d"
  by (auto simp: knows_def dest: userPart_eqD split: option.split)

definition tame :: "l4Event list \<Rightarrow> bool" where
  "tame es \<longleftrightarrow> list_all (\<lambda>e. case e of EvCommit sn _ _ \<Rightarrow> ms_revision sn \<noteq> - 1 | _ \<Rightarrow> True) es"

definition specKept :: "l4Event \<Rightarrow> bool" where
  "specKept e \<longleftrightarrow> (case e of EvCommit sn d _ \<Rightarrow> keepsSpec sn d | _ \<Rightarrow> True)"

text \<open>The state of a recovery that started with log \<open>l0\<close> and knows the record \<open>m\<close>, if any.\<close>

definition sound ::
  "('st \<Rightarrow> mappingSnapshot) \<Rightarrow> ('st \<Rightarrow> bool) \<Rightarrow> l4Event list \<Rightarrow> mapping option \<Rightarrow> 'st l4World \<Rightarrow> bool" where
  "sound docOf good l0 known w \<longleftrightarrow> good (lw_store w) \<and> (\<exists>es. lw_log w = l0 @ es \<and>
     (tame es \<longrightarrow> docInv (docOf (lw_store w)) \<and> list_all specKept es \<and> (\<forall>m. known = Some m \<longrightarrow> knows m (docOf (lw_store w)))))"

lemma sound_forget: "sound docOf good l0 known w \<Longrightarrow> sound docOf good l0 None w"
  by (auto simp: sound_def)

lemma tame_append [simp]: "tame (es @ es') \<longleftrightarrow> tame es \<and> tame es'"
  by (simp add: tame_def)

lemma sound_host:
  assumes "sound docOf good l0 known w" "lw_store w' = lw_store w" "lw_log w' = lw_log w @ es" "list_all (\<lambda>e. \<not> isCommit e) es"
  shows "sound docOf good l0 known w'"
proof -
  have "list_all specKept es" using assms(4) by (fastforce simp: list_all_iff specKept_def split: l4Event.split)
  with assms show ?thesis unfolding sound_def by (metis append.assoc list_all_append tame_append)
qed

lemma sound_hostOnly:
  assumes "hostOnly m" "sound docOf good l0 known w"
  shows "wp m (\<lambda>_. sound docOf good l0 known) w"
proof -
  obtain r w' where run: "run_state m w = (r, w')" by fastforce
  with assms(1) obtain es where "lw_store w' = lw_store w" "lw_log w' = lw_log w @ es" "list_all (\<lambda>e. \<not> isCommit e) es"
    unfolding hostOnly_def by blast
  from sound_host [OF assms(2) this] run show ?thesis by (simp add: wp_def)
qed

lemma keepsSpec_put:
  assumes "distinct (map mp_id (ms_mappings sn))" "mp_id m \<noteq> []" "snapshotMapping sn (mp_id m) = Some c" "userPart c = userPart m"
  shows "keepsSpec sn (commitSnapshot sn m None)"
  unfolding keepsSpec_def using assms by (auto simp: commit_put)

lemma grows_kept:
  assumes "ms_revision sn \<noteq> - 1" "snapshotMapping sn (mp_id m) = Some c" "userPart c = userPart m"
  shows "grows sn (commitSnapshot sn m None)"
proof (cases "docInv sn")
  case inv: True
  have "c \<in> set (ms_mappings sn)" "mp_id c = mp_id m"
    using assms(2) inv by (auto simp: docInv_def idsOk_def snapshotMapping_iff)
  then have "mp_id m \<noteq> []" using inv by (auto simp: docInv_def idsOk_def list_all_iff)
  moreover have "mp_revision m \<le> ms_revision sn + 1"
    using docInv_old [OF inv assms(2)] userPart_revision [OF assms(3)] revision_step [OF assms(1)] by simp
  ultimately show ?thesis using assms by (intro grows_put) simp_all
qed (simp add: grows_def)

context mapping_state
begin

text \<open>What the others are relied on to do.\<close>

definition rely :: "'st l4Env \<Rightarrow> bool" where
  "rely env \<longleftrightarrow> le_ops env = ops \<and> (\<forall>n s. good s \<longrightarrow> good (le_other env n s)) \<and> (\<forall>n s. grows (docOf s) (docOf (le_other env n s)))"

lemma sound_load:
  assumes "rely env" "sound docOf good l0 known w"
  shows "wp (stateLoad env) (\<lambda>r w'. sound docOf good l0 known w' \<and> (\<forall>sn. r = Ok sn \<longrightarrow> sn = docOf (lw_store w') \<and> idsOk sn
      \<and> (\<exists>r. mo_load ops r (lw_store w') = Ok sn) \<and> (\<forall>i m. snapshotMapping sn i = Some m \<longrightarrow> sound docOf good l0 (Some m) w'))) w"
proof -
  let ?s = "le_other env (lw_tick w) (lw_store w)"
  obtain es where es: "good (lw_store w)" "lw_log w = l0 @ es" "tame es \<Longrightarrow> docInv (docOf (lw_store w)) \<and> list_all specKept es
      \<and> (\<forall>m. known = Some m \<longrightarrow> knows m (docOf (lw_store w)))"
    using assms(2) by (auto simp: sound_def)
  have good: "good ?s" and grow: "grows (docOf (lw_store w)) (docOf ?s)" using assms(1) es(1) by (auto simp: rely_def)
  have now: "docInv (docOf ?s) \<and> list_all specKept es \<and> (\<forall>m. known = Some m \<longrightarrow> knows m (docOf ?s))" if "tame es"
    using es(3) [OF that] grow knows_grows by (auto simp: grows_def)
  have "sound docOf good l0 known (w\<lparr> lw_store := ?s, lw_tick := Suc (lw_tick w) \<rparr>)"
    using good es(2) now unfolding sound_def by auto
  moreover have "sound docOf good l0 (Some m) (w\<lparr> lw_store := ?s, lw_tick := Suc (lw_tick w) \<rparr>)"
    if "snapshotMapping (docOf ?s) i = Some m" for i m
    using good es(2) now knows_seen [OF _ that] unfolding sound_def by auto
  ultimately show ?thesis
    using assms(1) load_doc load_ids [OF good] by (auto simp: stateLoad_def Let_def wp_simps rely_def)
qed

lemma sound_commit:
  assumes "rely env" "sound docOf good l0 known w" "sn = docOf (lw_store w)" "idsOk sn" "mo_load ops r0 (lw_store w) = Ok sn"
    and "snapshotMapping sn (mp_id m) = Some c" "\<And>es. lw_log w = l0 @ es \<Longrightarrow> tame es \<Longrightarrow> userPart c = userPart m"
  shows "wp (commitA env sn m None) (\<lambda>_. sound docOf good l0 (Some m)) w"
proof -
  let ?d = "commitSnapshot sn m None"
  obtain s' x where save: "mo_save ops (le_reply env (lw_tick w)) ?d (lw_store w) = (s', x)" by fastforce
  obtain es where es: "good (lw_store w)" "lw_log w = l0 @ es" "tame es \<Longrightarrow> docInv sn \<and> list_all specKept es"
    using assms(2,3) by (auto simp: sound_def)
  have good': "good s'" by (rule save_good [OF es(1) assms(5) save])
  have doc: "docOf s' = sn \<or> docOf s' = ?d" using save_cases [OF save] assms(3) by auto
  have "docInv (docOf s') \<and> specKept (EvCommit sn ?d x) \<and> knows m (docOf s')" if t: "tame es" "ms_revision sn \<noteq> - 1"
  proof -
    have u: "userPart c = userPart m" using assms(7) es(2) t(1) by blast
    have inv: "docInv sn" using es(3) t(1) by blast
    have ne: "mp_id m \<noteq> []"
    proof -
      have "c \<in> set (ms_mappings sn)" "mp_id c = mp_id m"
        using assms(4,6) by (auto simp: idsOk_def snapshotMapping_iff)
      with assms(4) show ?thesis by (auto simp: idsOk_def list_all_iff)
    qed
    have g: "grows sn ?d" by (rule grows_kept [OF t(2) assms(6) u])
    have k: "knows m sn" using knows_seen [OF inv assms(6)] knows_userPart [OF u] by simp
    have "keepsSpec sn ?d" using assms(4) by (intro keepsSpec_put [OF _ ne assms(6) u]) (simp add: idsOk_def)
    with g k inv doc knows_grows [OF k g inv] show ?thesis by (auto simp: specKept_def grows_def)
  qed
  then have "sound docOf good l0 (Some m) (w\<lparr> lw_store := s', lw_tick := Suc (lw_tick w), lw_log := lw_log w @ [EvCommit sn ?d x] \<rparr>)"
    using es good' unfolding sound_def by (intro conjI exI [of _ "es @ [EvCommit sn ?d x]"]) (auto simp: tame_def)
  with save assms(1) show ?thesis by (simp add: commitA_def Let_def stateSave_def wp_simps rely_def)
qed

lemma sound_loadMapping:
  assumes "rely env" "sound docOf good l0 known w"
  shows "wp (loadMapping env i) (\<lambda>r w'. sound docOf good l0 known w'
      \<and> (\<forall>m. r = Ok (Some m) \<longrightarrow> mp_id m = i \<and> sound docOf good l0 (Some m) w')) w"
  unfolding loadMapping_def wp_tryA wp_ret
  by (rule wp_mono [OF sound_load [OF assms]]) (auto split: res.split dest: snapshotMapping_id)

definition realigns :: "(mapping \<Rightarrow> ('st, unit l4 option) l4prog) \<Rightarrow> bool" where
  "realigns again \<longleftrightarrow> (\<forall>l0 m w. sound docOf good l0 (Some m) w \<longrightarrow> wp (again m) (\<lambda>_. sound docOf good l0 None) w)"

lemma sound_abandon:
  assumes "realigns again" "sound docOf good l0 known w" "\<And>m. current = Some m \<Longrightarrow> sound docOf good l0 (Some m) w"
  shows "wp (abandonStaleRecovery env again attempted current) (\<lambda>_. sound docOf good l0 None) w"
proof (cases current)
  case None
  have "hostOnly (do { r \<leftarrow> discardRecoveredHostEffects env attempted True; ret (Some r) })" by (intro host_intros)
  from sound_hostOnly [OF this] assms(2) None show ?thesis
    unfolding abandonStaleRecovery_def by (auto elim: wp_mono dest: sound_forget)
next
  case (Some m)
  show ?thesis
  proof (cases "mp_enabled m")
    case False
    have "hostOnly (do { r \<leftarrow> tryA (discardRecoveredHostEffects env attempted False) (\<lambda>_.
        if mp_sessionRef m \<noteq> [] \<and> mp_sessionRef m \<noteq> mp_sessionRef attempted
        then discardRecoveredHostEffects env m False else ret (Ok ())); ret (Some r) })" by (intro host_intros)
    from sound_hostOnly [OF this] assms(2) Some False show ?thesis
      unfolding abandonStaleRecovery_def by (auto elim: wp_mono dest: sound_forget)
  next
    case True
    have "wp (discardDivergentRecoveredHostEffects env attempted m) (\<lambda>_. sound docOf good l0 (Some m)) w"
      by (rule sound_hostOnly [OF hostOnly_repair(5) assms(3) [OF Some]])
    then show ?thesis using Some True assms(1)
      by (auto simp: abandonStaleRecovery_def wp_simps realigns_def split: res.split elim!: wp_mono dest: sound_forget)
  qed
qed

lemma sound_compensate:
  assumes "rely env" "realigns again" "sound docOf good l0 known w"
  shows "wp (compensateClaimedRecovery env again claimed attempted cause) (\<lambda>_. sound docOf good l0 None) w"
  unfolding compensateClaimedRecovery_def wp_bind
proof (rule wp_mono [OF sound_loadMapping [OF assms(1,3)]])
  fix r w' assume r: "sound docOf good l0 known w'
      \<and> (\<forall>m. r = Ok (Some m) \<longrightarrow> mp_id m = mp_id claimed \<and> sound docOf good l0 (Some m) w')"
  then have "wp (abandonStaleRecovery env again attempted current) (\<lambda>_. sound docOf good l0 None) w'" if "r = Ok current" for current
    using that by (intro sound_abandon [OF assms(2)]) auto
  with r show "wp (case r of Ok current \<Rightarrow> if stillClaimed claimed current then ret (Some (Err cause))
         else do { a \<leftarrow> abandonStaleRecovery env again attempted current;
           ret (case a of Some (Err e) \<Rightarrow> Some (Err (ErrBoth cause e)) | _ \<Rightarrow> a) }
     | Err _ \<Rightarrow> ret (Some (Err cause)) | Panic \<Rightarrow> ret (Some Panic)) (\<lambda>_. sound docOf good l0 None) w'"
    by (cases r) (auto simp: wp_simps elim!: wp_mono dest: sound_forget)
qed

lemma sound_commitWhenClaimed:
  assumes "rely env" "sound docOf good l0 (Some claimed) w" "userPart restored = userPart claimed"
  shows "wp (commitWhenClaimed env claimed restored) (\<lambda>r w'. sound docOf good l0 None w'
    \<and> (\<forall>m. r = Ok (Inl (Some m)) \<longrightarrow> sound docOf good l0 (Some m) w')) w"
  unfolding commitWhenClaimed_def wp_tryA
proof (rule wp_mono [OF sound_load [OF assms(1,2)]])
  fix r :: "mappingSnapshot l4" and w' :: "'st l4World"
  assume l: "sound docOf good l0 (Some claimed) w' \<and> (\<forall>sn. r = Ok sn \<longrightarrow> sn = docOf (lw_store w') \<and> idsOk sn
      \<and> (\<exists>r. mo_load ops r (lw_store w') = Ok sn) \<and> (\<forall>i m. snapshotMapping sn i = Some m \<longrightarrow> sound docOf good l0 (Some m) w'))"
  let ?Q = "\<lambda>(r :: (mapping option + unit l4) l4) w'. sound docOf good l0 None w' \<and> (\<forall>m. r = Ok (Inl (Some m)) \<longrightarrow> sound docOf good l0 (Some m) w')"
  have id: "mp_id restored = mp_id claimed" using userPart_eqD [OF assms(3)] by simp
  have "wp (commitA env sn restored None) (\<lambda>_. sound docOf good l0 None) w'"
    if sn: "r = Ok sn" and c: "snapshotMapping sn (mp_id claimed) = Some c" "stillClaimed claimed (Some c)" for sn c
  proof -
    from l sn obtain r0 where r0: "sn = docOf (lw_store w')" "idsOk sn" "mo_load ops r0 (lw_store w') = Ok sn" by blast
    have "userPart c = userPart restored" if "lw_log w' = l0 @ es" "tame es" for es
    proof -
      from l that have "knows claimed sn" using r0(1) unfolding sound_def by auto
      with c assms(3) show ?thesis by (auto simp: knows_def stillClaimed_def)
    qed
    then have "wp (commitA env sn restored None) (\<lambda>_. sound docOf good l0 (Some restored)) w'"
      using c(1) id l by (intro sound_commit [OF assms(1) _ r0, where c = c]) auto
    then show ?thesis by (rule wp_mono) (rule sound_forget)
  qed
  moreover have "\<exists>c. snapshotMapping sn (mp_id claimed) = Some c" if "stillClaimed claimed (snapshotMapping sn (mp_id claimed))" for sn
    using that by (auto simp: stillClaimed_def split: option.splits)
  ultimately have commit: "wp (commitA env sn restored None) (\<lambda>_. sound docOf good l0 None) w'"
    if "r = Ok sn" "stillClaimed claimed (snapshotMapping sn (mp_id claimed))" for sn
    using that by metis
  show "(case r of Ok sn \<Rightarrow> wp (let current = snapshotMapping sn (mp_id claimed) in
       if \<not> stillClaimed claimed current then ret (Ok (Inl current))
       else do { r \<leftarrow> commitA env sn restored None; ret (Ok (Inr r)) }) ?Q | Err e \<Rightarrow> ?Q (Err e) | Panic \<Rightarrow> ?Q Panic) w'"
  proof (cases r)
    case (Ok sn)
    have "wp (do { r \<leftarrow> commitA env sn restored None; ret (Ok (Inr r)) }) ?Q w'"
      if "stillClaimed claimed (snapshotMapping sn (mp_id claimed))"
      unfolding wp_bind by (rule wp_mono [OF commit [OF Ok that]]) (simp add: wp_ret)
    moreover have "wp (ret (Ok (Inl (snapshotMapping sn (mp_id claimed))))) ?Q w'"
      unfolding wp_ret using l Ok sound_forget by blast
    ultimately have "wp (if \<not> stillClaimed claimed (snapshotMapping sn (mp_id claimed)) then ret (Ok (Inl (snapshotMapping sn (mp_id claimed))))
       else do { r \<leftarrow> commitA env sn restored None; ret (Ok (Inr r)) }) ?Q w'" by simp
    then show ?thesis unfolding Ok Let_def by simp
  qed (use l sound_forget in \<open>auto\<close>)
qed

lemma align_userPart:
  "run_state (alignRecoveredRule env m session) w = (Ok a, w') \<Longrightarrow> userPart a = userPart m"
  unfolding alignRecoveredRule_def Let_def
  by (cases "mp_ruleRef m = []") (auto simp: run_tryA_Ok split: prod.splits res.splits if_splits)

lemma attemptRepair_userPart: "run_state (attemptRepair env m) w = (Inr a, w') \<Longrightarrow> userPart a = userPart m"
  unfolding attemptRepair_def
  by (auto split: prod.splits res.splits dest!: align_userPart)

lemma sound_attempt:
  assumes "sound docOf good l0 (Some m) w"
  shows "wp (attemptRepair env m) (\<lambda>r w'. sound docOf good l0 (Some m) w' \<and> (\<forall>a. r = Inr a \<longrightarrow> userPart a = userPart m)) w"
proof (rule wp_conj [OF sound_hostOnly [OF hostOnly_repair(3) assms]])
  show "wp (attemptRepair env m) (\<lambda>r w'. \<forall>a. r = Inr a \<longrightarrow> userPart a = userPart m) w"
    using attemptRepair_userPart [of env m w] by (auto simp: wp_def split: prod.split)
qed

lemma realigns_realign:
  assumes "rely env"
  shows "realigns (realignHostToMapping fuel env)"
proof (induction fuel)
  case 0
  show ?case by (auto simp: realigns_def wp_simps dest: sound_forget)
next
  case (Suc fuel)
  show ?case
    unfolding realigns_def realignHostToMapping.simps wp_bind
  proof (intro allI impI, rule wp_mono [OF sound_attempt], assumption)
    fix l0 m w and r :: "mapping \<times> l4_error + mapping" and w' :: "'st l4World"
    assume r: "sound docOf good l0 (Some m) w' \<and> (\<forall>a. r = Inr a \<longrightarrow> userPart a = userPart m)"
    have comp: "wp (compensateClaimedRecovery env (realignHostToMapping fuel env) m attempted e) (\<lambda>_. sound docOf good l0 None) v"
      if "sound docOf good l0 known v" for attempted e known v
      by (rule sound_compensate [OF assms Suc that])
    show "wp (case r of Inl (attempted, e) \<Rightarrow> compensateClaimedRecovery env (realignHostToMapping fuel env) m attempted e
      | Inr attempted \<Rightarrow> do {
         r \<leftarrow> commitWhenClaimed env m attempted;
         case r of
           Ok (Inl current) \<Rightarrow> abandonStaleRecovery env (realignHostToMapping fuel env) attempted current
         | Ok (Inr (Ok _)) \<Rightarrow> ret (Some (Ok ()))
         | Ok (Inr (Err e)) \<Rightarrow> compensateClaimedRecovery env (realignHostToMapping fuel env) m attempted e
         | Ok (Inr Panic) \<Rightarrow> ret (Some Panic)
         | Err e \<Rightarrow> compensateClaimedRecovery env (realignHostToMapping fuel env) m attempted e
         | Panic \<Rightarrow> ret (Some Panic) }) (\<lambda>_. sound docOf good l0 None) w'"
    proof (cases r)
      case (Inl p)
      then show ?thesis using r comp by (cases p) auto
    next
      case (Inr a)
      have "wp (commitWhenClaimed env m a) (\<lambda>r w'. sound docOf good l0 None w'
          \<and> (\<forall>m. r = Ok (Inl (Some m)) \<longrightarrow> sound docOf good l0 (Some m) w')) w'"
        using r Inr by (intro sound_commitWhenClaimed [OF assms]) auto
      then show ?thesis unfolding Inr sum.case wp_bind
      proof (rule wp_mono)
        fix c :: "(mapping option + unit l4) l4" and v assume c: "sound docOf good l0 None v \<and> (\<forall>m. c = Ok (Inl (Some m)) \<longrightarrow> sound docOf good l0 (Some m) v)"
        have "wp (abandonStaleRecovery env (realignHostToMapping fuel env) a current) (\<lambda>_. sound docOf good l0 None) v"
          if "c = Ok (Inl current)" for current
          using c that by (intro sound_abandon [OF Suc]) auto
        with c comp show "wp (case c of
             Ok (Inl current) \<Rightarrow> abandonStaleRecovery env (realignHostToMapping fuel env) a current
           | Ok (Inr (Ok _)) \<Rightarrow> ret (Some (Ok ()))
           | Ok (Inr (Err e)) \<Rightarrow> compensateClaimedRecovery env (realignHostToMapping fuel env) m a e
           | Ok (Inr Panic) \<Rightarrow> ret (Some Panic)
           | Err e \<Rightarrow> compensateClaimedRecovery env (realignHostToMapping fuel env) m a e
           | Panic \<Rightarrow> ret (Some Panic)) (\<lambda>_. sound docOf good l0 None) v"
          by (auto simp: wp_simps split: res.split sum.split)
      qed
    qed
  qed
qed

lemma sound_claim:
  assumes "rely env" "sound docOf good l0 known w"
  shows "wp (claimRecoveryAttempt env observed) (\<lambda>r w'. sound docOf good l0 None w'
    \<and> (\<forall>m. r = Ok (Some m) \<longrightarrow> sound docOf good l0 (Some m) w')) w"
  unfolding claimRecoveryAttempt_def wp_tryA
proof (rule wp_mono [OF sound_load [OF assms]])
  fix r :: "mappingSnapshot l4" and w' :: "'st l4World"
  assume l: "sound docOf good l0 known w' \<and> (\<forall>sn. r = Ok sn \<longrightarrow> sn = docOf (lw_store w') \<and> idsOk sn
      \<and> (\<exists>r. mo_load ops r (lw_store w') = Ok sn) \<and> (\<forall>i m. snapshotMapping sn i = Some m \<longrightarrow> sound docOf good l0 (Some m) w'))"
  let ?Q = "\<lambda>(r :: mapping option l4) w'. sound docOf good l0 None w' \<and> (\<forall>m. r = Ok (Some m) \<longrightarrow> sound docOf good l0 (Some m) w')"
  have none: "sound docOf good l0 None w'" using l sound_forget by blast
  show "(case r of Ok sn \<Rightarrow> wp (case snapshotMapping sn (mp_id observed) of None \<Rightarrow> ret (Ok None)
     | Some current \<Rightarrow>
       if \<not> stillClaimed observed (Some current) then ret (Ok None)
       else let claimed = current\<lparr> mp_recoveryGeneration := mp_recoveryGeneration current + 1 \<rparr> in
         tryA (commitA env sn claimed None) (\<lambda>_. ret (Ok (Some claimed)))) ?Q | Err e \<Rightarrow> ?Q (Err e) | Panic \<Rightarrow> ?Q Panic) w'"
  proof (cases r)
    case (Ok sn)
    have "wp (tryA (commitA env sn claimed None) (\<lambda>_. ret (Ok (Some claimed)))) ?Q w'"
      if c: "snapshotMapping sn (mp_id observed) = Some current"
        and claimed: "claimed = current\<lparr> mp_recoveryGeneration := mp_recoveryGeneration current + 1 \<rparr>" for current claimed
    proof -
      from l Ok obtain r0 where r0: "sn = docOf (lw_store w')" "idsOk sn" "mo_load ops r0 (lw_store w') = Ok sn" by blast
      have "wp (commitA env sn claimed None) (\<lambda>_. sound docOf good l0 (Some claimed)) w'"
        using c snapshotMapping_id [OF c] l by (intro sound_commit [OF assms(1) _ r0, where c = current]) (auto simp: claimed)
      then show ?thesis unfolding wp_tryA
        by (rule wp_mono) (auto simp: wp_simps split: res.split dest: sound_forget)
    qed
    then have "wp (if \<not> stillClaimed observed (Some current) then ret (Ok None)
       else let claimed = current\<lparr> mp_recoveryGeneration := mp_recoveryGeneration current + 1 \<rparr> in
         tryA (commitA env sn claimed None) (\<lambda>_. ret (Ok (Some claimed)))) ?Q w'"
      if "snapshotMapping sn (mp_id observed) = Some current" for current
      using that none unfolding Let_def wp_if wp_ret by simp
    with none Ok show ?thesis
      by (cases "snapshotMapping sn (mp_id observed)") (simp_all add: wp_ret)
  qed (use none in auto)
qed

lemma sound_recoverClaimed:
  assumes "rely env" "sound docOf good l0 (Some claimed) w"
  shows "wp (recoverClaimed fuel env claimed) (\<lambda>_. sound docOf good l0 None) w"
  unfolding recoverClaimed_def wp_bind
proof (rule wp_mono [OF sound_attempt [OF assms(2)]])
  fix r :: "mapping \<times> l4_error + mapping" and w' :: "'st l4World"
  note re = realigns_realign [OF assms(1), of fuel]
  assume r: "sound docOf good l0 (Some claimed) w' \<and> (\<forall>a. r = Inr a \<longrightarrow> userPart a = userPart claimed)"
  show "wp (case r of Inl (attempted, e) \<Rightarrow> compensateClaimedRecovery env (realignHostToMapping fuel env) claimed attempted e
     | Inr attempted \<Rightarrow> commitRecoveredMapping env (realignHostToMapping fuel env) claimed attempted) (\<lambda>_. sound docOf good l0 None) w'"
  proof (cases r)
    case (Inl p)
    then show ?thesis using r sound_compensate [OF assms(1) re] by (cases p) auto
  next
    case (Inr a)
    have "wp (commitWhenClaimed env claimed a) (\<lambda>r w'. sound docOf good l0 None w'
        \<and> (\<forall>m. r = Ok (Inl (Some m)) \<longrightarrow> sound docOf good l0 (Some m) w')) w'"
      using r Inr by (intro sound_commitWhenClaimed [OF assms(1)]) auto
    then show ?thesis unfolding Inr sum.case commitRecoveredMapping_def wp_bind
    proof (rule wp_mono)
      fix c :: "(mapping option + unit l4) l4" and v
      assume c: "sound docOf good l0 None v \<and> (\<forall>m. c = Ok (Inl (Some m)) \<longrightarrow> sound docOf good l0 (Some m) v)"
      have "wp (abandonStaleRecovery env (realignHostToMapping fuel env) a current) (\<lambda>_. sound docOf good l0 None) v"
        if "c = Ok (Inl current)" for current
        using c that by (intro sound_abandon [OF re]) auto
      with c show "wp (case c of Ok (Inl current) \<Rightarrow> abandonStaleRecovery env (realignHostToMapping fuel env) a current
         | Ok (Inr c) \<Rightarrow> ret (Some c) | Err e \<Rightarrow> ret (Some (Err e)) | Panic \<Rightarrow> ret (Some Panic)) (\<lambda>_. sound docOf good l0 None) v"
        by (auto simp: wp_simps split: res.split sum.split)
    qed
  qed
qed

text \<open>The choice of a mapping that an attempt recovers.\<close>

lemma sound_choose:
  assumes "rely env" "sound docOf good l0 None w"
  shows "wp (tryA (loadMapping env i) (\<lambda>found. case found of None \<Rightarrow> ret (Ok None)
      | Some m \<Rightarrow> if \<not> mp_enabled m then ret (Ok None)
        else tryA (mappingNeedsRecovery env m) (\<lambda>needed. if \<not> needed then ret (Ok None) else claimRecoveryAttempt env m)))
    (\<lambda>r w'. sound docOf good l0 None w' \<and> (\<forall>m. r = Ok (Some m) \<longrightarrow> sound docOf good l0 (Some m) w')) w"
    (is "wp (tryA _ ?f) ?Q w")
proof -
  have claim: "wp (tryA (mappingNeedsRecovery env m) (\<lambda>needed. if \<not> needed then ret (Ok None) else claimRecoveryAttempt env m)) ?Q v"
    if s: "sound docOf good l0 None v" for m v
    unfolding wp_tryA
  proof (rule wp_mono [OF sound_hostOnly [OF hostOnly_repair(6) s]])
    fix r :: "bool l4" and v' :: "'st l4World" assume v': "sound docOf good l0 None v'"
    from sound_claim [OF assms(1) v'] v'
    show "(case r of Ok needed \<Rightarrow> wp (if \<not> needed then ret (Ok None) else claimRecoveryAttempt env m) ?Q
        | Err e \<Rightarrow> ?Q (Err e) | Panic \<Rightarrow> ?Q Panic) v'"
      by (cases r) (simp_all add: wp_ret)
  qed
  show ?thesis unfolding wp_tryA [of "loadMapping env i"]
  proof (rule wp_mono [OF sound_loadMapping [OF assms]])
    fix r :: "mapping option l4" and v :: "'st l4World"
    assume v: "sound docOf good l0 None v \<and> (\<forall>m. r = Ok (Some m) \<longrightarrow> mp_id m = i \<and> sound docOf good l0 (Some m) v)"
    have "wp (?f found) ?Q v" for found
      using v claim by (cases found) (simp_all add: wp_ret)
    with v show "(case r of Ok x \<Rightarrow> wp (?f x) ?Q | Err e \<Rightarrow> ?Q (Err e) | Panic \<Rightarrow> ?Q Panic) v"
      by (cases r) simp_all
  qed
qed

lemma sound_recoverMapping:
  assumes "rely env" "sound docOf good l0 None w"
  shows "wp (recoverMapping fuel env i) (\<lambda>_. sound docOf good l0 None) w"
proof -
  have tick: "sound docOf good l0 None (w\<lparr> lw_tick := Suc (lw_tick w) \<rparr>)" using assms(2) by (simp add: sound_def)
  have "wp (recoverClaimed fuel env claimed) (\<lambda>_. sound docOf good l0 None) v" if "sound docOf good l0 (Some claimed) v" for claimed v
    by (rule sound_recoverClaimed [OF assms(1) that])
  then have "wp (case r of Ok (Some claimed) \<Rightarrow> recoverClaimed fuel env claimed | Ok None \<Rightarrow> ret (Some (Ok ()))
      | Err e \<Rightarrow> ret (Some (Err e)) | Panic \<Rightarrow> ret (Some Panic)) (\<lambda>_. sound docOf good l0 None) v"
    if "sound docOf good l0 None v \<and> (\<forall>m. r = Ok (Some m) \<longrightarrow> sound docOf good l0 (Some m) v)" for r and v :: "'st l4World"
    using that by (auto simp: wp_ret split: res.split option.split)
  then show ?thesis
    using assms(2) tick wp_mono [OF sound_choose [OF assms(1) tick]]
    unfolding recoverMapping_def wp_if wp_bind wp_ret wp_l4Tick wp_option by (auto split: option.split)
qed

lemma recovery_sound:
  assumes "rely env" "good (lw_store w)" "docInv (docOf (lw_store w))" "run_state (recoverMapping fuel env i) w = (r, w')"
  shows "\<exists>es. lw_log w' = lw_log w @ es \<and> (tame es \<longrightarrow> docInv (docOf (lw_store w')) \<and> list_all specKept es)"
proof -
  have "sound docOf good (lw_log w) None w" using assms(2,3) by (simp add: sound_def tame_def)
  from wp_run [OF sound_recoverMapping [OF assms(1) this] assms(4)] show ?thesis by (auto simp: sound_def)
qed

end

text \<open>
  C30. Recovery never writes over a user's change. Let others change the durable catalog between the
  sections of an attempt in any way in which revisions tell specifications, as every mutation
  does. Then each document that the attempt commits, however often it starts over, has the same
  mappings as the document it replaces, with the same specification, enabled flag and revision;
  only channel and rule references and the recovery generation differ.
\<close>

theorem recovery_keeps_user_changes:
  assumes "le_ops env = durableOps sdk fits available"
    and "\<And>n s. durableGood sdk fits s \<Longrightarrow> durableGood sdk fits (le_other env n s)"
    and "\<And>n s. grows (durableDoc s) (durableDoc (le_other env n s))"
    and "durableGood sdk fits (lw_store w)" "docInv (durableDoc (lw_store w))"
    and "run_state (recoverMapping fuel env i) w = (r, w')"
  shows "\<exists>es. lw_log w' = lw_log w @ es \<and>
    (list_all (\<lambda>e. case e of EvCommit sn _ _ \<Rightarrow> ms_revision sn \<noteq> - 1 | _ \<Rightarrow> True) es \<longrightarrow>
      list_all (\<lambda>e. case e of EvCommit sn d _ \<Rightarrow>
        (\<forall>j. map_option userPart (snapshotMapping d j) = map_option userPart (snapshotMapping sn j)) | _ \<Rightarrow> True) es)"
proof -
  have "durable.rely sdk fits available env" using assms(1-3) by (simp add: durable.rely_def)
  from durable.recovery_sound [OF this assms(4-6)] show ?thesis
    unfolding tame_def specKept_def keepsSpec_def by blast
qed

end
