(* ===== verification/L4_Progress.thy ===== *)
theory L4_Progress
  imports L4_Guarantee
begin

text \<open>
  Recovery of a mapping ends once the other actors leave its record alone, and the witnesses of the
  properties on concurrent operation.
\<close>

section \<open>Recovery ends\<close>

context mapping_state
begin

text \<open>From interaction \<open>n\<close> on the others leave the record of \<open>i\<close> alone.\<close>

definition settles :: "'st l4Env \<Rightarrow> string \<Rightarrow> nat \<Rightarrow> bool" where
  "settles env i n \<longleftrightarrow> le_ops env = ops \<and> (\<forall>k s. good s \<longrightarrow> good (le_other env k s))
     \<and> (\<forall>k s. n \<le> k \<longrightarrow> snapshotMapping (docOf (le_other env k s)) i = snapshotMapping (docOf s) i)"

definition currentIn :: "'st l4World \<Rightarrow> mapping \<Rightarrow> bool" where
  "currentIn w m \<longleftrightarrow> snapshotMapping (docOf (lw_store w)) (mp_id m) = Some m"

text \<open>Enough fuel to align the host with the record \<open>m\<close>.\<close>

definition enough :: "nat \<Rightarrow> nat \<Rightarrow> 'st l4World \<Rightarrow> mapping \<Rightarrow> bool" where
  "enough n fuel w m \<longleftrightarrow> 2 + (n - lw_tick w) \<le> fuel \<or> n \<le> lw_tick w \<and> currentIn w m \<and> 1 \<le> fuel"

definition ends :: "('st, 'a option) l4prog \<Rightarrow> 'st l4World \<Rightarrow> bool" where
  "ends m w \<longleftrightarrow> wp m (\<lambda>r _. r \<noteq> None) w"

lemma wp_hostOnly:
  "hostOnly m \<Longrightarrow> wp m (\<lambda>_ w'. lw_store w' = lw_store w \<and> lw_tick w \<le> lw_tick w') w"
  unfolding wp_def hostOnly_def by (auto split: prod.split)

lemma wp_load_settled:
  assumes "settles env i n" "good (lw_store w)"
  shows "wp (stateLoad env) (\<lambda>r w'. good (lw_store w') \<and> lw_tick w' = Suc (lw_tick w)
    \<and> (\<forall>sn. r = Ok sn \<longrightarrow> sn = docOf (lw_store w') \<and> idsOk sn \<and> (\<exists>r. mo_load ops r (lw_store w') = Ok sn))
    \<and> (n \<le> lw_tick w \<longrightarrow> snapshotMapping (docOf (lw_store w')) i = snapshotMapping (docOf (lw_store w)) i)) w"
proof -
  have "good (le_other env (lw_tick w) (lw_store w))" using assms by (simp add: settles_def)
  from load_ids [OF this] load_doc this assms(1) show ?thesis
    by (auto simp: settles_def stateLoad_def Let_def wp_simps)
qed

lemma ends_abandon:
  assumes "\<And>m v. current = Some m \<Longrightarrow> mp_enabled m \<Longrightarrow> lw_store v = lw_store w \<Longrightarrow> lw_tick w \<le> lw_tick v \<Longrightarrow> ends (again m) v"
  shows "ends (abandonStaleRecovery env again attempted current) w"
proof (cases current)
  case None
  then show ?thesis by (simp add: abandonStaleRecovery_def ends_def wp_simps) (simp add: wp_def split: prod.split)
next
  case (Some m)
  show ?thesis
  proof (cases "mp_enabled m")
    case False
    with Some show ?thesis by (simp add: abandonStaleRecovery_def ends_def wp_bind wp_ret) (simp add: wp_def split: prod.split)
  next
    case True
    have "wp (discardDivergentRecoveredHostEffects env attempted m)
        (\<lambda>r v. ends (case r of Ok _ \<Rightarrow> again m | Err e \<Rightarrow> ret (Some (Err e)) | Panic \<Rightarrow> ret (Some Panic)) v) w"
      by (rule wp_mono [OF wp_hostOnly [OF hostOnly_repair(5)]])
        (use assms [OF Some True] in \<open>auto simp: ends_def wp_ret split: res.split\<close>)
    with Some True show ?thesis by (simp add: abandonStaleRecovery_def ends_def wp_bind)
  qed
qed

lemma ends_compensate:
  assumes "settles env i n" "good (lw_store w)" "mp_id claimed = i"
    and "\<And>m v. good (lw_store v) \<Longrightarrow> mp_id m = i \<Longrightarrow> mp_enabled m \<Longrightarrow> currentIn v m \<Longrightarrow> Suc (lw_tick w) \<le> lw_tick v \<Longrightarrow>
      \<not> (n \<le> lw_tick w \<and> stillClaimed claimed (snapshotMapping (docOf (lw_store w)) i)) \<Longrightarrow> ends (again m) v"
  shows "ends (compensateClaimedRecovery env again claimed attempted cause) w"
  unfolding ends_def compensateClaimedRecovery_def loadMapping_def wp_bind wp_tryA
proof (rule wp_mono [OF wp_load_settled [OF assms(1,2)]])
  fix r :: "mappingSnapshot l4" and w' :: "'st l4World"
  assume l: "good (lw_store w') \<and> lw_tick w' = Suc (lw_tick w)
    \<and> (\<forall>sn. r = Ok sn \<longrightarrow> sn = docOf (lw_store w') \<and> idsOk sn \<and> (\<exists>r. mo_load ops r (lw_store w') = Ok sn))
    \<and> (n \<le> lw_tick w \<longrightarrow> snapshotMapping (docOf (lw_store w')) i = snapshotMapping (docOf (lw_store w)) i)"
  let ?g = "\<lambda>current. if stillClaimed claimed current then ret (Some (Err cause))
     else do { a \<leftarrow> abandonStaleRecovery env again attempted current;
       ret (case a of Some (Err e) \<Rightarrow> Some (Err (ErrBoth cause e)) | _ \<Rightarrow> a) }"
  have "wp (?g (snapshotMapping sn (mp_id claimed))) (\<lambda>r _. r \<noteq> None) w'" if sn: "r = Ok sn" for sn
  proof (cases "stillClaimed claimed (snapshotMapping sn (mp_id claimed))")
    case False
    have "ends (abandonStaleRecovery env again attempted (snapshotMapping sn (mp_id claimed))) w'"
    proof (rule ends_abandon)
      fix m and v :: "'st l4World"
      assume m: "snapshotMapping sn (mp_id claimed) = Some m" "mp_enabled m" and v: "lw_store v = lw_store w'" "lw_tick w' \<le> lw_tick v"
      show "ends (again m) v"
        using l sn m v False assms(3) snapshotMapping_id [OF m(1)] by (intro assms(4)) (auto simp: currentIn_def)
    qed
    then show ?thesis unfolding ends_def
      using False by (simp add: wp_bind wp_ret) (erule wp_mono, auto simp: wp_ret split: option.split res.split)
  qed (simp add: wp_ret)
  then show "(case r of Ok sn \<Rightarrow> wp (ret (Ok (snapshotMapping sn (mp_id claimed))))
      (\<lambda>r. wp (case r of Ok current \<Rightarrow> ?g current | Err _ \<Rightarrow> ret (Some (Err cause)) | Panic \<Rightarrow> ret (Some Panic)) (\<lambda>r _. r \<noteq> None))
    | Err e \<Rightarrow> wp (case Err e of Ok current \<Rightarrow> ?g current | Err _ \<Rightarrow> ret (Some (Err cause)) | Panic \<Rightarrow> ret (Some Panic)) (\<lambda>r _. r \<noteq> None)
    | Panic \<Rightarrow> wp (case Panic of Ok current \<Rightarrow> ?g current | Err _ \<Rightarrow> ret (Some (Err cause)) | Panic \<Rightarrow> ret (Some Panic)) (\<lambda>r _. r \<noteq> None)) w'"
    by (cases r) (simp_all add: wp_ret)
qed

lemma attempt_claimed:
  assumes "run_state (attemptRepair env m) w = (Inr a, w')"
  shows "mp_id a = mp_id m \<and> mp_enabled a = mp_enabled m \<and> mp_revision a = mp_revision m
    \<and> mp_recoveryGeneration a = mp_recoveryGeneration m"
proof -
  have "mp_recoveryGeneration a = mp_recoveryGeneration m'"
    if "run_state (alignRecoveredRule env m' session) v = (Ok a, v')" for m' session v v'
    using that unfolding alignRecoveredRule_def Let_def
    by (cases "mp_ruleRef m' = []") (auto simp: run_tryA_Ok split: prod.splits res.splits if_splits)
  then have "mp_recoveryGeneration a = mp_recoveryGeneration m"
    using assms unfolding attemptRepair_def by (fastforce simp: withSession_def split: prod.splits res.splits)
  with userPart_eqD [OF attemptRepair_userPart [OF assms]] show ?thesis by simp
qed

lemma wp_commitWhenClaimed:
  assumes "settles env i n" "good (lw_store w)" "mp_id m = i" "mp_id a = i" "mp_enabled a = mp_enabled m"
    "mp_revision a = mp_revision m" "mp_recoveryGeneration a = mp_recoveryGeneration m" "mp_enabled m"
  shows "wp (commitWhenClaimed env m a) (\<lambda>r w'. good (lw_store w') \<and> Suc (lw_tick w) \<le> lw_tick w'
    \<and> (\<forall>c. r = Ok (Inl c) \<longrightarrow> c = snapshotMapping (docOf (lw_store w')) i \<and> \<not> stillClaimed m c
        \<and> (n \<le> lw_tick w \<longrightarrow> c = snapshotMapping (docOf (lw_store w)) i))
    \<and> (\<forall>x. r = Ok (Inr x) \<longrightarrow> stillClaimed m (snapshotMapping (docOf (lw_store w')) i))
    \<and> (\<forall>e. r = Err e \<longrightarrow> n \<le> lw_tick w \<longrightarrow> snapshotMapping (docOf (lw_store w')) i = snapshotMapping (docOf (lw_store w)) i)) w"
    (is "wp _ ?Q w")
  unfolding commitWhenClaimed_def wp_tryA
proof (rule wp_mono [OF wp_load_settled [OF assms(1,2)]])
  fix r :: "mappingSnapshot l4" and w' :: "'st l4World"
  assume l: "good (lw_store w') \<and> lw_tick w' = Suc (lw_tick w)
    \<and> (\<forall>sn. r = Ok sn \<longrightarrow> sn = docOf (lw_store w') \<and> idsOk sn \<and> (\<exists>r. mo_load ops r (lw_store w') = Ok sn))
    \<and> (n \<le> lw_tick w \<longrightarrow> snapshotMapping (docOf (lw_store w')) i = snapshotMapping (docOf (lw_store w)) i)"
  have commit: "wp (do { r \<leftarrow> commitA env sn a None; ret (Ok (Inr r)) }) ?Q w'"
    if sn: "r = Ok sn" and c: "stillClaimed m (snapshotMapping sn i)" for sn
  proof -
    from l sn obtain r0 where r0: "sn = docOf (lw_store w')" "idsOk sn" "mo_load ops r0 (lw_store w') = Ok sn" by blast
    obtain c where found: "snapshotMapping sn i = Some c" using c by (auto simp: stillClaimed_def split: option.splits)
    then have "c \<in> set (ms_mappings sn)" "mp_id c = i" using r0(2) by (auto simp: idsOk_def snapshotMapping_iff)
    then have ne: "i \<noteq> []" using r0(2) by (auto simp: idsOk_def list_all_iff)
    obtain s' x where save: "mo_save ops (le_reply env (lw_tick w')) (commitSnapshot sn a None) (lw_store w') = (s', x)" by fastforce
    have "snapshotMapping (commitSnapshot sn a None) i = Some a"
      using r0(2) ne assms(4) by (simp add: idsOk_def commit_put)
    then have "stillClaimed m (snapshotMapping (docOf s') i)"
      using save_cases [OF save] c r0(1) assms(5-8) by (auto simp: stillClaimed_def split: option.splits)
    moreover have "good s'" using save_good r0 save l by blast
    ultimately show ?thesis using save l assms(1)
      by (simp add: commitA_def Let_def stateSave_def wp_simps settles_def)
  qed
  show "(case r of Ok sn \<Rightarrow> wp (let current = snapshotMapping sn (mp_id m) in
       if \<not> stillClaimed m current then ret (Ok (Inl current))
       else do { r \<leftarrow> commitA env sn a None; ret (Ok (Inr r)) }) ?Q | Err e \<Rightarrow> ?Q (Err e) | Panic \<Rightarrow> ?Q Panic) w'"
  proof (cases r)
    case (Ok sn)
    have "wp (if \<not> stillClaimed m (snapshotMapping sn i) then ret (Ok (Inl (snapshotMapping sn i)))
       else do { r \<leftarrow> commitA env sn a None; ret (Ok (Inr r)) }) ?Q w'"
    proof (cases "stillClaimed m (snapshotMapping sn i)")
      case True
      with commit [OF Ok True] show ?thesis by simp
    next
      case False
      with l Ok show ?thesis by (simp add: wp_ret)
    qed
    with Ok assms(3) show ?thesis by (simp add: Let_def)
  qed (use l in auto)
qed

text \<open>Fuel that is enough now is enough, less one, after the next load.\<close>

lemma enough_later:
  assumes "enough n (Suc fuel) w m" "Suc (lw_tick w) \<le> lw_tick v" "currentIn v m'"
    and "\<not> (n \<le> lw_tick w \<and> currentIn w m)"
  shows "enough n fuel v m'"
  using assms unfolding enough_def by (cases "n \<le> lw_tick v") auto

lemma ends_realign:
  assumes "settles env i n" "good (lw_store w)" "mp_id m = i" "mp_enabled m" "enough n fuel w m"
  shows "ends (realignHostToMapping fuel env m) w"
  using assms(2-5)
proof (induction fuel arbitrary: w m)
  case 0
  then show ?case by (simp add: enough_def)
next
  case (Suc fuel)
  obtain r w1 where run: "run_state (attemptRepair env m) w = (r, w1)" by fastforce
  have w1: "lw_store w1 = lw_store w" "lw_tick w \<le> lw_tick w1"
    using hostOnly_repair(3) [of env m] run unfolding hostOnly_def by blast+
  have self: "stillClaimed m (Some m)" using Suc.prems by (simp add: stillClaimed_def)
  have again: "ends (realignHostToMapping fuel env m') v"
    if "good (lw_store v)" "mp_id m' = i" "mp_enabled m'" "currentIn v m'" "Suc (lw_tick w) \<le> lw_tick v"
      "\<not> (n \<le> lw_tick w \<and> currentIn w m)" for m' v
    by (rule Suc.IH [OF that(1-3) enough_later [OF Suc.prems(4) that(5,4,6)]])
  have comp: "ends (compensateClaimedRecovery env (realignHostToMapping fuel env) m attempted e) v"
    if v: "good (lw_store v)" "lw_tick w \<le> lw_tick v"
      and c: "n \<le> lw_tick w \<and> currentIn w m \<Longrightarrow> stillClaimed m (snapshotMapping (docOf (lw_store v)) i)" for attempted e v
  proof (rule ends_compensate [OF assms(1) v(1) Suc.prems(2)])
    fix m' and u :: "'st l4World"
    assume u: "good (lw_store u)" "mp_id m' = i" "mp_enabled m'" "currentIn u m'" "Suc (lw_tick v) \<le> lw_tick u"
      "\<not> (n \<le> lw_tick v \<and> stillClaimed m (snapshotMapping (docOf (lw_store v)) i))"
    show "ends (realignHostToMapping fuel env m') u" by (rule again) (use u v c in auto)
  qed
  show ?case
  proof (cases r)
    case (Inl p)
    have "ends (compensateClaimedRecovery env (realignHostToMapping fuel env) m (fst p) (snd p)) w1"
      using w1 Suc.prems(1,2) self by (intro comp) (auto simp: currentIn_def)
    with run Inl show ?thesis by (cases p) (simp add: ends_def wp_def)
  next
    case (Inr a)
    from attempt_claimed [OF run [unfolded Inr]] Suc.prems(2)
    have a: "mp_id a = i" "mp_enabled a = mp_enabled m" "mp_revision a = mp_revision m" "mp_recoveryGeneration a = mp_recoveryGeneration m"
      by simp_all
    have good1: "good (lw_store w1)" using w1 Suc.prems(1) by simp
    obtain c w2 where run2: "run_state (commitWhenClaimed env m a) w1 = (c, w2)" by fastforce
    note post = wp_run [OF wp_commitWhenClaimed [OF assms(1) good1 Suc.prems(2) a Suc.prems(3)] run2]
    have stay: "stillClaimed m (snapshotMapping (docOf (lw_store w1)) i)" if "currentIn w m"
      using that w1(1) self Suc.prems(2) by (simp add: currentIn_def)
    have ab: "ends (abandonStaleRecovery env (realignHostToMapping fuel env) a current) w2" if "c = Ok (Inl current)" for current
    proof (rule ends_abandon)
      fix m' and v :: "'st l4World"
      assume m': "current = Some m'" "mp_enabled m'" and v: "lw_store v = lw_store w2" "lw_tick w2 \<le> lw_tick v"
      have cur: "snapshotMapping (docOf (lw_store w2)) i = Some m'" using post that m'(1) by auto
      show "ends (realignHostToMapping fuel env m') v"
      proof (rule again)
        show "mp_id m' = i" using cur by (rule snapshotMapping_id)
        then show "currentIn v m'" using cur v by (simp add: currentIn_def)
        show "\<not> (n \<le> lw_tick w \<and> currentIn w m)" using post that stay w1(2) by auto
      qed (use post v m' w1 in auto)
    qed
    have cp: "ends (compensateClaimedRecovery env (realignHostToMapping fuel env) m a e) w2"
      if "\<forall>current. c \<noteq> Ok (Inl current)" "c \<noteq> Panic" for e
    proof (rule comp)
      show "good (lw_store w2)" "lw_tick w \<le> lw_tick w2" using post w1(2) by linarith+
      assume "n \<le> lw_tick w \<and> currentIn w m"
      then show "stillClaimed m (snapshotMapping (docOf (lw_store w2)) i)"
        using that post stay w1(2) by (cases c) (metis old.sum.exhaust, auto)
    qed
    have "ends (case c of
           Ok (Inl current) \<Rightarrow> abandonStaleRecovery env (realignHostToMapping fuel env) a current
         | Ok (Inr (Ok _)) \<Rightarrow> ret (Some (Ok ()))
         | Ok (Inr (Err e)) \<Rightarrow> compensateClaimedRecovery env (realignHostToMapping fuel env) m a e
         | Ok (Inr Panic) \<Rightarrow> ret (Some Panic)
         | Err e \<Rightarrow> compensateClaimedRecovery env (realignHostToMapping fuel env) m a e
         | Panic \<Rightarrow> ret (Some Panic)) w2"
    proof (cases c)
      case (Ok x)
      show ?thesis
      proof (cases x)
        case (Inr y)
        with Ok cp show ?thesis by (cases y) (simp_all add: ends_def wp_ret)
      qed (use Ok ab in simp)
    qed (use cp in \<open>simp_all add: ends_def wp_ret\<close>)
    with run run2 Inr show ?thesis by (simp add: ends_def wp_def)
  qed
qed

lemma ends_recoverClaimed:
  assumes "settles env i n" "good (lw_store w)" "mp_id claimed = i" "mp_enabled claimed" "n + 2 \<le> fuel"
  shows "ends (recoverClaimed fuel env claimed) w"
proof -
  have again: "ends (realignHostToMapping fuel env m) v" if "good (lw_store v)" "mp_id m = i" "mp_enabled m" for m v
    using that assms(5) by (intro ends_realign [OF assms(1)]) (auto simp: enough_def)
  obtain r w1 where run: "run_state (attemptRepair env claimed) w = (r, w1)" by fastforce
  have w1: "good (lw_store w1)"
    using hostOnly_repair(3) [of env claimed] run assms(2) unfolding hostOnly_def by metis
  show ?thesis
  proof (cases r)
    case (Inl p)
    have "ends (compensateClaimedRecovery env (realignHostToMapping fuel env) claimed (fst p) (snd p)) w1"
      by (rule ends_compensate [OF assms(1) w1 assms(3)]) (rule again)
    with run Inl show ?thesis by (cases p) (simp add: ends_def wp_def recoverClaimed_def)
  next
    case (Inr a)
    from attempt_claimed [OF run [unfolded Inr]] assms(3)
    have a: "mp_id a = i" "mp_enabled a = mp_enabled claimed" "mp_revision a = mp_revision claimed"
      "mp_recoveryGeneration a = mp_recoveryGeneration claimed" by simp_all
    obtain c w2 where run2: "run_state (commitWhenClaimed env claimed a) w1 = (c, w2)" by fastforce
    note post = wp_run [OF wp_commitWhenClaimed [OF assms(1) w1 assms(3) a assms(4)] run2]
    have "ends (abandonStaleRecovery env (realignHostToMapping fuel env) a current) w2" if "c = Ok (Inl current)" for current
    proof (rule ends_abandon, rule again)
      fix m and v :: "'st l4World" assume m: "current = Some m"
      with post that have "snapshotMapping (docOf (lw_store w2)) i = Some m" by auto
      then show "mp_id m = i" by (rule snapshotMapping_id)
    qed (use post in auto)
    then have "ends (case c of Ok (Inl current) \<Rightarrow> abandonStaleRecovery env (realignHostToMapping fuel env) a current
         | Ok (Inr c) \<Rightarrow> ret (Some c) | Err e \<Rightarrow> ret (Some (Err e)) | Panic \<Rightarrow> ret (Some Panic)) w2"
      by (auto simp: ends_def wp_ret split: res.split sum.split)
    with run run2 Inr show ?thesis by (simp add: ends_def wp_def recoverClaimed_def commitRecoveredMapping_def)
  qed
qed

lemma claimed_enabled:
  assumes "run_state (claimRecoveryAttempt env m) w = (Ok (Some c), w')"
  shows "mp_id c = mp_id m \<and> mp_enabled c"
proof -
  from assms obtain sn w1 where
    run: "run_state (case snapshotMapping sn (mp_id m) of None \<Rightarrow> ret (Ok None)
     | Some current \<Rightarrow>
       if \<not> stillClaimed m (Some current) then ret (Ok None)
       else let claimed = current\<lparr> mp_recoveryGeneration := mp_recoveryGeneration current + 1 \<rparr> in
         tryA (commitA env sn claimed None) (\<lambda>_. ret (Ok (Some claimed)))) w1 = (Ok (Some c), w')"
    unfolding claimRecoveryAttempt_def run_tryA_Ok by blast
  show ?thesis
  proof (cases "snapshotMapping sn (mp_id m)")
    case (Some x)
    with run have "stillClaimed m (Some x)" "c = x\<lparr> mp_recoveryGeneration := mp_recoveryGeneration x + 1 \<rparr>"
      by (auto simp: Let_def run_tryA_Ok split: if_splits)
    with snapshotMapping_id [OF Some] show ?thesis by (simp add: stillClaimed_def)
  qed (use run in simp)
qed

lemma keepsGood_run: "keepsGood m \<Longrightarrow> good (lw_store w) \<Longrightarrow> run_state m w = (r, w') \<Longrightarrow> good (lw_store w')"
  unfolding keepsGood_def by blast

lemma ends_recoverMapping:
  assumes "settles env i n" "good (lw_store w)" "n + 2 \<le> fuel"
  shows "ends (recoverMapping fuel env i) w"
proof -
  have rely: "relyGood env" using assms(1) by (simp add: settles_def relyGood_def)
  let ?choose = "tryA (loadMapping env i) (\<lambda>found. case found of None \<Rightarrow> ret (Ok None)
      | Some m \<Rightarrow> if \<not> mp_enabled m then ret (Ok None)
        else tryA (mappingNeedsRecovery env m) (\<lambda>needed. if \<not> needed then ret (Ok None) else claimRecoveryAttempt env m))"
  let ?w = "w\<lparr> lw_tick := Suc (lw_tick w) \<rparr>"
  obtain c v where run: "run_state ?choose ?w = (c, v)" by fastforce
  have "keepsGood ?choose"
    unfolding loadMapping_def
    by (auto intro!: keeps_tryA keeps_ret keeps_load keeps_calls keeps_claim rely split: option.split)
  then have good: "good (lw_store v)" using assms(2) by (intro keepsGood_run [OF _ _ run]) simp_all
  have claimed: "mp_id m = i \<and> mp_enabled m" if c: "c = Ok (Some m)" for m
  proof -
    from run [unfolded c] obtain found u where load: "run_state (loadMapping env i) ?w = (Ok found, u)"
      and rest: "run_state (case found of None \<Rightarrow> ret (Ok None)
        | Some m \<Rightarrow> if \<not> mp_enabled m then ret (Ok None)
          else tryA (mappingNeedsRecovery env m) (\<lambda>needed. if \<not> needed then ret (Ok None) else claimRecoveryAttempt env m)) u
        = (Ok (Some m), v)"
      unfolding run_tryA_Ok [of "loadMapping env i"] by blast
    then obtain m0 where m0: "found = Some m0" by (cases found) auto
    with load have "mp_id m0 = i" by (auto simp: loadMapping_def run_tryA_Ok dest: snapshotMapping_id)
    moreover from rest m0 obtain u u' where "run_state (claimRecoveryAttempt env m0) u = (Ok (Some m), u')"
      by (auto simp: run_tryA_Ok split: if_splits)
    ultimately have "\<exists>m0 u u'. mp_id m0 = i \<and> run_state (claimRecoveryAttempt env m0) u = (Ok (Some m), u')" by blast
    with claimed_enabled show ?thesis by blast
  qed
  have "ends (case c of Ok (Some claimed) \<Rightarrow> recoverClaimed fuel env claimed | Ok None \<Rightarrow> ret (Some (Ok ()))
      | Err e \<Rightarrow> ret (Some (Err e)) | Panic \<Rightarrow> ret (Some Panic)) v"
    using ends_recoverClaimed [OF assms(1) good _ _ assms(3)] claimed
    by (auto simp: ends_def wp_ret split: res.split option.split)
  then have "wp (do { c \<leftarrow> ?choose; case c of Ok (Some claimed) \<Rightarrow> recoverClaimed fuel env claimed | Ok None \<Rightarrow> ret (Some (Ok ()))
      | Err e \<Rightarrow> ret (Some (Err e)) | Panic \<Rightarrow> ret (Some Panic) }) (\<lambda>r _. r \<noteq> None) ?w"
    unfolding ends_def wp_bind using run by (simp add: wp_def)
  then show ?thesis
    unfolding ends_def recoverMapping_def wp_if wp_bind wp_ret wp_l4Tick wp_option by (auto split: option.split)
qed

end

text \<open>
  C31. Recovery ends: if from some interaction on the others leave the record of a mapping alone, an
  attempt to recover this mapping returns, a success or an error, whatever the host and the state
  answer and however often the record changed before; two rounds more than that interaction's
  number are enough.
\<close>

theorem recovery_returns:
  assumes "le_ops env = durableOps sdk fits available"
    and "\<And>k s. durableGood sdk fits s \<Longrightarrow> durableGood sdk fits (le_other env k s)"
    and "\<And>k s. n \<le> k \<Longrightarrow> snapshotMapping (durableDoc (le_other env k s)) i = snapshotMapping (durableDoc s) i"
    and "durableGood sdk fits (lw_store w)" and "n + 2 \<le> fuel"
  shows "\<exists>r w'. run_state (recoverMapping fuel env i) w = (Some r, w')"
proof -
  have "durable.settles sdk fits available env i n" using assms(1-3) by (simp add: durable.settles_def)
  from durable.ends_recoverMapping [OF this assms(4,5)] show ?thesis
    by (auto simp: durable.ends_def wp_def split: prod.splits)
qed

section \<open>Witnesses\<close>

text \<open>A mapping whose rule was lost, which recovery repairs.\<close>

definition ruleLost :: mapping where
  "ruleLost = servedMapping\<lparr> mp_ruleRef := [] \<rparr>"

definition lostWorld :: "mappingSnapshot option l4World" where
  "lostWorld = emptyL4World\<lparr> lw_store := Some \<lparr> ms_revision = 1, ms_mappings = [ruleLost] \<rparr> \<rparr>"

lemma lostWorld_good: "durableGood calmSdk (\<lambda>_. True) (lw_store lostWorld)"
  by code_simp

theorem recovery_keeps_user_changes_witness:
  "\<exists>w' es. run_state (recoverMapping 2 calmL4 ''web'') lostWorld = (Some (Ok ()), w') \<and> lw_log w' = es
    \<and> list_ex isCommit es
    \<and> list_all (\<lambda>e. case e of EvCommit sn d _ \<Rightarrow>
        (\<forall>j. map_option userPart (snapshotMapping d j) = map_option userPart (snapshotMapping sn j)) | _ \<Rightarrow> True) es"
proof -
  let ?run = "run_state (recoverMapping 2 calmL4 ''web'') lostWorld"
  have res: "fst ?run = Some (Ok ())" by code_simp
  then have run: "?run = (Some (Ok ()), snd ?run)" by (metis prod.collapse)
  have ev: "list_all (\<lambda>e. case e of EvCommit sn _ _ \<Rightarrow> ms_revision sn \<noteq> - 1 | _ \<Rightarrow> True) (lw_log (snd ?run))"
    "list_ex isCommit (lw_log (snd ?run))" by code_simp+
  have ops: "le_ops calmL4 = durableOps calmSdk (\<lambda>_. True) True" by (simp add: calmL4_def)
  have inv: "docInv (durableDoc (lw_store lostWorld))" by code_simp
  have other: "le_other calmL4 n s = s" for n s by (simp add: calmL4_def)
  have "\<exists>es. lw_log (snd ?run) = lw_log lostWorld @ es \<and>
    (list_all (\<lambda>e. case e of EvCommit sn _ _ \<Rightarrow> ms_revision sn \<noteq> - 1 | _ \<Rightarrow> True) es \<longrightarrow>
      list_all (\<lambda>e. case e of EvCommit sn d _ \<Rightarrow>
        (\<forall>j. map_option userPart (snapshotMapping d j) = map_option userPart (snapshotMapping sn j)) | _ \<Rightarrow> True) es)"
    by (rule recovery_keeps_user_changes [OF ops _ _ lostWorld_good inv run]) (simp_all add: other grows_refl)
  moreover have "lw_log lostWorld = []" by (simp add: lostWorld_def emptyL4World_def)
  ultimately show ?thesis using run ev by auto
qed

theorem recovery_returns_witness:
  "\<exists>r w'. run_state (recoverMapping 2 calmL4 ''web'') lostWorld = (Some r, w')"
proof (rule recovery_returns [where n = 0])
  show "le_ops calmL4 = durableOps calmSdk (\<lambda>_. True) True" by (simp add: calmL4_def)
qed (use lostWorld_good in \<open>simp_all add: calmL4_def\<close>)

end
