(* ===== verification/L4_Page.thy ===== *)
theory L4_Page
  imports L4_Progress
begin

text \<open>
  The management page of \<^verbatim>\<open>src/plugins/reverse-l4/ui.go\<close>: routes, the identity that the panel injects,
  the handlers and the HTTP status of an error. The asset files, the JSON texts and the path
  unescaping of \<^verbatim>\<open>net/url\<close> stay outside: a request holds its decoded body, and the unescaping is a
  parameter.
\<close>

section \<open>Requests\<close>

record writeBody =
  wb_id :: string
  wb_name :: string
  wb_entryAgentID :: string
  wb_exitAgentID :: string
  wb_protocol :: string
  wb_listenHost :: string
  wb_listenPort :: int
  wb_backendHost :: string
  wb_backendPort :: int
  wb_relayChain :: "int list"
  wb_confirm :: string

record pageRequest =
  pr_method :: string
  pr_path :: string
  pr_actor :: "string option"
  pr_group :: string
  pr_operation :: string
  pr_minted :: string
  pr_body :: "writeBody option"

datatype pageError = PageUnauthorized | PageUnconfirmed | PageMethod | PageNotFound | PageInvalidBody | PageFailed | PageService l4_error

record mappingView =
  mv_id :: string
  mv_name :: string
  mv_entryAgentID :: string
  mv_exitAgentID :: string
  mv_protocol :: string
  mv_listenHost :: string
  mv_listenPort :: int
  mv_backendHost :: string
  mv_backendPort :: int
  mv_relayChain :: "int list"
  mv_enabled :: bool
  mv_channelState :: string
  mv_lastError :: string

definition newMappingView :: "mappingStatus \<Rightarrow> mappingView" where
  "newMappingView st = (let m = st_mapping st in
     \<lparr> mv_id = mp_id m, mv_name = mp_name m, mv_entryAgentID = mp_entryAgentID m, mv_exitAgentID = mp_exitAgentID m,
       mv_protocol = mp_protocol m, mv_listenHost = effectiveListenHost m, mv_listenPort = mp_listenPort m,
       mv_backendHost = mp_backendHost m, mv_backendPort = mp_backendPort m, mv_relayChain = mp_relayChain m,
       mv_enabled = mp_enabled m, mv_channelState = st_channelState st, mv_lastError = st_lastError st \<rparr>)"

record pageResponse =
  ps_status :: nat
  ps_mappings :: "mappingView list"
  ps_mapping :: "mappingView option"
  ps_error :: "pageError option"

definition errorResponse :: "nat \<Rightarrow> pageError \<Rightarrow> pageResponse" where
  "errorResponse status e = \<lparr> ps_status = status, ps_mappings = [], ps_mapping = None, ps_error = Some e \<rparr>"

text \<open>\<^verbatim>\<open>errors.Is\<close>, which looks into joined errors.\<close>

primrec errIs :: "l4_error \<Rightarrow> l4_error \<Rightarrow> bool" where
  "errIs ErrInvalidMapping target = (target = ErrInvalidMapping)"
| "errIs ErrMappingExists target = (target = ErrMappingExists)"
| "errIs ErrMappingNotFound target = (target = ErrMappingNotFound)"
| "errIs ErrMappingBound target = (target = ErrMappingBound)"
| "errIs ErrHostRuntimeUnavailable target = (target = ErrHostRuntimeUnavailable)"
| "errIs ErrHostOperationFailed target = (target = ErrHostOperationFailed)"
| "errIs ErrHostRejectedRequest target = (target = ErrHostRejectedRequest)"
| "errIs ErrStateUnavailable target = (target = ErrStateUnavailable)"
| "errIs ErrDeadline target = (target = ErrDeadline)"
| "errIs ErrCanceled target = (target = ErrCanceled)"
| "errIs (ErrBoth a b) target = (target = ErrBoth a b \<or> errIs a target \<or> errIs b target)"

definition mappingHTTPStatus :: "l4_error \<Rightarrow> nat" where
  "mappingHTTPStatus e =
     (if errIs e ErrInvalidMapping \<or> errIs e ErrMappingBound then 400
      else if errIs e ErrMappingNotFound then 404
      else if errIs e ErrMappingExists then 409
      else if errIs e ErrStateUnavailable \<or> errIs e ErrHostRuntimeUnavailable then 503
      else 500)"

definition publicMappingError :: "l4_error \<Rightarrow> pageError" where
  "publicMappingError e =
     (if list_ex (errIs e) [ErrInvalidMapping, ErrMappingExists, ErrMappingNotFound, ErrMappingBound, ErrStateUnavailable,
        ErrHostRuntimeUnavailable, ErrHostRejectedRequest]
      then PageService e else PageFailed)"

definition uiIdentity :: "pageRequest \<Rightarrow> string option" where
  "uiIdentity q = (case pr_actor q of None \<Rightarrow> None
     | Some actor \<Rightarrow>
       let group0 = trimSpace (pr_group q);
           group = (if group0 = [] then ''resource-group/reverse-l4'' else group0);
           key0 = trimSpace (pr_operation q);
           key = (if key0 = [] then pr_minted q else key0)
       in if \<not> validAgentRef actor then None
          else if \<not> validAgentRef group then None
          else if length key > 512 \<or> containsAny key [CHR 0x0D, CHR 0x0A, CHR 0x00, CHR 0x09, CHR '' ''] then None
          else Some key)"

definition withMutationOperationKey :: "'st l4Env \<Rightarrow> string \<Rightarrow> 'st l4Env" where
  "withMutationOperationKey env key =
     env\<lparr> le_requestKey := (let k = trimSpace key in if k = [] then ''internal'' else k) \<rparr>"

definition bodyMapping :: "(string \<Rightarrow> string) \<Rightarrow> writeBody \<Rightarrow> mapping" where
  "bodyMapping unicodeLower b = zeroMapping\<lparr> mp_id := trimSpace (wb_id b), mp_name := trimSpace (wb_name b),
     mp_entryAgentID := trimSpace (wb_entryAgentID b), mp_exitAgentID := trimSpace (wb_exitAgentID b),
     mp_protocol := toLower unicodeLower (trimSpace (wb_protocol b)), mp_listenHost := trimSpace (wb_listenHost b),
     mp_listenPort := wb_listenPort b, mp_backendHost := trimSpace (wb_backendHost b), mp_backendPort := wb_backendPort b,
     mp_relayChain := wb_relayChain b \<rparr>"

definition parseMappingAPIPath :: "(string \<Rightarrow> string option) \<Rightarrow> string \<Rightarrow> (string \<times> string) option" where
  "parseMappingAPIPath unescape path =
     (let prefix = ''/api/mappings/'' in
      if \<not> hasPrefix path prefix \<or> trimPrefix path prefix = [] then None
      else case cutByte (CHR ''/'') (trimPrefix path prefix) of (i, action, found) \<Rightarrow>
        (case unescape i of None \<Rightarrow> None
         | Some decoded \<Rightarrow>
           if decoded = [] then None
           else if \<not> found then Some (decoded, ''get'')
           else if action \<in> set [''update'', ''enable'', ''disable'', ''delete''] then Some (decoded, action)
           else None))"

section \<open>Handlers\<close>

definition writeMappingList :: "'st l4Env \<Rightarrow> ('st, pageResponse) l4prog" where
  "writeMappingList env = do {
     r \<leftarrow> l4Statuses env;
     ret (case r of Ok sts \<Rightarrow> \<lparr> ps_status = 200, ps_mappings = map newMappingView sts, ps_mapping = None, ps_error = None \<rparr>
       | Err e \<Rightarrow> errorResponse (mappingHTTPStatus e) (publicMappingError e)
       | Panic \<Rightarrow> errorResponse 500 PageFailed) }"

text \<open>After a mutation: the error, or the refreshed catalog.\<close>

definition afterMutation :: "'st l4Env \<Rightarrow> unit l4 \<Rightarrow> ('st, pageResponse) l4prog" where
  "afterMutation env r = (case r of Ok _ \<Rightarrow> writeMappingList env
     | Err e \<Rightarrow> ret (errorResponse (mappingHTTPStatus e) (publicMappingError e))
     | Panic \<Rightarrow> ret (errorResponse 500 PageFailed))"

definition serveMappingCollection :: "'st l4Env \<Rightarrow> (string \<Rightarrow> string) \<Rightarrow> pageRequest \<Rightarrow> ('st, pageResponse) l4prog" where
  "serveMappingCollection env unicodeLower q =
     (if pr_method q = ''GET'' \<or> pr_method q = ''HEAD'' then
        (case uiIdentity q of None \<Rightarrow> ret (errorResponse 403 PageUnauthorized) | Some _ \<Rightarrow> writeMappingList env)
      else if pr_method q = ''POST'' then
        (case uiIdentity q of None \<Rightarrow> ret (errorResponse 403 PageUnauthorized)
         | Some key \<Rightarrow>
           (case pr_body q of None \<Rightarrow> ret (errorResponse 400 PageInvalidBody)
            | Some body \<Rightarrow> do {
                r \<leftarrow> runMutation (withMutationOperationKey env key) (CreateMapping (bodyMapping unicodeLower body));
                afterMutation env r }))
      else ret (errorResponse 405 PageMethod))"

definition serveMappingGet :: "'st l4Env \<Rightarrow> pageRequest \<Rightarrow> string \<Rightarrow> ('st, pageResponse) l4prog" where
  "serveMappingGet env q i =
     (if pr_method q \<noteq> ''GET'' \<and> pr_method q \<noteq> ''HEAD'' then ret (errorResponse 405 PageMethod)
      else case uiIdentity q of None \<Rightarrow> ret (errorResponse 403 PageUnauthorized)
      | Some _ \<Rightarrow> do {
          r \<leftarrow> l4Status env i;
          ret (case r of Ok st \<Rightarrow> \<lparr> ps_status = 200, ps_mappings = [], ps_mapping = Some (newMappingView st), ps_error = None \<rparr>
            | Err e \<Rightarrow> errorResponse (mappingHTTPStatus e) (publicMappingError e)
            | Panic \<Rightarrow> errorResponse 500 PageFailed) })"

definition itemMutation :: "(string \<Rightarrow> string) \<Rightarrow> writeBody \<Rightarrow> string \<Rightarrow> string \<Rightarrow> pageError + l4Mutation" where
  "itemMutation unicodeLower body i action =
     (if action = ''update'' then Inr (UpdateMapping ((bodyMapping unicodeLower body)\<lparr> mp_id := i \<rparr>))
      else if action = ''enable'' then Inr (SetMappingEnabled i True)
      else if action = ''disable'' then Inr (SetMappingEnabled i False)
      else if action = ''delete'' then (if wb_confirm body \<noteq> i then Inl PageUnconfirmed else Inr (DeleteMapping i))
      else Inl PageNotFound)"

definition serveMappingItem :: "'st l4Env \<Rightarrow> (string \<Rightarrow> string) \<Rightarrow> pageRequest \<Rightarrow> string \<Rightarrow> string \<Rightarrow> ('st, pageResponse) l4prog" where
  "serveMappingItem env unicodeLower q i action =
     (if action = ''get'' then serveMappingGet env q i
      else if pr_method q \<noteq> ''POST'' then ret (errorResponse 405 PageMethod)
      else case uiIdentity q of None \<Rightarrow> ret (errorResponse 403 PageUnauthorized)
      | Some key \<Rightarrow>
        (case pr_body q of None \<Rightarrow> ret (errorResponse 400 PageInvalidBody)
         | Some body \<Rightarrow>
           (case itemMutation unicodeLower body i action of
              Inl PageUnconfirmed \<Rightarrow> ret (errorResponse 400 PageUnconfirmed)
            | Inl _ \<Rightarrow> ret (errorResponse 404 PageNotFound)
            | Inr m \<Rightarrow> do { r \<leftarrow> runMutation (withMutationOperationKey env key) m; afterMutation env r })))"

definition serveHTTP ::
  "'st l4Env \<Rightarrow> (string \<Rightarrow> string) \<Rightarrow> (string \<Rightarrow> string option) \<Rightarrow> pageRequest \<Rightarrow> ('st, pageResponse) l4prog" where
  "serveHTTP env unicodeLower unescape q =
     (if pr_path q = ''/api/mappings'' then serveMappingCollection env unicodeLower q
      else case parseMappingAPIPath unescape (pr_path q) of
        Some (i, action) \<Rightarrow> serveMappingItem env unicodeLower q i action
      | None \<Rightarrow> ret (errorResponse 404 PageNotFound))"

section \<open>Only authorized requests change anything\<close>

text \<open>A lookup of a channel's state is the one host call that changes nothing.\<close>

fun isLookup :: "l4Event \<Rightarrow> bool" where
  "isLookup (EvChannelStatus _ _) = True"
| "isLookup _ = False"

lemma emits_bind:
  assumes "emits R m" "\<And>x. emits R (f x)"
  shows "emits R (State_Monad.bind m f)"
  unfolding emits_def
proof (intro allI impI)
  fix w r w' assume "run_state (State_Monad.bind m f) w = (r, w')"
  then obtain x w1 where 1: "run_state m w = (x, w1)" "run_state (f x) w1 = (r, w')" by (auto split: prod.splits)
  from 1 assms obtain es es' where "lw_log w1 = lw_log w @ es" "list_all R es" "lw_log w' = lw_log w1 @ es'" "list_all R es'"
    unfolding emits_def by metis
  then show "\<exists>es. lw_log w' = lw_log w @ es \<and> list_all R es" by (intro exI [of _ "es @ es'"]) simp
qed

lemma emits_channelStatus: "emits isLookup (channelStatus env ref)"
  by (auto simp: emits_def channelStatus_def l4Tick_def l4Log_def Let_def)

lemma reads_only:
  "emits isLookup (writeMappingList env)" "emits isLookup (serveMappingGet env q i)"
proof -
  show "emits isLookup (writeMappingList env)"
    unfolding writeMappingList_def l4Statuses_def by (intro emits_bind emits_tryA emits_load emits_ret)
  show "emits isLookup (serveMappingGet env q i)"
    unfolding serveMappingGet_def l4Status_def lookupChannelStatus_def
    by (auto intro!: emits_bind emits_tryA emits_load emits_ret emits_if emits_option emits_channelStatus split: option.split)
qed

text \<open>The request that the handler carries out, when there is one.\<close>

definition asksFor :: "(string \<Rightarrow> string) \<Rightarrow> (string \<Rightarrow> string option) \<Rightarrow> pageRequest \<Rightarrow> writeBody \<Rightarrow> l4Mutation \<Rightarrow> bool" where
  "asksFor unicodeLower unescape q body m = (case m of
     CreateMapping spec \<Rightarrow> pr_path q = ''/api/mappings'' \<and> spec = bodyMapping unicodeLower body
   | UpdateMapping spec \<Rightarrow> parseMappingAPIPath unescape (pr_path q) = Some (mp_id spec, ''update'')
       \<and> spec = (bodyMapping unicodeLower body)\<lparr> mp_id := mp_id spec \<rparr>
   | SetMappingEnabled i enabled \<Rightarrow>
       parseMappingAPIPath unescape (pr_path q) = Some (i, if enabled then ''enable'' else ''disable'')
   | DeleteMapping i \<Rightarrow> parseMappingAPIPath unescape (pr_path q) = Some (i, ''delete'') \<and> wb_confirm body = i)"

definition pageMutation :: "(string \<Rightarrow> string) \<Rightarrow> (string \<Rightarrow> string option) \<Rightarrow> pageRequest \<Rightarrow> (string \<times> l4Mutation) option" where
  "pageMutation unicodeLower unescape q =
     (if pr_method q \<noteq> ''POST'' then None
      else case (uiIdentity q, pr_body q) of
        (Some key, Some body) \<Rightarrow>
          (if pr_path q = ''/api/mappings'' then Some (key, CreateMapping (bodyMapping unicodeLower body))
           else case parseMappingAPIPath unescape (pr_path q) of
             Some (i, action) \<Rightarrow>
               (if action = ''get'' then None
                else case itemMutation unicodeLower body i action of Inr m \<Rightarrow> Some (key, m) | Inl _ \<Rightarrow> None)
           | None \<Rightarrow> None)
      | _ \<Rightarrow> None)"

lemma pageMutation_asked:
  assumes "pageMutation unicodeLower unescape q = Some (key, m)"
  shows "pr_method q = ''POST'' \<and> uiIdentity q = Some key
    \<and> (\<exists>actor body. pr_actor q = Some actor \<and> validAgentRef actor \<and> pr_body q = Some body \<and> asksFor unicodeLower unescape q body m)"
  using assms unfolding pageMutation_def itemMutation_def asksFor_def uiIdentity_def Let_def
  by (auto split: option.splits if_splits prod.splits sum.splits)

text \<open>
  C33. The page changes the catalog and the host only for authorized requests: a request that is not
  a \<^verbatim>\<open>POST\<close> with a valid identity and body, or that would delete a mapping without naming it as the
  confirmation, or whose path names no action, runs no host call but state lookups and
  commits nothing; any other request runs exactly the mutation it asks for, under its
  operation key, and then only state lookups. The mutation is the one its path and body name, its
  actor is a valid reference, and a delete has the identifier as its confirmation.
\<close>

theorem page_authorized:
  "case pageMutation unicodeLower unescape q of
     None \<Rightarrow> (case run_state (serveHTTP env unicodeLower unescape q) w of (_, w') \<Rightarrow>
       \<exists>es. lw_log w' = lw_log w @ es \<and> list_all isLookup es)
   | Some (key, m) \<Rightarrow>
       pr_method q = ''POST'' \<and> uiIdentity q = Some key
       \<and> (\<exists>actor body. pr_actor q = Some actor \<and> validAgentRef actor \<and> pr_body q = Some body \<and> asksFor unicodeLower unescape q body m)
       \<and> (case run_state (runMutation (withMutationOperationKey env key) m) w of (_, w1) \<Rightarrow>
       case run_state (serveHTTP env unicodeLower unescape q) w of (_, w') \<Rightarrow>
         \<exists>es. lw_log w' = lw_log w1 @ es \<and> list_all isLookup es)"
proof (cases "pageMutation unicodeLower unescape q")
  case None
  have "emits isLookup (serveHTTP env unicodeLower unescape q)"
    using None unfolding serveHTTP_def serveMappingCollection_def serveMappingItem_def pageMutation_def
    by (auto intro!: reads_only emits_ret split: option.splits if_splits sum.splits pageError.splits)
  with None show ?thesis unfolding emits_def by (auto split: prod.split)
next
  case (Some p)
  obtain key m where p: "p = (key, m)" by fastforce
  have serve: "serveHTTP env unicodeLower unescape q = do { r \<leftarrow> runMutation (withMutationOperationKey env key) m; afterMutation env r }"
    using Some p unfolding serveHTTP_def serveMappingCollection_def serveMappingItem_def pageMutation_def
    by (auto split: option.splits if_splits sum.splits prod.splits)
  have "emits isLookup (afterMutation env r)" for r
    unfolding afterMutation_def by (auto intro: reads_only emits_ret split: res.split)
  then show ?thesis using pageMutation_asked [OF Some [unfolded p]]
    unfolding Some p serve emits_def by (auto split: prod.split)
qed

end
