(* ===== verification/SS_Blake3.thy ===== *)
theory SS_Blake3
  imports Go_Strings
begin

text \<open>
  The one-block BLAKE3 of \<^verbatim>\<open>src/plugins/shadowsocks-server/protocol.go\<close>: the compression
  function, the digest and the key derivation of Shadowsocks 2022. Arrays of words are lists of the
  length the source declares.
\<close>

section \<open>Little-endian words\<close>

definition le32_of :: "wire \<Rightarrow> u32" where
  "le32_of bs = (case bs of
     [a, b, c, d] \<Rightarrow> push_bit 24 (ucast d) OR push_bit 16 (ucast c) OR push_bit 8 (ucast b) OR ucast a
   | _ \<Rightarrow> 0)"

definition le32_bytes :: "u32 \<Rightarrow> wire" where
  "le32_bytes w = [ucast w, ucast (drop_bit 8 w), ucast (drop_bit 16 w), ucast (drop_bit 24 w)]"

lemma length_le32_bytes [simp]: "length (le32_bytes w) = 4"
  by (simp add: le32_bytes_def)

section \<open>Compression\<close>

definition blake3ChunkStart :: u32 where "blake3ChunkStart = 1"
definition blake3ChunkEnd :: u32 where "blake3ChunkEnd = 2"
definition blake3Root :: u32 where "blake3Root = 8"
definition blake3DeriveContext :: u32 where "blake3DeriveContext = 32"
definition blake3DeriveMaterial :: u32 where "blake3DeriveMaterial = 64"

definition blake3IV :: "u32 list" where
  "blake3IV = [0x6a09e667, 0xbb67ae85, 0x3c6ef372, 0xa54ff53a, 0x510e527f, 0x9b05688c, 0x1f83d9ab, 0x5be0cd19]"

definition blake3Permutation :: "nat list" where
  "blake3Permutation = [2, 6, 3, 10, 7, 0, 4, 13, 1, 11, 12, 5, 9, 14, 15, 8]"

definition rotateRight :: "u32 \<Rightarrow> nat \<Rightarrow> u32" where
  "rotateRight value count = drop_bit count value OR push_bit (32 - count) value"

definition blake3G :: "u32 list \<Rightarrow> nat \<Rightarrow> nat \<Rightarrow> nat \<Rightarrow> nat \<Rightarrow> u32 \<Rightarrow> u32 \<Rightarrow> u32 list" where
  "blake3G s0 a b c d mx my =
     (let s1 = s0[a := s0 ! a + s0 ! b + mx];
          s2 = s1[d := rotateRight (s1 ! d XOR s1 ! a) 16];
          s3 = s2[c := s2 ! c + s2 ! d];
          s4 = s3[b := rotateRight (s3 ! b XOR s3 ! c) 12];
          s5 = s4[a := s4 ! a + s4 ! b + my];
          s6 = s5[d := rotateRight (s5 ! d XOR s5 ! a) 8];
          s7 = s6[c := s6 ! c + s6 ! d]
      in s7[b := rotateRight (s7 ! b XOR s7 ! c) 7])"

definition blake3Round :: "u32 list \<times> u32 list \<Rightarrow> u32 list \<times> u32 list" where
  "blake3Round sm = (case sm of (s0, message) \<Rightarrow>
     let s1 = blake3G s0 0 4 8 12 (message ! 0) (message ! 1);
         s2 = blake3G s1 1 5 9 13 (message ! 2) (message ! 3);
         s3 = blake3G s2 2 6 10 14 (message ! 4) (message ! 5);
         s4 = blake3G s3 3 7 11 15 (message ! 6) (message ! 7);
         s5 = blake3G s4 0 5 10 15 (message ! 8) (message ! 9);
         s6 = blake3G s5 1 6 11 12 (message ! 10) (message ! 11);
         s7 = blake3G s6 2 7 8 13 (message ! 12) (message ! 13);
         s8 = blake3G s7 3 4 9 14 (message ! 14) (message ! 15)
     in (s8, map (\<lambda>source. message ! source) blake3Permutation))"

definition blake3Compress :: "u32 list \<Rightarrow> u32 list \<Rightarrow> u32 \<Rightarrow> u32 \<Rightarrow> u32 list" where
  "blake3Compress cv block blockLen flags =
     (let start = take 8 cv @ take 4 blake3IV @ [0, 0, blockLen, flags];
          state = fst ((blake3Round ^^ 7) (start, block))
      in map (\<lambda>i. state ! i XOR state ! (i + 8)) [0..<8] @ map (\<lambda>i. state ! (i + 8) XOR cv ! i) [0..<8])"

section \<open>Digest and key derivation\<close>

definition blake3OneBlock :: "u32 list \<Rightarrow> wire \<Rightarrow> u32 \<Rightarrow> wire" where
  "blake3OneBlock cv input mode =
     (let padded = take 64 (input @ replicate 64 0);
          block = map (\<lambda>i. le32_of (seg padded (i * 4) (i * 4 + 4))) [0..<16];
          wds = blake3Compress cv block (word_of_nat (length input)) (mode OR blake3ChunkStart OR blake3ChunkEnd OR blake3Root)
      in concat (map le32_bytes (take 8 wds)))"

text \<open>\<open>None\<close> is \<^verbatim>\<open>ErrProtocol\<close>.\<close>

definition blake3OneBlockDigest :: "wire \<Rightarrow> wire option" where
  "blake3OneBlockDigest input = (if length input > 64 then None else Some (blake3OneBlock blake3IV input 0))"

definition blake3DeriveKey :: "string \<Rightarrow> wire \<Rightarrow> wire option" where
  "blake3DeriveKey context material =
     (if length context > 64 \<or> length material > 64 then None
      else let contextKey = blake3OneBlock blake3IV (textBytes context) blake3DeriveContext;
               contextWords = map (\<lambda>i. le32_of (seg contextKey (i * 4) (i * 4 + 4))) [0..<8]
        in Some (blake3OneBlock contextWords material blake3DeriveMaterial))"

lemma length_blake3OneBlock [simp]: "length (blake3OneBlock cv input mode) = 32"
proof -
  have "length (blake3Compress cv b n f) = 16" for b n f
    by (simp add: blake3Compress_def Let_def)
  then show ?thesis
    by (simp add: blake3OneBlock_def Let_def length_concat comp_def sum_list_triv)
qed

lemma length_blake3OneBlockDigest: "blake3OneBlockDigest input = Some d \<Longrightarrow> length d = 32"
  by (auto simp: blake3OneBlockDigest_def split: if_splits)

lemma length_blake3DeriveKey: "blake3DeriveKey context material = Some d \<Longrightarrow> length d = 32"
  by (auto simp: blake3DeriveKey_def Let_def split: if_splits)

lemma blake3DeriveKey_Some:
  assumes "length ctx \<le> 64" "length material \<le> 64"
  obtains d where "blake3DeriveKey ctx material = Some d" "length d = 32"
proof -
  have "\<not> (length ctx > 64 \<or> length material > 64)" using assms by simp
  then obtain d where "blake3DeriveKey ctx material = Some d"
    unfolding blake3DeriveKey_def Let_def by (simp only: if_False)
  with length_blake3DeriveKey show thesis by (intro that)
qed

end
