(* ===== verification/SS_Protocol.thy ===== *)
theory SS_Protocol
  imports SS_Blake3 Go_Base64 Go_Net
begin

text \<open>
  The wire protocol of \<^verbatim>\<open>src/plugins/shadowsocks-server/protocol.go\<close>: keys, session
  ciphers, addresses, TCP requests and UDP packets of the traditional methods and of Shadowsocks
  2022 with and without identity headers. Receivers are never nil, copies of key material are values,
  and clearing memory has no effect on results. The packages \<^verbatim>\<open>crypto/aes\<close>,
  \<^verbatim>\<open>crypto/cipher\<close> (GCM), \<^verbatim>\<open>crypto/md5\<close> and \<^verbatim>\<open>crypto/hmac\<close> are the fields of
  \<open>ssLib\<close>.
\<close>

datatype ss_error =
    ErrUnsupportedMethod | ErrAuthentication | ErrProtocol
  | ErrInvalid | ErrReplay | ErrRevoked | ErrAgentOffline | ErrListenBind | ErrListenPayload
  | ErrTypedHandlesUnavailable | ErrSniffLimit
  | ErrRouteDatasetUnavailable | ErrRouteUpstreamUnavailable
  | ErrRead | ErrContext | ErrSecret

type_synonym 'a ss = "(ss_error, 'a) res"

record ssLib =
  ss_net :: netLib
  ss_seal :: "wire \<Rightarrow> wire \<Rightarrow> wire \<Rightarrow> wire"
  ss_open :: "wire \<Rightarrow> wire \<Rightarrow> wire \<Rightarrow> wire option"
  ss_encrypt :: "wire \<Rightarrow> wire \<Rightarrow> wire"
  ss_decrypt :: "wire \<Rightarrow> wire \<Rightarrow> wire"
  ss_md5 :: "wire \<Rightarrow> wire"
  ss_hmac :: "wire \<Rightarrow> wire \<Rightarrow> wire"

definition maxLegacyPayload :: nat where "maxLegacyPayload = 0x3fff"
definition max2022Payload :: nat where "max2022Payload = 0xffff"
definition max2022Padding :: nat where "max2022Padding = 900"
definition maxUDPPacket :: nat where "maxUDPPacket = 65507"
definition ss2022IdentitySize :: nat where "ss2022IdentitySize = 16"
definition ss2022KDFContext :: string where "ss2022KDFContext = ''shadowsocks 2022 session subkey''"
definition ss2022IdentityContext :: string where "ss2022IdentityContext = ''shadowsocks 2022 identity subkey''"

text \<open>\<^verbatim>\<open>aead.Overhead()\<close> of GCM, and the key sizes \<^verbatim>\<open>aes.NewCipher\<close> accepts.\<close>

definition gcmOverhead :: nat where "gcmOverhead = 16"

definition aesKey :: "wire \<Rightarrow> bool" where
  "aesKey k \<longleftrightarrow> length k = 16 \<or> length k = 24 \<or> length k = 32"

section \<open>Data\<close>

record proxyRequest =
  px_userID :: string
  px_target :: string
  px_payload :: wire
  px_replayToken :: wire
  px_sessionID :: u64
  px_packetID :: u64

definition zeroRequest :: proxyRequest where
  "zeroRequest = \<lparr> px_userID = [], px_target = [], px_payload = [], px_replayToken = [], px_sessionID = 0, px_packetID = 0 \<rparr>"

record streamCipher =
  sc_key :: wire
  sc_nonce :: wire

record protocolEngine =
  pe_method :: string
  pe_key :: wire
  pe_identity :: wire
  pe_keyLen :: nat
  pe_modern :: bool
  pe_dead :: bool

record tcpServerSession =
  ts_engine :: protocolEngine
  ts_key :: wire
  ts_inbound :: "streamCipher option"
  ts_outbound :: "streamCipher option"
  ts_requestSalt :: wire
  ts_leftover :: wire
  ts_modern :: bool
  ts_closed :: bool

section \<open>Engines\<close>

definition methodKeyLen :: "string \<Rightarrow> nat option" where
  "methodKeyLen m =
     (if m = ''aes-128-gcm'' \<or> m = ''2022-blake3-aes-128-gcm'' then Some 16
      else if m = ''aes-256-gcm'' \<or> m = ''2022-blake3-aes-256-gcm'' then Some 32 else None)"

definition SupportedMethod :: "string \<Rightarrow> bool" where
  "SupportedMethod m \<longleftrightarrow> methodKeyLen m \<noteq> None"

text \<open>
  The loops of \<^verbatim>\<open>evpBytesToKey\<close> and \<^verbatim>\<open>hkdfSHA1\<close> run until the key is long enough; a digest has at
  least one byte, so the wanted length bounds their rounds.
\<close>

fun evpLoop :: "ssLib \<Rightarrow> nat \<Rightarrow> wire \<Rightarrow> nat \<Rightarrow> wire \<Rightarrow> wire \<Rightarrow> wire" where
  "evpLoop lib 0 password keyLen previous key = key"
| "evpLoop lib (Suc n) password keyLen previous key =
     (if length key < keyLen
      then let digest = ss_md5 lib (previous @ password) in evpLoop lib n password keyLen digest (key @ digest)
      else key)"

definition evpBytesToKey :: "ssLib \<Rightarrow> wire \<Rightarrow> nat \<Rightarrow> wire" where
  "evpBytesToKey lib password keyLen = take keyLen (evpLoop lib keyLen password keyLen [] [])"

fun hkdfLoop :: "ssLib \<Rightarrow> nat \<Rightarrow> wire \<Rightarrow> wire \<Rightarrow> nat \<Rightarrow> byte \<Rightarrow> wire \<Rightarrow> wire \<Rightarrow> wire" where
  "hkdfLoop lib 0 prk info len counter previous key = key"
| "hkdfLoop lib (Suc n) prk info len counter previous key =
     (if length key < len
      then let block = ss_hmac lib prk (previous @ info @ [counter])
        in hkdfLoop lib n prk info len (counter + 1) block (key @ block)
      else key)"

definition hkdfSHA1 :: "ssLib \<Rightarrow> wire \<Rightarrow> wire \<Rightarrow> wire \<Rightarrow> nat \<Rightarrow> wire" where
  "hkdfSHA1 lib key salt info len = take len (hkdfLoop lib len (ss_hmac lib salt key) info len 1 [] [])"

definition splitSS2022ClientPassword :: "string \<Rightarrow> (string \<times> string) option" where
  "splitSS2022ClientPassword material =
     (case indexByte CHR '':'' material of None \<Rightarrow> None
      | Some index \<Rightarrow>
        if index = 0 \<or> index + 1 \<ge> length material \<or> indexByte CHR '':'' (drop (index + 1) material) \<noteq> None then None
        else Some (take index material, drop (index + 1) material))"

definition decodeSS2022PSK :: "string \<Rightarrow> string \<Rightarrow> wire ss" where
  "decodeSS2022PSK m encoded =
     (if \<not> hasPrefix m ''2022-'' then Err ErrUnsupportedMethod
      else case methodKeyLen m of None \<Rightarrow> Err ErrUnsupportedMethod
      | Some keyLen \<Rightarrow>
        (case stdDecodeStrict encoded of None \<Rightarrow> Err ErrInvalid
         | Some decoded \<Rightarrow> if length decoded \<noteq> keyLen \<or> stdEncode decoded \<noteq> encoded then Err ErrInvalid else Ok decoded))"

definition newSS2022IdentityEngine :: "string \<Rightarrow> string \<Rightarrow> string \<Rightarrow> protocolEngine ss" where
  "newSS2022IdentityEngine m serverPSK userPSK =
     rbind (decodeSS2022PSK m serverPSK) (\<lambda>identity. rbind (decodeSS2022PSK m userPSK) (\<lambda>key.
       if identity = key then Err ErrInvalid
       else Ok \<lparr> pe_method = m, pe_key = key, pe_identity = identity, pe_keyLen = length key, pe_modern = True, pe_dead = False \<rparr>))"

definition NewSS2022IdentityEngine :: "string \<Rightarrow> string \<Rightarrow> string \<Rightarrow> protocolEngine ss" where
  "NewSS2022IdentityEngine m serverPSK userPSK =
     (if \<not> hasPrefix m ''2022-'' \<or> \<not> SupportedMethod m then Err ErrUnsupportedMethod
      else newSS2022IdentityEngine m serverPSK userPSK)"

definition NewProtocolEngine :: "ssLib \<Rightarrow> string \<Rightarrow> string \<Rightarrow> protocolEngine ss" where
  "NewProtocolEngine lib m material =
     (case methodKeyLen m of None \<Rightarrow> Err ErrUnsupportedMethod
      | Some keyLen \<Rightarrow>
        if length material = 0 then Err ErrUnsupportedMethod
        else if \<not> hasPrefix m ''2022-'' then
          Ok \<lparr> pe_method = m, pe_key = evpBytesToKey lib (textBytes material) keyLen, pe_identity = [], pe_keyLen = keyLen,
               pe_modern = False, pe_dead = False \<rparr>
        else if indexByte CHR '':'' material \<noteq> None then
          (case splitSS2022ClientPassword material of None \<Rightarrow> Err ErrInvalid
           | Some (serverPSK, userPSK) \<Rightarrow> newSS2022IdentityEngine m serverPSK userPSK)
        else rbind (decodeSS2022PSK m material) (\<lambda>key.
          Ok \<lparr> pe_method = m, pe_key = key, pe_identity = [], pe_keyLen = keyLen, pe_modern = True, pe_dead = False \<rparr>))"

definition Destroy :: "protocolEngine \<Rightarrow> protocolEngine" where
  "Destroy e = e\<lparr> pe_key := [], pe_identity := [], pe_dead := True \<rparr>"

definition keysSnapshot :: "protocolEngine \<Rightarrow> (wire \<times> wire) ss" where
  "keysSnapshot e =
     (if pe_dead e \<or> length (pe_key e) \<noteq> pe_keyLen e then Err ErrRevoked
      else if length (pe_identity e) \<noteq> 0 \<and> length (pe_identity e) \<noteq> pe_keyLen e then Err ErrRevoked
      else Ok (pe_key e, pe_identity e))"

definition HasIdentity :: "protocolEngine \<Rightarrow> bool" where
  "HasIdentity e \<longleftrightarrow> \<not> pe_dead e \<and> length (pe_identity e) = pe_keyLen e"

text \<open>Distinct engines; the source first answers true for the same pointer.\<close>

definition sameSecrets :: "protocolEngine \<Rightarrow> protocolEngine \<Rightarrow> bool" where
  "sameSecrets e other =
     (if pe_method e \<noteq> pe_method other \<or> pe_keyLen e \<noteq> pe_keyLen other \<or> pe_modern e \<noteq> pe_modern other then False
      else case (keysSnapshot e, keysSnapshot other) of
        (Ok (leftUser, leftIdentity), Ok (rightUser, rightIdentity)) \<Rightarrow> leftUser = rightUser \<and> leftIdentity = rightIdentity
      | _ \<Rightarrow> False)"

section \<open>Session ciphers\<close>

fun incrementNonce :: "wire \<Rightarrow> wire" where
  "incrementNonce [] = []"
| "incrementNonce (b # bs) = (if b + 1 \<noteq> 0 then (b + 1) # bs else (b + 1) # incrementNonce bs)"

definition newSession :: "ssLib \<Rightarrow> protocolEngine \<Rightarrow> wire \<Rightarrow> wire \<Rightarrow> streamCipher ss" where
  "newSession lib e master salt =
     (if length salt \<noteq> pe_keyLen e then Err ErrProtocol
      else rbind (if pe_modern e
          then (case blake3DeriveKey ss2022KDFContext (master @ salt) of None \<Rightarrow> Err ErrProtocol
            | Some derived \<Rightarrow> Ok (take (pe_keyLen e) derived))
          else Ok (hkdfSHA1 lib master salt (textBytes ''ss-subkey'') (pe_keyLen e))) (\<lambda>subkey.
        if aesKey subkey then Ok \<lparr> sc_key = subkey, sc_nonce = replicate 12 0 \<rparr> else Err ErrProtocol))"

definition sealFrame :: "ssLib \<Rightarrow> streamCipher \<Rightarrow> wire \<Rightarrow> wire \<times> streamCipher" where
  "sealFrame lib s plaintext =
     (ss_seal lib (sc_key s) (sc_nonce s) plaintext, s\<lparr> sc_nonce := incrementNonce (sc_nonce s) \<rparr>)"

text \<open>An open that fails leaves the nonce.\<close>

definition openFrame :: "ssLib \<Rightarrow> streamCipher \<Rightarrow> wire \<Rightarrow> (wire \<times> streamCipher) ss" where
  "openFrame lib s ciphertext =
     (case ss_open lib (sc_key s) (sc_nonce s) ciphertext of None \<Rightarrow> Err ErrAuthentication
      | Some plain \<Rightarrow> Ok (plain, s\<lparr> sc_nonce := incrementNonce (sc_nonce s) \<rparr>))"

text \<open>The bytes \<^verbatim>\<open>byte(n >> 8), byte(n)\<close> of a length.\<close>

definition lengthBytes :: "nat \<Rightarrow> wire" where
  "lengthBytes n = be16_bytes (word_of_nat n)"

definition sealPayloadChunk :: "ssLib \<Rightarrow> streamCipher \<Rightarrow> wire \<Rightarrow> wire \<times> streamCipher" where
  "sealPayloadChunk lib s payload =
     (let (header, s1) = sealFrame lib s (lengthBytes (length payload)); (body, s2) = sealFrame lib s1 payload
      in (header @ body, s2))"

text \<open>The cipher after the call is part of the result: the first open advances it even if the second fails.\<close>

definition openPayloadChunk :: "ssLib \<Rightarrow> streamCipher \<Rightarrow> wire \<Rightarrow> nat \<Rightarrow> streamCipher \<times> wire ss" where
  "openPayloadChunk lib s wire maximum =
     (let lengthWire = 2 + gcmOverhead in
      if length wire < lengthWire + gcmOverhead then (s, Err ErrProtocol)
      else case openFrame lib s (take lengthWire wire) of
        Ok (plainLength, s1) \<Rightarrow>
          if length plainLength \<noteq> 2 then (s1, Err ErrAuthentication)
          else let len = unat (be16_of plainLength) in
            if len > maximum \<or> length wire - lengthWire \<noteq> len + gcmOverhead then (s1, Err ErrProtocol)
            else (case openFrame lib s1 (drop lengthWire wire) of
                Ok (payload, s2) \<Rightarrow> (s2, Ok payload)
              | Err e \<Rightarrow> (s1, Err e)
              | Panic \<Rightarrow> (s1, Panic))
      | Err e \<Rightarrow> (s, Err ErrAuthentication)
      | Panic \<Rightarrow> (s, Panic))"

section \<open>Addresses\<close>

definition hostBytesForbidden :: "string \<Rightarrow> bool" where
  "hostBytesForbidden host \<longleftrightarrow> containsAny host [CHR 0x00, CHR 0x0d, CHR 0x0a]"

definition encodeAddress :: "ssLib \<Rightarrow> string \<Rightarrow> wire ss" where
  "encodeAddress lib target =
     (case splitHostPort target of None \<Rightarrow> Err ErrProtocol
      | Some (host, portText) \<Rightarrow>
        (case parseUint16 portText of None \<Rightarrow> Err ErrProtocol
         | Some port \<Rightarrow>
           if port = 0 then Err ErrProtocol
           else rbind (case parseIP (ss_net lib) host of
               Some ip \<Rightarrow> (case to4 ip of Some ipv4 \<Rightarrow> Ok (1 # ipv4) | None \<Rightarrow> Ok (4 # ip))
             | None \<Rightarrow>
                 if length host = 0 \<or> length host > 255 \<or> hostBytesForbidden host then Err ErrProtocol
                 else Ok (3 # word_of_nat (length host) # textBytes host)) (\<lambda>encoded.
             Ok (encoded @ be16_bytes (word_of_nat port)))))"

definition decodeHost :: "ssLib \<Rightarrow> wire \<Rightarrow> (string \<times> nat) ss" where
  "decodeHost lib wire =
     rbind (idx wire 0) (\<lambda>kind.
       if kind = 1 then
         (if length wire < 1 + 4 + 2 then Err ErrProtocol
          else rbind (slice wire 1 5) (\<lambda>ip. Ok (ipString (ss_net lib) ip, 5)))
       else if kind = 4 then
         (if length wire < 1 + 16 + 2 then Err ErrProtocol
          else rbind (slice wire 1 17) (\<lambda>ip. Ok (ipString (ss_net lib) ip, 17)))
       else if kind = 3 then
         (if length wire < 2 then Err ErrProtocol
          else rbind (idx wire 1) (\<lambda>n.
            let len = unat n in
            if len = 0 \<or> length wire < 2 + len + 2 then Err ErrProtocol
            else rbind (slice wire 2 (2 + len)) (\<lambda>bs.
              if hostBytesForbidden (bytesText bs) then Err ErrProtocol else Ok (bytesText bs, 2 + len))))
       else Err ErrProtocol)"

definition decodeAddress :: "ssLib \<Rightarrow> wire \<Rightarrow> (string \<times> nat) ss" where
  "decodeAddress lib wire =
     (if length wire < 1 then Err ErrProtocol
      else rbind (decodeHost lib wire) (\<lambda>(host, position).
        rbind (be16 wire position) (\<lambda>port.
          if port = 0 then Err ErrProtocol
          else Ok (joinHostPort host (itoa (unat port)), position + 2))))"

section \<open>Time\<close>

definition be64_of :: "wire \<Rightarrow> u64" where
  "be64_of bs = word_of_int (foldl (\<lambda>acc b. acc * 256 + uint b) 0 bs)"

definition be64_bytes :: "u64 \<Rightarrow> wire" where
  "be64_bytes w = map (\<lambda>i. ucast (drop_bit (8 * i) w)) [7, 6, 5, 4, 3, 2, 1, 0]"

definition wrap64 :: "int \<Rightarrow> int" where
  "wrap64 x = sint (word_of_int x :: u64)"

text \<open>\<open>now\<close> is \<^verbatim>\<open>now.Unix()\<close>, a 64-bit integer.\<close>

definition timestampValid :: "u64 \<Rightarrow> int \<Rightarrow> bool" where
  "timestampValid value now =
     (if uint value > 2 ^ 63 - 1 then False
      else wrap64 (now - 30) \<le> uint value \<and> uint value \<le> wrap64 (now + 30))"

section \<open>TCP requests\<close>

definition sealLegacyTCP :: "ssLib \<Rightarrow> protocolEngine \<Rightarrow> wire \<Rightarrow> wire \<Rightarrow> string \<Rightarrow> wire \<Rightarrow> wire ss" where
  "sealLegacyTCP lib e key salt target payload =
     (case encodeAddress lib target of
        Ok address \<Rightarrow>
          if length address + length payload > maxLegacyPayload then Err ErrProtocol
          else rbind (newSession lib e key salt) (\<lambda>s0.
            let body = address @ payload;
                (header, s1) = sealFrame lib s0 (lengthBytes (length body));
                (frame, s2) = sealFrame lib s1 body
            in Ok (salt @ header @ frame))
      | _ \<Rightarrow> Err ErrProtocol)"

definition openLegacyTCP :: "ssLib \<Rightarrow> protocolEngine \<Rightarrow> wire \<Rightarrow> wire \<Rightarrow> (proxyRequest \<times> tcpServerSession) ss" where
  "openLegacyTCP lib e key wire =
     (if length wire < pe_keyLen e + 2 + 32 then Err ErrProtocol
      else rbind (slice wire 0 (pe_keyLen e)) (\<lambda>salt. rbind (newSession lib e key salt) (\<lambda>s0.
        let position = pe_keyLen e + (2 + gcmOverhead) in
        rbind (slice wire (pe_keyLen e) position) (\<lambda>lengthWire.
          case openFrame lib s0 lengthWire of
            Err _ \<Rightarrow> Err ErrAuthentication
          | Panic \<Rightarrow> Panic
          | Ok (lengthPlain, s1) \<Rightarrow>
            if length lengthPlain \<noteq> 2 then Err ErrAuthentication
            else let len = unat (be16_of lengthPlain) in
              if len = 0 \<or> len > maxLegacyPayload then Err ErrProtocol
              else let frameEnd = position + len + gcmOverhead in
                if length wire < frameEnd then Err ErrProtocol
                else rbind (slice wire position frameEnd) (\<lambda>frame.
                  rbind (openFrame lib s1 frame) (\<lambda>(body, s2).
                  rbind (decodeAddress lib body) (\<lambda>(target, consumed).
                  rbind (slice body consumed (length body)) (\<lambda>payload.
                    Ok (zeroRequest\<lparr> px_target := target, px_payload := payload, px_replayToken := salt \<rparr>,
                        \<lparr> ts_engine = e, ts_key = key, ts_inbound = Some s2, ts_outbound = None, ts_requestSalt = salt,
                          ts_leftover = drop frameEnd wire, ts_modern = False, ts_closed = False \<rparr>)))))))))"

subsection \<open>Identity headers\<close>

definition ss2022IdentityOverhead :: "wire \<Rightarrow> nat" where
  "ss2022IdentityOverhead identity = (if length identity = 0 then 0 else ss2022IdentitySize)"

definition ss2022IdentityHash :: "wire \<Rightarrow> wire ss" where
  "ss2022IdentityHash psk =
     (if length psk \<noteq> 16 \<and> length psk \<noteq> 32 then Err ErrProtocol
      else case blake3OneBlockDigest psk of None \<Rightarrow> Err ErrProtocol | Some digest \<Rightarrow> Ok (take ss2022IdentitySize digest))"

definition ss2022TCPIdentityMaterial :: "wire \<Rightarrow> wire \<Rightarrow> wire \<Rightarrow> (wire \<times> wire) ss" where
  "ss2022TCPIdentityMaterial ipsk nextPSK salt =
     (if length ipsk \<noteq> 16 \<and> length ipsk \<noteq> 32 \<or> length nextPSK \<noteq> length ipsk \<or> length salt \<noteq> length ipsk then Err ErrProtocol
      else case blake3DeriveKey ss2022IdentityContext (ipsk @ salt) of None \<Rightarrow> Err ErrProtocol
      | Some derived \<Rightarrow> rbind (ss2022IdentityHash nextPSK) (\<lambda>plain. Ok (plain, take (length ipsk) derived)))"

definition seal2022Identity :: "ssLib \<Rightarrow> wire \<Rightarrow> wire \<Rightarrow> wire \<Rightarrow> wire ss" where
  "seal2022Identity lib ipsk nextPSK salt =
     (if length ipsk = 0 then Ok []
      else rbind (ss2022TCPIdentityMaterial ipsk nextPSK salt) (\<lambda>(plain, key).
        if \<not> aesKey key then Err ErrProtocol else Ok (ss_encrypt lib key plain)))"

definition open2022Identity :: "ssLib \<Rightarrow> wire \<Rightarrow> wire \<Rightarrow> wire \<Rightarrow> wire \<Rightarrow> unit ss" where
  "open2022Identity lib ipsk nextPSK salt header =
     (if length header \<noteq> ss2022IdentitySize then Err ErrProtocol
      else rbind (ss2022TCPIdentityMaterial ipsk nextPSK salt) (\<lambda>(plain, key).
        if \<not> aesKey key then Err ErrProtocol
        else if ss_encrypt lib key plain \<noteq> header then Err ErrAuthentication else Ok ()))"

subsection \<open>Shadowsocks 2022\<close>

definition seal2022TCP ::
  "ssLib \<Rightarrow> protocolEngine \<Rightarrow> wire \<Rightarrow> wire \<Rightarrow> wire \<Rightarrow> string \<Rightarrow> wire \<Rightarrow> int \<Rightarrow> wire \<Rightarrow> wire ss" where
  "seal2022TCP lib e key identity salt target payload now padding =
     (if length padding > max2022Padding \<or> length payload > max2022Payload then Err ErrProtocol
      else case encodeAddress lib target of
        Ok address \<Rightarrow>
          if length address + 2 + length padding + length payload > max2022Payload \<or> length padding + length payload = 0
          then Err ErrProtocol
          else let variable = address @ lengthBytes (length padding) @ padding @ payload;
                   fixed = 0 # be64_bytes (word_of_int now) @ lengthBytes (length variable) in
            rbind (newSession lib e key salt) (\<lambda>s0. rbind (seal2022Identity lib identity key salt) (\<lambda>header.
              let (first, s1) = sealFrame lib s0 fixed; (second, s2) = sealFrame lib s1 variable
              in Ok (salt @ header @ first @ second)))
      | _ \<Rightarrow> Err ErrProtocol)"

text \<open>What the fixed header must say, and the request in the variable header.\<close>

definition open2022Variable :: "ssLib \<Rightarrow> wire \<Rightarrow> (string \<times> wire) ss" where
  "open2022Variable lib variable =
     (case decodeAddress lib variable of
        Ok (target, consumed) \<Rightarrow>
          if length variable - consumed < 2 then Err ErrProtocol
          else rbind (be16 variable consumed) (\<lambda>n.
            let paddingLength = unat n; consumed = consumed + 2 in
            if paddingLength > max2022Padding \<or> length variable - consumed < paddingLength then Err ErrProtocol
            else let consumed = consumed + paddingLength in
              if paddingLength = 0 \<and> consumed = length variable then Err ErrProtocol
              else rbind (slice variable consumed (length variable)) (\<lambda>payload. Ok (target, payload)))
      | Err _ \<Rightarrow> Err ErrProtocol
      | Panic \<Rightarrow> Panic)"

definition open2022TCP ::
  "ssLib \<Rightarrow> protocolEngine \<Rightarrow> wire \<Rightarrow> wire \<Rightarrow> wire \<Rightarrow> int \<Rightarrow> (proxyRequest \<times> tcpServerSession) ss" where
  "open2022TCP lib e key identity wire now =
     (let fixedWireLength = 11 + 16; overhead = ss2022IdentityOverhead identity in
      if length wire < pe_keyLen e + overhead + fixedWireLength + 16 then Err ErrProtocol
      else rbind (slice wire 0 (pe_keyLen e)) (\<lambda>salt.
        rbind (if overhead \<noteq> 0
            then rbind (slice wire (pe_keyLen e) (pe_keyLen e + ss2022IdentitySize)) (open2022Identity lib identity key salt)
            else Ok ()) (\<lambda>_.
        let position = pe_keyLen e + overhead in
        rbind (newSession lib e key salt) (\<lambda>s0. rbind (slice wire position (position + fixedWireLength)) (\<lambda>first.
          case openFrame lib s0 first of
            Err _ \<Rightarrow> Err ErrAuthentication
          | Panic \<Rightarrow> Panic
          | Ok (fixed, s1) \<Rightarrow>
            if length fixed \<noteq> 11 then Err ErrAuthentication
            else if fixed ! 0 \<noteq> 0 \<or> \<not> timestampValid (be64_of (seg fixed 1 9)) now then Err ErrReplay
            else let variableLength = unat (be16_of (seg fixed 9 11)); position = position + fixedWireLength in
              if variableLength = 0 then Err ErrProtocol
              else let frameEnd = position + variableLength + 16 in
                if length wire < frameEnd then Err ErrProtocol
                else rbind (slice wire position frameEnd) (\<lambda>frame. rbind (openFrame lib s1 frame) (\<lambda>(variable, s2).
                  rbind (open2022Variable lib variable) (\<lambda>(target, payload).
                    Ok (zeroRequest\<lparr> px_target := target, px_payload := payload, px_replayToken := salt \<rparr>,
                        \<lparr> ts_engine = e, ts_key = key, ts_inbound = Some s2, ts_outbound = None, ts_requestSalt = salt,
                          ts_leftover = drop frameEnd wire, ts_modern = True, ts_closed = False \<rparr>)))))))))"

definition SealTCPRequest ::
  "ssLib \<Rightarrow> protocolEngine \<Rightarrow> wire \<Rightarrow> string \<Rightarrow> wire \<Rightarrow> int \<Rightarrow> wire \<Rightarrow> wire ss" where
  "SealTCPRequest lib e salt target payload now padding =
     rbind (keysSnapshot e) (\<lambda>(key, identity).
       if length salt \<noteq> pe_keyLen e then Err ErrProtocol
       else if pe_modern e then seal2022TCP lib e key identity salt target payload now padding
       else if length padding \<noteq> 0 then Err ErrProtocol
       else sealLegacyTCP lib e key salt target payload)"

definition OpenTCPServerSession ::
  "ssLib \<Rightarrow> protocolEngine \<Rightarrow> wire \<Rightarrow> int \<Rightarrow> (proxyRequest \<times> tcpServerSession) ss" where
  "OpenTCPServerSession lib e wire now =
     rbind (keysSnapshot e) (\<lambda>(key, identity).
       if pe_modern e then open2022TCP lib e key identity wire now else openLegacyTCP lib e key wire)"

section \<open>UDP packets\<close>

definition sealLegacyUDP :: "ssLib \<Rightarrow> protocolEngine \<Rightarrow> wire \<Rightarrow> wire \<Rightarrow> string \<Rightarrow> wire \<Rightarrow> wire ss" where
  "sealLegacyUDP lib e key salt target payload =
     (case encodeAddress lib target of
        Ok address \<Rightarrow>
          if pe_keyLen e + 16 + length address + length payload > maxUDPPacket then Err ErrProtocol
          else rbind (newSession lib e key salt) (\<lambda>s. Ok (salt @ fst (sealFrame lib s (address @ payload))))
      | _ \<Rightarrow> Err ErrProtocol)"

definition openLegacyUDP :: "ssLib \<Rightarrow> protocolEngine \<Rightarrow> wire \<Rightarrow> wire \<Rightarrow> proxyRequest ss" where
  "openLegacyUDP lib e key wire =
     (if length wire < pe_keyLen e + 1 + 2 + 16 \<or> length wire > maxUDPPacket then Err ErrProtocol
      else rbind (slice wire 0 (pe_keyLen e)) (\<lambda>salt. rbind (newSession lib e key salt) (\<lambda>s.
        rbind (slice wire (pe_keyLen e) (length wire)) (\<lambda>frame. rbind (openFrame lib s frame) (\<lambda>(body, _).
        rbind (decodeAddress lib body) (\<lambda>(target, consumed). rbind (slice body consumed (length body)) (\<lambda>payload.
          Ok (zeroRequest\<lparr> px_target := target, px_payload := payload, px_replayToken := salt \<rparr>))))))))"

definition ss2022UDPIdentityMaterial :: "wire \<Rightarrow> wire \<Rightarrow> wire ss" where
  "ss2022UDPIdentityMaterial nextPSK packetHeader =
     (if length nextPSK \<noteq> 16 \<and> length nextPSK \<noteq> 32 \<or> length packetHeader \<noteq> ss2022IdentitySize then Err ErrProtocol
      else rbind (ss2022IdentityHash nextPSK) (\<lambda>hash. Ok (map2 (\<lambda>h p. h XOR p) hash packetHeader)))"

definition seal2022UDPIdentity :: "ssLib \<Rightarrow> wire \<Rightarrow> wire \<Rightarrow> wire \<Rightarrow> wire ss" where
  "seal2022UDPIdentity lib ipsk nextPSK packetHeader =
     (if length ipsk = 0 then Ok []
      else rbind (ss2022UDPIdentityMaterial nextPSK packetHeader) (\<lambda>plain.
        if \<not> aesKey ipsk then Err ErrProtocol else Ok (ss_encrypt lib ipsk plain)))"

definition open2022UDPIdentity :: "ssLib \<Rightarrow> wire \<Rightarrow> wire \<Rightarrow> wire \<Rightarrow> wire \<Rightarrow> unit ss" where
  "open2022UDPIdentity lib ipsk nextPSK packetHeader header =
     (if length header \<noteq> ss2022IdentitySize then Err ErrProtocol
      else rbind (ss2022UDPIdentityMaterial nextPSK packetHeader) (\<lambda>plain.
        if \<not> aesKey ipsk then Err ErrProtocol
        else if ss_encrypt lib ipsk plain \<noteq> header then Err ErrAuthentication else Ok ()))"

text \<open>The key of a packet body, derived from the user key and the session identifier.\<close>

definition packetSubkey :: "protocolEngine \<Rightarrow> wire \<Rightarrow> wire \<Rightarrow> wire ss" where
  "packetSubkey e key sessionID =
     (case blake3DeriveKey ss2022KDFContext (key @ sessionID) of None \<Rightarrow> Err ErrProtocol
      | Some derived \<Rightarrow> if aesKey (take (pe_keyLen e) derived) then Ok (take (pe_keyLen e) derived) else Err ErrProtocol)"

definition seal2022UDP ::
  "ssLib \<Rightarrow> protocolEngine \<Rightarrow> wire \<Rightarrow> wire \<Rightarrow> wire \<Rightarrow> u64 \<Rightarrow> string \<Rightarrow> wire \<Rightarrow> int \<Rightarrow> wire \<Rightarrow> wire ss" where
  "seal2022UDP lib e key identity sessionID packetID target payload now padding =
     (if length sessionID \<noteq> 8 \<or> length padding > max2022Padding then Err ErrProtocol
      else case encodeAddress lib target of
        Ok address \<Rightarrow>
          if 16 + 16 + 11 + length padding + length address + length payload + ss2022IdentityOverhead identity > maxUDPPacket
          then Err ErrProtocol
          else let separate = sessionID @ be64_bytes packetID; packetKey = (if length identity \<noteq> 0 then identity else key) in
            if \<not> aesKey packetKey then Err ErrProtocol
            else rbind (packetSubkey e key sessionID) (\<lambda>subkey.
              let body = 0 # be64_bytes (word_of_int now) @ lengthBytes (length padding) @ padding @ address @ payload in
              rbind (seal2022UDPIdentity lib identity key separate) (\<lambda>header.
                Ok (ss_encrypt lib packetKey separate @ header @ ss_seal lib subkey (drop 4 separate) body)))
      | _ \<Rightarrow> Err ErrProtocol)"

text \<open>
  The padded body of a packet from \<open>start\<close>: the padding length, the padding, the address and
  the payload.
\<close>

definition openPaddedBody :: "ssLib \<Rightarrow> wire \<Rightarrow> nat \<Rightarrow> (string \<times> wire) ss" where
  "openPaddedBody lib body start =
     rbind (be16 body start) (\<lambda>n.
       let paddingLength = unat n in
       if paddingLength > max2022Padding \<or> length body < start + 2 + paddingLength then Err ErrProtocol
       else rbind (slice body (start + 2 + paddingLength) (length body)) (\<lambda>rest.
         rbind (decodeAddress lib rest) (\<lambda>(target, consumed).
         rbind (slice body (start + 2 + paddingLength + consumed) (length body)) (\<lambda>payload. Ok (target, payload)))))"

definition open2022UDP :: "ssLib \<Rightarrow> protocolEngine \<Rightarrow> wire \<Rightarrow> wire \<Rightarrow> wire \<Rightarrow> int \<Rightarrow> proxyRequest ss" where
  "open2022UDP lib e key identity wire now =
     (let overhead = ss2022IdentityOverhead identity in
      if length wire < overhead + 16 + 1 + 8 + 2 + 1 + 2 + 16 \<or> length wire > maxUDPPacket then Err ErrProtocol
      else let packetKey = (if length identity \<noteq> 0 then identity else key) in
        if \<not> aesKey packetKey then Err ErrProtocol
        else rbind (slice wire 0 16) (\<lambda>block. let separate = ss_decrypt lib packetKey block in
          rbind (if overhead \<noteq> 0 then rbind (slice wire 16 32) (open2022UDPIdentity lib identity key separate) else Ok ()) (\<lambda>_.
          let position = 16 + overhead in
          rbind (packetSubkey e key (take 8 separate)) (\<lambda>subkey. rbind (slice wire position (length wire)) (\<lambda>frame.
            case ss_open lib subkey (drop 4 separate) frame of None \<Rightarrow> Err ErrAuthentication
            | Some body \<Rightarrow>
              if length body < 11 \<or> body ! 0 \<noteq> 0 \<or> \<not> timestampValid (be64_of (seg body 1 9)) now then Err ErrReplay
              else rbind (openPaddedBody lib body 9) (\<lambda>(target, payload).
                Ok (zeroRequest\<lparr> px_target := target, px_payload := payload, px_replayToken := separate,
                  px_sessionID := be64_of (take 8 separate), px_packetID := be64_of (drop 8 separate) \<rparr>)))))))"

definition seal2022UDPResponse ::
  "ssLib \<Rightarrow> protocolEngine \<Rightarrow> wire \<Rightarrow> wire \<Rightarrow> u64 \<Rightarrow> u64 \<Rightarrow> string \<Rightarrow> wire \<Rightarrow> int \<Rightarrow> wire \<Rightarrow> wire ss" where
  "seal2022UDPResponse lib e key serverSessionID packetID clientSessionID target payload now padding =
     (if length serverSessionID \<noteq> 8 \<or> length padding > max2022Padding then Err ErrProtocol
      else case encodeAddress lib target of
        Ok address \<Rightarrow>
          if 16 + 16 + 19 + length padding + length address + length payload > maxUDPPacket then Err ErrProtocol
          else let separate = serverSessionID @ be64_bytes packetID in
            if \<not> aesKey key then Err ErrProtocol
            else rbind (packetSubkey e key serverSessionID) (\<lambda>subkey.
              let body = 1 # be64_bytes (word_of_int now) @ be64_bytes clientSessionID @ lengthBytes (length padding)
                @ padding @ address @ payload in
              Ok (ss_encrypt lib key separate @ ss_seal lib subkey (drop 4 separate) body))
      | _ \<Rightarrow> Err ErrProtocol)"

definition open2022UDPResponse :: "ssLib \<Rightarrow> protocolEngine \<Rightarrow> wire \<Rightarrow> wire \<Rightarrow> int \<Rightarrow> u64 \<Rightarrow> proxyRequest ss" where
  "open2022UDPResponse lib e key wire now expectedClientSessionID =
     (if length wire < 16 + 1 + 8 + 8 + 2 + 1 + 2 + 16 \<or> length wire > maxUDPPacket then Err ErrProtocol
      else if \<not> aesKey key then Err ErrProtocol
      else rbind (slice wire 0 16) (\<lambda>block. let separate = ss_decrypt lib key block in
        rbind (packetSubkey e key (take 8 separate)) (\<lambda>subkey. rbind (slice wire 16 (length wire)) (\<lambda>frame.
          case ss_open lib subkey (drop 4 separate) frame of None \<Rightarrow> Err ErrAuthentication
          | Some body \<Rightarrow>
            if length body < 19 \<or> body ! 0 \<noteq> 1 \<or> \<not> timestampValid (be64_of (seg body 1 9)) now
              \<or> be64_of (seg body 9 17) \<noteq> expectedClientSessionID then Err ErrReplay
            else rbind (openPaddedBody lib body 17) (\<lambda>(target, payload).
              Ok (zeroRequest\<lparr> px_target := target, px_payload := payload, px_replayToken := separate,
                px_sessionID := be64_of (take 8 separate), px_packetID := be64_of (drop 8 separate) \<rparr>))))))"

definition SealUDPPacket ::
  "ssLib \<Rightarrow> protocolEngine \<Rightarrow> wire \<Rightarrow> u64 \<Rightarrow> string \<Rightarrow> wire \<Rightarrow> int \<Rightarrow> wire \<Rightarrow> wire ss" where
  "SealUDPPacket lib e saltOrSession packetID target payload now padding =
     rbind (keysSnapshot e) (\<lambda>(key, identity).
       if pe_modern e then seal2022UDP lib e key identity saltOrSession packetID target payload now padding
       else if length padding \<noteq> 0 \<or> packetID \<noteq> 0 \<or> length saltOrSession \<noteq> pe_keyLen e then Err ErrProtocol
       else sealLegacyUDP lib e key saltOrSession target payload)"

definition OpenUDPPacket :: "ssLib \<Rightarrow> protocolEngine \<Rightarrow> wire \<Rightarrow> int \<Rightarrow> proxyRequest ss" where
  "OpenUDPPacket lib e wire now =
     rbind (keysSnapshot e) (\<lambda>(key, identity).
       if pe_modern e then open2022UDP lib e key identity wire now else openLegacyUDP lib e key wire)"

definition SealUDPResponse ::
  "ssLib \<Rightarrow> protocolEngine \<Rightarrow> wire \<Rightarrow> u64 \<Rightarrow> u64 \<Rightarrow> string \<Rightarrow> wire \<Rightarrow> int \<Rightarrow> wire \<Rightarrow> wire ss" where
  "SealUDPResponse lib e responseSalt packetID clientSessionID target payload now padding =
     rbind (keysSnapshot e) (\<lambda>(key, _).
       if \<not> pe_modern e then
         (if length responseSalt \<noteq> pe_keyLen e \<or> packetID \<noteq> 0 \<or> clientSessionID \<noteq> 0 \<or> length padding \<noteq> 0 then Err ErrProtocol
          else sealLegacyUDP lib e key responseSalt target payload)
       else seal2022UDPResponse lib e key responseSalt packetID clientSessionID target payload now padding)"

definition OpenUDPResponse :: "ssLib \<Rightarrow> protocolEngine \<Rightarrow> wire \<Rightarrow> int \<Rightarrow> u64 \<Rightarrow> proxyRequest ss" where
  "OpenUDPResponse lib e wire now expectedClientSessionID =
     rbind (keysSnapshot e) (\<lambda>(key, _).
       if \<not> pe_modern e then openLegacyUDP lib e key wire
       else open2022UDPResponse lib e key wire now expectedClientSessionID)"

end
