(* ===== verification/SS_Roundtrip.thy ===== *)
theory SS_Roundtrip
  imports SS_Protocol
begin

text \<open>
  What is sealed opens again: addresses, TCP requests and UDP packets. The laws assumed of the
  cryptographic library are collected in \<open>cryptoLaws\<close>: GCM opens what it sealed and adds sixteen bytes,
  and AES decryption inverts encryption of a block. \<open>netLaws\<close> says that a parsed IPv6 address has sixteen
  bytes.
\<close>

definition cryptoLaws :: "ssLib \<Rightarrow> bool" where
  "cryptoLaws lib \<longleftrightarrow>
     (\<forall>k n p. aesKey k \<longrightarrow> length n = 12 \<longrightarrow>
        ss_open lib k n (ss_seal lib k n p) = Some p \<and> length (ss_seal lib k n p) = length p + 16)
     \<and> (\<forall>k b. aesKey k \<longrightarrow> length b = 16 \<longrightarrow> ss_decrypt lib k (ss_encrypt lib k b) = b \<and> length (ss_encrypt lib k b) = 16)"

definition netLaws :: "ssLib \<Rightarrow> bool" where
  "netLaws lib \<longleftrightarrow> (\<forall>s b z. nl_parseIPv6 (ss_net lib) s = Some (b, z) \<longrightarrow> length b = 16)"

section \<open>Bytes\<close>

lemma bytesText_textBytes [simp]: "bytesText (textBytes s) = s"
proof (induction s)
  case (Cons c s)
  have "(of_char c :: nat) < 256" by simp
  then have "unat (word_of_nat (of_char c) :: byte) = of_char c"
    by (intro unat_word_of_nat) simp
  with Cons show ?case by (simp add: bytesText_def textBytes_def)
qed (simp add: bytesText_def textBytes_def)

lemma length_textBytes [simp]: "length (textBytes s) = length s"
  by (simp add: textBytes_def)

lemma length_lengthBytes [simp]: "length (lengthBytes n) = 2"
  by (simp add: lengthBytes_def)

lemma be16_of_lengthBytes [simp]: "n < 65536 \<Longrightarrow> unat (be16_of (lengthBytes n)) = n"
  by (simp add: lengthBytes_def unat_word_of_nat)

lemma length_be64_bytes [simp]: "length (be64_bytes w) = 8"
  by (simp add: be64_bytes_def)

lemma be64_of_bytes [simp]: "be64_of (be64_bytes w) = w"
proof -
  have "take_bit 64 (uint w) = uint w"
    using unsigned_less [of w] by (intro take_bit_int_eq_self) auto
  then have "uint (ucast (drop_bit k w) :: byte) = take_bit 8 (drop_bit k (uint w))" for k
    by (simp add: unsigned_ucast_eq unsigned_drop_bit_eq)
  moreover have "take_bit 8 (drop_bit k x) = x div 2 ^ k mod 256" for k and x :: int
    by (simp add: take_bit_eq_mod drop_bit_eq_div)
  ultimately have bytes: "uint (ucast (drop_bit k w) :: byte) = uint w div 2 ^ k mod 256" for k
    by simp
  have join: "uint w div (256 * m) * 256 + uint w div m mod 256 = uint w div m" if "0 < m" for m :: int
    using zdiv_zmult2_eq [of 256 "uint w" m] div_mult_mod_eq [of "uint w div m" 256] that by (simp add: mult.commute)
  have "0 \<le> uint w" "uint w < 2 ^ 64" using unsigned_less [of w] by auto
  then have top: "uint w div 72057594037927936 mod 256 = uint w div 72057594037927936" by (intro mod_pos_pos_trivial) (auto simp: pos_imp_zdiv_nonneg_iff)
  show ?thesis
    using join [of 1] join [of "2 ^ 8"] join [of "2 ^ 16"] join [of "2 ^ 24"] join [of "2 ^ 32"] join [of "2 ^ 40"]
      join [of "2 ^ 48"] top
    by (simp add: be64_of_def be64_bytes_def bytes [of 56, simplified] bytes [of 48, simplified] bytes [of 40, simplified]
      bytes [of 32, simplified] bytes [of 24, simplified] bytes [of 16, simplified] bytes [of 8, simplified] bytes [of 0, simplified])
qed

section \<open>Addresses\<close>

text \<open>The address the server sees: a host that is an IP address in its canonical text.\<close>

definition canonicalHost :: "ssLib \<Rightarrow> string \<Rightarrow> string" where
  "canonicalHost lib host = (case parseIP (ss_net lib) host of Some ip \<Rightarrow> ipString (ss_net lib) ip | None \<Rightarrow> host)"

definition canonicalTarget :: "ssLib \<Rightarrow> string \<Rightarrow> string" where
  "canonicalTarget lib target = (case splitHostPort target of None \<Rightarrow> target
     | Some (host, port) \<Rightarrow> joinHostPort (canonicalHost lib host) (itoa (digitsValue port)))"

lemma length_to4: "to4 ip = Some b \<Longrightarrow> length b = 4"
  by (auto simp: to4_def split: if_splits)

lemma length_those: "those xs = Some ys \<Longrightarrow> length ys = length xs"
  by (induction xs arbitrary: ys) (auto split: option.splits)

lemma length_parseIP:
  assumes "netLaws lib" "parseIP (ss_net lib) host = Some ip"
  shows "length ip = 16"
proof -
  have "length b = 4" if "parseIPv4 host = Some b" for b
    using that length_those by (fastforce simp: parseIPv4_def Let_def split: if_splits)
  with assms show ?thesis
    by (auto simp: parseIP_def parseAddr_def netLaws_def v4InV6Prefix_def split: option.splits if_splits netAddr.splits)
qed

lemma ipString_to4: "to4 ip = Some b \<Longrightarrow> ipString lib b = ipString lib ip"
  using length_to4 [of ip b] by (simp add: ipString_def to4_def)

lemma decode_encode:
  assumes laws: "netLaws lib" and enc: "encodeAddress lib target = Ok a"
  shows "decodeAddress lib (a @ rest) = Ok (canonicalTarget lib target, length a)"
proof -
  obtain host portText port where split: "splitHostPort target = Some (host, portText)"
    and port: "parseUint16 portText = Some port" "port \<noteq> 0"
    using enc by (auto simp: encodeAddress_def split: option.splits if_splits)
  have number: "port = digitsValue portText" "port < 65536"
    using port(1) by (auto simp: parseUint16_def split: if_splits)
  have word: "be16_of (be16_bytes (word_of_nat port)) = word_of_nat port" "unat (word_of_nat port :: u16) = port"
    using number(2) by (simp_all add: unat_word_of_nat)
  then have nz: "(word_of_nat port :: u16) \<noteq> 0" using port(2) by force
  have target: "canonicalTarget lib target = joinHostPort (canonicalHost lib host) (itoa port)"
    using split number(1) by (simp add: canonicalTarget_def)
  have finish: ?thesis if "decodeHost lib (x @ be16_bytes (word_of_nat port) @ rest) = Ok (canonicalHost lib host, length x)"
      and "a = x @ be16_bytes (word_of_nat port)" and "x \<noteq> []" for x
    using that target nz word by (simp add: decodeAddress_def seg_def)
  show ?thesis
  proof (cases "parseIP (ss_net lib) host")
    case None
    then have host: "length host \<noteq> 0" "length host \<le> 255" "\<not> hostBytesForbidden host"
      and a: "a = (3 # word_of_nat (length host) # textBytes host) @ be16_bytes (word_of_nat port)"
      using enc split port by (auto simp: encodeAddress_def split: if_splits)
    have "unat (word_of_nat (length host) :: byte) = length host"
      using host(2) by (intro unat_word_of_nat) simp
    then show ?thesis
      using host None by (intro finish [OF _ a]) (auto simp: decodeHost_def Let_def canonicalHost_def)
  next
    case (Some ip)
    show ?thesis
    proof (cases "to4 ip")
      case None
      then have a: "a = (4 # ip) @ be16_bytes (word_of_nat port)"
        using enc split port Some by (simp add: encodeAddress_def)
      show ?thesis
        using length_parseIP [OF laws Some] Some by (intro finish [OF _ a]) (auto simp: decodeHost_def canonicalHost_def)
    next
      case (Some b)
      then have a: "a = (1 # b) @ be16_bytes (word_of_nat port)"
        using enc split port \<open>parseIP (ss_net lib) host = Some ip\<close> by (simp add: encodeAddress_def)
      show ?thesis
        using length_to4 [OF Some] ipString_to4 [OF Some] \<open>parseIP (ss_net lib) host = Some ip\<close>
        by (intro finish [OF _ a]) (auto simp: decodeHost_def canonicalHost_def)
    qed
  qed
qed

lemma length_encodeAddress:
  assumes "netLaws lib" "encodeAddress lib target = Ok a"
  shows "5 \<le> length a" "length a \<le> 259"
proof -
  have "length a \<ge> 5 \<and> length a \<le> 259"
    using assms(2) length_parseIP [OF assms(1)]
    by (auto simp: encodeAddress_def length_to4 Suc_le_eq split: option.splits if_splits)
  then show "5 \<le> length a" "length a \<le> 259" by auto
qed

section \<open>Frames\<close>

lemma length_incrementNonce [simp]: "length (incrementNonce n) = length n"
  by (induction n) auto

definition cipherOk :: "streamCipher \<Rightarrow> bool" where
  "cipherOk s \<longleftrightarrow> aesKey (sc_key s) \<and> length (sc_nonce s) = 12"

lemma newSession_ok: "newSession lib e master salt = Ok s \<Longrightarrow> cipherOk s \<and> length salt = pe_keyLen e"
  by (auto simp: newSession_def cipherOk_def split: if_splits)

definition advance :: "streamCipher \<Rightarrow> streamCipher" where
  "advance s = s\<lparr> sc_nonce := incrementNonce (sc_nonce s) \<rparr>"

lemma cipherOk_advance [simp]: "cipherOk (advance s) = cipherOk s"
  by (simp add: cipherOk_def advance_def)

definition sealed :: "ssLib \<Rightarrow> streamCipher \<Rightarrow> wire \<Rightarrow> wire" where
  "sealed lib s p = ss_seal lib (sc_key s) (sc_nonce s) p"

lemma sealFrame_eq: "sealFrame lib s p = (sealed lib s p, advance s)"
  by (simp add: sealFrame_def sealed_def advance_def)

lemma open_sealed [simp]: "cryptoLaws lib \<Longrightarrow> cipherOk s \<Longrightarrow> openFrame lib s (sealed lib s p) = Ok (p, advance s)"
  by (simp add: openFrame_def sealed_def cryptoLaws_def cipherOk_def advance_def)

lemma length_sealed [simp]: "cryptoLaws lib \<Longrightarrow> cipherOk s \<Longrightarrow> length (sealed lib s p) = length p + 16"
  by (simp add: sealed_def cryptoLaws_def cipherOk_def)

section \<open>TCP requests\<close>

text \<open>
  The stored bytes of a request in its three parts; every proper prefix of at least the minimal length
  contains the header.
\<close>

lemma slice_parts:
  "slice (a @ b) 0 (length a) = Ok a" "slice (a @ b @ c) (length a) (length a + length b) = Ok b"
  by simp_all

lemma openLegacy_sealed:
  assumes laws: "cryptoLaws lib" "netLaws lib" and seal: "sealLegacyTCP lib e key salt target payload = Ok wire"
  shows "\<exists>s. newSession lib e key salt = Ok s \<and>
    openLegacyTCP lib e key (wire @ rest) =
      Ok (zeroRequest\<lparr> px_target := canonicalTarget lib target, px_payload := payload, px_replayToken := salt \<rparr>,
        \<lparr> ts_engine = e, ts_key = key, ts_inbound = Some (advance (advance s)), ts_outbound = None, ts_requestSalt = salt,
          ts_leftover = rest, ts_modern = False, ts_closed = False \<rparr>)
    \<and> (\<forall>n < length wire. openLegacyTCP lib e key (take n wire) = Err ErrProtocol)"
proof -
  obtain a s where a: "encodeAddress lib target = Ok a" "length a + length payload \<le> maxLegacyPayload"
    and s: "newSession lib e key salt = Ok s"
    and wire: "wire = salt @ sealed lib s (lengthBytes (length (a @ payload))) @ sealed lib (advance s) (a @ payload)"
    using seal by (auto simp: sealLegacyTCP_def sealFrame_eq Let_def split: res.splits if_splits)
  have ok: "cipherOk s" and salt: "length salt = pe_keyLen e" using newSession_ok [OF s] by auto
  let ?n = "length (a @ payload)"
  let ?h = "sealed lib s (lengthBytes ?n)" and ?b = "sealed lib (advance s) (a @ payload)"
  have n: "5 \<le> ?n" "?n \<le> maxLegacyPayload" "?n < 65536"
    using a(2) length_encodeAddress [OF laws(2) a(1)] by (auto simp: maxLegacyPayload_def)
  have len: "length ?h = 18" "length ?b = ?n + 16" using laws ok by simp_all
  have "openLegacyTCP lib e key (wire @ rest) =
      Ok (zeroRequest\<lparr> px_target := canonicalTarget lib target, px_payload := payload, px_replayToken := salt \<rparr>,
        \<lparr> ts_engine = e, ts_key = key, ts_inbound = Some (advance (advance s)), ts_outbound = None, ts_requestSalt = salt,
          ts_leftover = rest, ts_modern = False, ts_closed = False \<rparr>)"
    using laws s ok salt n len a(1) decode_encode [OF laws(2) a(1), of payload]
    by (auto simp: openLegacyTCP_def wire gcmOverhead_def Let_def)
  moreover have "openLegacyTCP lib e key (take m wire) = Err ErrProtocol" if "m < length wire" for m
  proof (cases "m < pe_keyLen e + 34")
    case True
    then show ?thesis using that by (simp add: openLegacyTCP_def)
  next
    case False
    define k where "k = m - (pe_keyLen e + 18)"
    with False have k: "m = pe_keyLen e + 18 + k" by simp
    have "take m wire = salt @ ?h @ take k ?b" using salt len k by (simp add: wire)
    moreover have "k < ?n + 16" using that k salt len by (simp add: wire)
    ultimately show ?thesis
      using laws s ok salt n len False that k
      by (simp add: openLegacyTCP_def gcmOverhead_def Let_def)
  qed
  ultimately show ?thesis using s by blast
qed

text \<open>The clock of the server at the time of opening may differ from the client's by thirty seconds.\<close>

definition clocksAgree :: "int \<Rightarrow> int \<Rightarrow> bool" where
  "clocksAgree now now' \<longleftrightarrow> 0 \<le> now \<and> now < 2 ^ 63 \<and> 0 \<le> now' \<and> now' < 2 ^ 63 - 30 \<and> now' - 30 \<le> now \<and> now \<le> now' + 30"

lemma wrap64_small: "- (2 ^ 63) \<le> x \<Longrightarrow> x < 2 ^ 63 \<Longrightarrow> wrap64 x = x"
  by (simp add: wrap64_def signed_of_int signed_take_bit_int_eq_self)

lemma timestampValid_agree: "clocksAgree now now' \<Longrightarrow> timestampValid (word_of_int now) now'"
  by (simp add: timestampValid_def clocksAgree_def wrap64_small uint_word_of_int take_bit_eq_mod)

lemma identity_sealed:
  assumes "cryptoLaws lib" "seal2022Identity lib identity key salt = Ok header"
  shows "length header = ss2022IdentityOverhead identity"
    and "identity \<noteq> [] \<Longrightarrow> open2022Identity lib identity key salt header = Ok ()"
proof -
  have *: "length header = ss2022IdentityOverhead identity \<and> (identity \<noteq> [] \<longrightarrow> open2022Identity lib identity key salt header = Ok ())"
  proof (cases "identity = []")
    case True
    with assms show ?thesis by (simp add: seal2022Identity_def ss2022IdentityOverhead_def)
  next
    case False
    with assms(2) obtain plain k where m: "ss2022TCPIdentityMaterial identity key salt = Ok (plain, k)" "aesKey k"
      "header = ss_encrypt lib k plain"
      by (auto simp: seal2022Identity_def split: if_splits)
    have "length plain = 16"
      using m(1) by (auto simp: ss2022TCPIdentityMaterial_def ss2022IdentityHash_def ss2022IdentitySize_def
        split: if_splits option.splits dest: length_blake3OneBlockDigest)
    with m assms(1) have "length header = 16" by (simp add: cryptoLaws_def)
    with m False show ?thesis
      by (simp add: open2022Identity_def ss2022IdentityOverhead_def ss2022IdentitySize_def)
  qed
  then show "length header = ss2022IdentityOverhead identity"
    and "identity \<noteq> [] \<Longrightarrow> open2022Identity lib identity key salt header = Ok ()" by auto
qed

text \<open>The variable header of a request.\<close>

lemma openVariable_sealed:
  assumes laws: "netLaws lib" and a: "encodeAddress lib target = Ok a"
    and pad: "length padding \<le> max2022Padding" "length padding + length payload \<noteq> 0"
  shows "open2022Variable lib (a @ lengthBytes (length padding) @ padding @ payload) = Ok (canonicalTarget lib target, payload)"
proof -
  have "length padding < 65536" using pad(1) by (simp add: max2022Padding_def)
  then show ?thesis
    using pad decode_encode [OF laws a, of "lengthBytes (length padding) @ padding @ payload"]
    by (auto simp: open2022Variable_def Let_def seg_def)
qed

lemma seg_fixed:
  "length x = 8 \<Longrightarrow> length y = 2 \<Longrightarrow> seg (b # x @ y) (Suc 0) 9 = x"
  "length x = 8 \<Longrightarrow> length y = 2 \<Longrightarrow> seg (b # x @ y) 9 11 = y"
  by (simp_all add: seg_def numeral_eq_Suc)

lemma open2022_sealed:
  assumes laws: "cryptoLaws lib" "netLaws lib" and time: "clocksAgree now now'"
    and seal: "seal2022TCP lib e key identity salt target payload now padding = Ok wire"
  shows "\<exists>s. newSession lib e key salt = Ok s \<and>
    open2022TCP lib e key identity (wire @ rest) now' =
      Ok (zeroRequest\<lparr> px_target := canonicalTarget lib target, px_payload := payload, px_replayToken := salt \<rparr>,
        \<lparr> ts_engine = e, ts_key = key, ts_inbound = Some (advance (advance s)), ts_outbound = None, ts_requestSalt = salt,
          ts_leftover = rest, ts_modern = True, ts_closed = False \<rparr>)
    \<and> (\<forall>n < length wire. open2022TCP lib e key identity (take n wire) now' = Err ErrProtocol)"
proof -
  let ?v = "\<lambda>a. a @ lengthBytes (length padding) @ padding @ payload"
  let ?f = "\<lambda>a. 0 # be64_bytes (word_of_int now) @ lengthBytes (length (?v a))"
  obtain a s header where a: "encodeAddress lib target = Ok a" "length padding \<le> max2022Padding"
      "length a + 2 + length padding + length payload \<le> max2022Payload" "length padding + length payload \<noteq> 0"
    and s: "newSession lib e key salt = Ok s" and header: "seal2022Identity lib identity key salt = Ok header"
    and wire: "wire = salt @ header @ sealed lib s (?f a) @ sealed lib (advance s) (?v a)"
    using seal by (auto simp: seal2022TCP_def sealFrame_eq Let_def split: res.splits if_splits)
  have ok: "cipherOk s" and salt: "length salt = pe_keyLen e" using newSession_ok [OF s] by auto
  note ident = identity_sealed [OF laws(1) header]
  let ?n = "length (?v a)" and ?o = "ss2022IdentityOverhead identity"
  let ?h = "sealed lib s (?f a)" and ?b = "sealed lib (advance s) (?v a)"
  have n: "7 \<le> ?n" "?n < 65536"
    using a(3) length_encodeAddress [OF laws(2) a(1)] by (auto simp: max2022Payload_def)
  have len: "length ?h = 27" "length ?b = ?n + 16" using laws ok by simp_all
  have stamp: "be64_of (seg (?f a) (Suc 0) 9) = word_of_int now" "unat (be16_of (seg (?f a) 9 11)) = ?n"
    "timestampValid (word_of_int now) now'"
    using n by (simp_all add: seg_fixed timestampValid_agree [OF time])
  have id0: "identity \<noteq> [] \<longleftrightarrow> 0 < ?o" "0 < ?o \<Longrightarrow> ?o = 16" "?o \<noteq> 0 \<Longrightarrow> ?o = 16"
    by (auto simp: ss2022IdentityOverhead_def ss2022IdentitySize_def)
  have v: "open2022Variable lib (?v a) = Ok (canonicalTarget lib target, payload)"
    by (rule openVariable_sealed [OF laws(2) a(1,2,4)])
  have open_head: "open2022TCP lib e key identity (salt @ header @ ?h @ tail) now' =
      (let frameEnd = pe_keyLen e + ?o + 27 + ?n + 16; w = salt @ header @ ?h @ tail in
       if length w < frameEnd then Err ErrProtocol
       else rbind (openFrame lib (advance s) (take (?n + 16) tail)) (\<lambda>(variable, s2).
         rbind (open2022Variable lib variable) (\<lambda>(target, payload).
           Ok (zeroRequest\<lparr> px_target := target, px_payload := payload, px_replayToken := salt \<rparr>,
             \<lparr> ts_engine = e, ts_key = key, ts_inbound = Some s2, ts_outbound = None, ts_requestSalt = salt,
               ts_leftover = drop frameEnd w, ts_modern = True, ts_closed = False \<rparr>))))"
    if "16 \<le> length tail" for tail
  proof -
    have "open2022Identity lib identity key salt header = Ok ()" if "?o \<noteq> 0"
      using that id0 ident(2) by simp
    moreover have "length header = ?o" by (rule ident(1))
    ultimately show ?thesis
      using that laws s ok salt n len stamp id0
      unfolding open2022TCP_def
      by (auto simp: Let_def ss2022IdentitySize_def)
  qed
  have "open2022TCP lib e key identity (wire @ rest) now' =
      Ok (zeroRequest\<lparr> px_target := canonicalTarget lib target, px_payload := payload, px_replayToken := salt \<rparr>,
        \<lparr> ts_engine = e, ts_key = key, ts_inbound = Some (advance (advance s)), ts_outbound = None, ts_requestSalt = salt,
          ts_leftover = rest, ts_modern = True, ts_closed = False \<rparr>)"
    using open_head [of "?b @ rest"] laws ok salt n len v ident(1) by (simp add: wire Let_def)
  moreover have "open2022TCP lib e key identity (take m wire) now' = Err ErrProtocol" if m: "m < length wire" for m
  proof (cases "m < pe_keyLen e + ?o + 43")
    case True
    then show ?thesis using m by (simp add: open2022TCP_def Let_def)
  next
    case False
    define k where "k = m - (pe_keyLen e + ?o + 27)"
    with False have k: "m = pe_keyLen e + ?o + 27 + k" "16 \<le> k" by simp_all
    have "take m wire = salt @ header @ ?h @ take k ?b" using salt len k ident(1) by (simp add: wire)
    moreover have "k < ?n + 16" using m k salt len ident(1) by (simp add: wire)
    ultimately show ?thesis using open_head [of "take k ?b"] len k salt ident(1) by (simp add: Let_def)
  qed
  ultimately show ?thesis using s by blast
qed

text \<open>Both protocols: the session the server opens for a request.\<close>

definition openedSession :: "protocolEngine \<Rightarrow> wire \<Rightarrow> streamCipher \<Rightarrow> wire \<Rightarrow> tcpServerSession" where
  "openedSession e salt s rest =
     \<lparr> ts_engine = e, ts_key = pe_key e, ts_inbound = Some (advance (advance s)), ts_outbound = None, ts_requestSalt = salt,
       ts_leftover = rest, ts_modern = pe_modern e, ts_closed = False \<rparr>"

lemma keysSnapshot_Ok: "keysSnapshot e = Ok k \<longleftrightarrow> k = (pe_key e, pe_identity e) \<and> keysSnapshot e \<noteq> Err ErrRevoked"
  by (auto simp: keysSnapshot_def)

lemma open_sealed_request:
  assumes laws: "cryptoLaws lib" "netLaws lib" and time: "clocksAgree now now'"
    and seal: "SealTCPRequest lib e salt target payload now padding = Ok wire"
  obtains s where "newSession lib e (pe_key e) salt = Ok s"
    and "\<And>rest. OpenTCPServerSession lib e (wire @ rest) now' =
      Ok (zeroRequest\<lparr> px_target := canonicalTarget lib target, px_payload := payload, px_replayToken := salt \<rparr>,
          openedSession e salt s rest)"
    and "\<And>n. n < length wire \<Longrightarrow> OpenTCPServerSession lib e (take n wire) now' = Err ErrProtocol"
proof -
  have keys: "keysSnapshot e = Ok (pe_key e, pe_identity e)"
    using seal by (auto simp: SealTCPRequest_def keysSnapshot_def split: if_splits)
  obtain s where s: "newSession lib e (pe_key e) salt = Ok s"
    using seal keys by (auto simp: SealTCPRequest_def seal2022TCP_def sealLegacyTCP_def Let_def split: if_splits res.splits)
  show thesis
  proof (cases "pe_modern e")
    case True
    with seal keys have w: "seal2022TCP lib e (pe_key e) (pe_identity e) salt target payload now padding = Ok wire"
      by (auto simp: SealTCPRequest_def split: if_splits)
    show thesis
      using open2022_sealed [OF laws time w] s True
      by (intro that [OF s]) (auto simp: OpenTCPServerSession_def keys openedSession_def)
  next
    case False
    with seal keys have w: "sealLegacyTCP lib e (pe_key e) salt target payload = Ok wire"
      by (auto simp: SealTCPRequest_def split: if_splits)
    show thesis
      using openLegacy_sealed [OF laws w] s False
      by (intro that [OF s]) (auto simp: OpenTCPServerSession_def keys openedSession_def)
  qed
qed

section \<open>UDP packets\<close>

lemma openLegacyUDP_sealed:
  assumes laws: "cryptoLaws lib" "netLaws lib" and seal: "sealLegacyUDP lib e key salt target payload = Ok wire"
  shows "openLegacyUDP lib e key wire =
    Ok (zeroRequest\<lparr> px_target := canonicalTarget lib target, px_payload := payload, px_replayToken := salt \<rparr>)"
proof -
  obtain a s where a: "encodeAddress lib target = Ok a" "pe_keyLen e + 16 + length a + length payload \<le> maxUDPPacket"
    and s: "newSession lib e key salt = Ok s" and wire: "wire = salt @ sealed lib s (a @ payload)"
    using seal by (auto simp: sealLegacyUDP_def sealFrame_eq split: res.splits if_splits)
  have ok: "cipherOk s" and salt: "length salt = pe_keyLen e" using newSession_ok [OF s] by auto
  show ?thesis
    using laws s ok salt a(2) length_encodeAddress [OF laws(2) a(1)] decode_encode [OF laws(2) a(1), of payload]
    by (auto simp: openLegacyUDP_def wire)
qed

lemma openPaddedBody_sealed:
  assumes laws: "netLaws lib" and a: "encodeAddress lib target = Ok a" and pad: "length padding \<le> max2022Padding"
    and head: "length head = start"
  shows "openPaddedBody lib (head @ lengthBytes (length padding) @ padding @ a @ payload) start = Ok (canonicalTarget lib target, payload)"
proof -
  have "length padding < 65536" using pad by (simp add: max2022Padding_def)
  then show ?thesis
    using pad head decode_encode [OF laws a, of payload]
    by (auto simp: openPaddedBody_def Let_def seg_def)
qed

lemma packetSubkey_ok: "packetSubkey e key session = Ok k \<Longrightarrow> aesKey k"
  by (auto simp: packetSubkey_def split: option.splits if_splits)

lemma udpIdentity_sealed:
  assumes "cryptoLaws lib" "seal2022UDPIdentity lib identity key separate = Ok header"
  shows "length header = ss2022IdentityOverhead identity"
    and "identity \<noteq> [] \<Longrightarrow> open2022UDPIdentity lib identity key separate header = Ok ()"
proof -
  have *: "length header = ss2022IdentityOverhead identity
      \<and> (identity \<noteq> [] \<longrightarrow> open2022UDPIdentity lib identity key separate header = Ok ())"
  proof (cases "identity = []")
    case True
    with assms show ?thesis by (simp add: seal2022UDPIdentity_def ss2022IdentityOverhead_def)
  next
    case False
    with assms(2) obtain plain where m: "ss2022UDPIdentityMaterial key separate = Ok plain" "aesKey identity"
      "header = ss_encrypt lib identity plain"
      by (auto simp: seal2022UDPIdentity_def split: if_splits)
    have "length plain = 16"
      using m(1) by (auto simp: ss2022UDPIdentityMaterial_def ss2022IdentityHash_def ss2022IdentitySize_def
        split: if_splits option.splits dest: length_blake3OneBlockDigest)
    with m assms(1) have "length header = 16" by (simp add: cryptoLaws_def)
    with m False show ?thesis
      by (simp add: open2022UDPIdentity_def ss2022IdentityOverhead_def ss2022IdentitySize_def)
  qed
  then show "length header = ss2022IdentityOverhead identity"
    and "identity \<noteq> [] \<Longrightarrow> open2022UDPIdentity lib identity key separate header = Ok ()" by auto
qed

lemma seg_body:
  "length x = 8 \<Longrightarrow> seg (b # x @ y) (Suc 0) 9 = x"
  "length x = 8 \<Longrightarrow> length z = 8 \<Longrightarrow> seg (b # x @ z @ y) 9 17 = z"
  by (simp_all add: seg_def numeral_eq_Suc)

lemma open2022UDP_sealed:
  assumes laws: "cryptoLaws lib" "netLaws lib" and time: "clocksAgree now now'"
    and seal: "seal2022UDP lib e key identity sessionID packetID target payload now padding = Ok wire"
  shows "open2022UDP lib e key identity wire now' =
    Ok (zeroRequest\<lparr> px_target := canonicalTarget lib target, px_payload := payload,
      px_replayToken := sessionID @ be64_bytes packetID, px_sessionID := be64_of sessionID, px_packetID := packetID \<rparr>)"
proof -
  let ?p = "if length identity \<noteq> 0 then identity else key" and ?sep = "sessionID @ be64_bytes packetID"
  let ?body = "\<lambda>a. 0 # be64_bytes (word_of_int now) @ lengthBytes (length padding) @ padding @ a @ payload"
  obtain a k header where a: "encodeAddress lib target = Ok a" "length sessionID = 8" "length padding \<le> max2022Padding"
      "16 + 16 + 11 + length padding + length a + length payload + ss2022IdentityOverhead identity \<le> maxUDPPacket"
    and k: "packetSubkey e key sessionID = Ok k" "aesKey ?p"
    and header: "seal2022UDPIdentity lib identity key ?sep = Ok header"
    and wire: "wire = ss_encrypt lib ?p ?sep @ header @ ss_seal lib k (drop 4 ?sep) (?body a)"
    using seal by (auto simp: seal2022UDP_def Let_def split: res.splits if_splits)
  have block: "ss_decrypt lib ?p (ss_encrypt lib ?p ?sep) = ?sep" "length (ss_encrypt lib ?p ?sep) = 16"
    using laws(1) k(2) a(2) by (simp_all add: cryptoLaws_def)
  have frame: "ss_open lib k (drop 4 ?sep) (ss_seal lib k (drop 4 ?sep) (?body a)) = Some (?body a)"
    "length (ss_seal lib k (drop 4 ?sep) (?body a)) = length (?body a) + 16"
    using laws(1) packetSubkey_ok [OF k(1)] a(2) by (simp_all add: cryptoLaws_def)
  have stamp: "be64_of (seg (?body a) (Suc 0) 9) = word_of_int now" "timestampValid (word_of_int now) now'"
    by (simp_all add: seg_body timestampValid_agree [OF time])
  have rest: "openPaddedBody lib (?body a) 9 = Ok (canonicalTarget lib target, payload)"
    using openPaddedBody_sealed [OF laws(2) a(1,3), of "0 # be64_bytes (word_of_int now)" 9 payload] by simp
  note ident = udpIdentity_sealed [OF laws(1) header]
  have overhead: "ss2022IdentityOverhead identity = (if identity = [] then 0 else 16)"
    by (simp add: ss2022IdentityOverhead_def ss2022IdentitySize_def)
  define c f where cf: "c = ss_encrypt lib ?p ?sep" "f = ss_seal lib k (drop 4 ?sep) (?body a)"
  have w: "wire = c @ header @ f" and lc: "length c = 16" and lf: "length f = length (?body a) + 16"
    and dec: "ss_decrypt lib ?p c = ?sep" and opn: "ss_open lib k (drop 4 ?sep) f = Some (?body a)"
    using wire block frame cf by simp_all
  have bounds: "length wire \<le> maxUDPPacket" "46 + ss2022IdentityOverhead identity \<le> length wire"
    using w lc lf ident(1) a(2,4) length_encodeAddress [OF laws(2) a(1)] by simp_all
  show ?thesis
  proof (cases "identity = []")
    case True
    then have "header = []" using ident(1) overhead by simp
    with True show ?thesis
      using bounds w lc lf dec opn k a(2) stamp rest overhead
      by (simp add: open2022UDP_def Let_def)
  next
    case False
    then have "length header = 16" "open2022UDPIdentity lib identity key ?sep header = Ok ()" using ident overhead by simp_all
    with False show ?thesis
      using bounds w lc lf dec opn k a(2) stamp rest overhead
      by (simp add: open2022UDP_def Let_def)
  qed
qed

lemma open2022UDPResponse_sealed:
  assumes laws: "cryptoLaws lib" "netLaws lib" and time: "clocksAgree now now'"
    and seal: "seal2022UDPResponse lib e key serverID packetID clientID target payload now padding = Ok wire"
  shows "open2022UDPResponse lib e key wire now' expected =
    (if expected \<noteq> clientID then Err ErrReplay
     else Ok (zeroRequest\<lparr> px_target := canonicalTarget lib target, px_payload := payload,
       px_replayToken := serverID @ be64_bytes packetID, px_sessionID := be64_of serverID, px_packetID := packetID \<rparr>))"
proof -
  let ?sep = "serverID @ be64_bytes packetID"
  let ?body = "\<lambda>a. 1 # be64_bytes (word_of_int now) @ be64_bytes clientID @ lengthBytes (length padding) @ padding @ a @ payload"
  obtain a k where a: "encodeAddress lib target = Ok a" "length serverID = 8" "length padding \<le> max2022Padding"
      "16 + 16 + 19 + length padding + length a + length payload \<le> maxUDPPacket"
    and k: "packetSubkey e key serverID = Ok k" "aesKey key"
    and wire: "wire = ss_encrypt lib key ?sep @ ss_seal lib k (drop 4 ?sep) (?body a)"
    using seal by (auto simp: seal2022UDPResponse_def Let_def split: res.splits if_splits)
  define c f where cf: "c = ss_encrypt lib key ?sep" "f = ss_seal lib k (drop 4 ?sep) (?body a)"
  have w: "wire = c @ f" and lc: "length c = 16" and lf: "length f = length (?body a) + 16"
    and dec: "ss_decrypt lib key c = ?sep" and opn: "ss_open lib k (drop 4 ?sep) f = Some (?body a)"
    using wire cf laws(1) k(2) packetSubkey_ok [OF k(1)] a(2) by (simp_all add: cryptoLaws_def)
  have stamp: "be64_of (seg (?body a) (Suc 0) 9) = word_of_int now" "timestampValid (word_of_int now) now'"
    "be64_of (seg (?body a) 9 17) = clientID"
    by (simp_all add: seg_body timestampValid_agree [OF time])
  have rest: "openPaddedBody lib (?body a) 17 = Ok (canonicalTarget lib target, payload)"
    using openPaddedBody_sealed [OF laws(2) a(1,3), of "1 # be64_bytes (word_of_int now) @ be64_bytes clientID" 17 payload] by simp
  have bounds: "length wire \<le> maxUDPPacket" "54 \<le> length wire"
    using w lc lf a(2,4) length_encodeAddress [OF laws(2) a(1)] by simp_all
  show ?thesis
    using bounds w lc lf dec opn k a(2) stamp rest by (simp add: open2022UDPResponse_def Let_def)
qed

section \<open>A library for examples\<close>

text \<open>A cipher that appends the key as its tag and masks blocks with it satisfies the laws.\<close>

definition sampleLib :: ssLib where
  "sampleLib = \<lparr> ss_net = \<lparr> nl_parseIPv6 = (\<lambda>_. None), nl_ipv6String = (\<lambda>_. []) \<rparr>,
     ss_seal = (\<lambda>k n p. p @ take 16 k),
     ss_open = (\<lambda>k n c. if 16 \<le> length c \<and> drop (length c - 16) c = take 16 k then Some (take (length c - 16) c) else None),
     ss_encrypt = (\<lambda>k b. map2 (\<lambda>x y. x XOR y) b (take 16 k)),
     ss_decrypt = (\<lambda>k b. map2 (\<lambda>x y. x XOR y) b (take 16 k)),
     ss_md5 = (\<lambda>m. take 16 (m @ replicate 16 0)),
     ss_hmac = (\<lambda>k m. take 20 (m @ k @ replicate 20 0)) \<rparr>"

lemma map2_xor_twice: "length ys = length xs \<Longrightarrow> map2 (\<lambda>x y. x XOR y) (map2 (\<lambda>x y. x XOR y) xs ys) ys = (xs :: wire)"
  by (induction xs ys rule: list_induct2') (auto simp: xor.assoc)

lemma sample_laws: "cryptoLaws sampleLib" "netLaws sampleLib"
proof -
  have "length (take 16 k) = 16" if "aesKey k" for k using that by (auto simp: aesKey_def)
  then show "cryptoLaws sampleLib" by (auto simp: cryptoLaws_def sampleLib_def map2_xor_twice)
  show "netLaws sampleLib" by (simp add: netLaws_def sampleLib_def)
qed

definition sampleEngine :: "wire \<Rightarrow> wire \<Rightarrow> protocolEngine" where
  "sampleEngine key identity = \<lparr> pe_method = ''2022-blake3-aes-128-gcm'', pe_key = key, pe_identity = identity, pe_keyLen = 16,
     pe_modern = True, pe_dead = False \<rparr>"

lemma sample_address: "encodeAddress sampleLib ''example.com:443'' = Ok (3 # 11 # textBytes ''example.com'' @ [1, 187])"
  by code_simp

section \<open>Properties\<close>

text \<open>
  C35. A UDP packet sealed by a client opens at the server as the packet it was: its target (an IP
  address in canonical form), payload and replay token, with Shadowsocks 2022 also its session and packet
  numbers. A response opens at the client in the same way, with the server's session and packet
  numbers, but with Shadowsocks 2022 only for the client session it answers: for any other session it is
  refused as a replay. Both ends use one engine, and their clocks agree within the allowed difference.
\<close>

theorem udp_roundtrip:
  assumes "cryptoLaws lib" "netLaws lib" "clocksAgree now now'"
    and "SealUDPPacket lib e salt packetID target payload now padding = Ok wire"
    and "SealUDPResponse lib e salt' packetID' clientID target' payload' now padding' = Ok wire'"
  shows "(case OpenUDPPacket lib e wire now' of Ok r \<Rightarrow>
        px_target r = canonicalTarget lib target \<and> px_payload r = payload
        \<and> (if pe_modern e then px_sessionID r = be64_of salt \<and> px_packetID r = packetID \<and> px_replayToken r = salt @ be64_bytes packetID
           else px_replayToken r = salt)
      | _ \<Rightarrow> False)
    \<and> (case OpenUDPResponse lib e wire' now' expected of Ok r \<Rightarrow>
        (\<not> pe_modern e \<or> expected = clientID) \<and> px_target r = canonicalTarget lib target' \<and> px_payload r = payload'
        \<and> (if pe_modern e then px_sessionID r = be64_of salt' \<and> px_packetID r = packetID' \<and> px_replayToken r = salt' @ be64_bytes packetID'
           else px_replayToken r = salt')
      | Err err \<Rightarrow> pe_modern e \<and> expected \<noteq> clientID \<and> err = ErrReplay
      | Panic \<Rightarrow> False)"
proof -
  have keys: "keysSnapshot e = Ok (pe_key e, pe_identity e)"
    using assms(4) by (auto simp: SealUDPPacket_def keysSnapshot_def split: if_splits)
  show ?thesis
  proof (cases "pe_modern e")
    case True
    then have "seal2022UDP lib e (pe_key e) (pe_identity e) salt packetID target payload now padding = Ok wire"
      "seal2022UDPResponse lib e (pe_key e) salt' packetID' clientID target' payload' now padding' = Ok wire'"
      using assms(4,5) keys by (auto simp: SealUDPPacket_def SealUDPResponse_def)
    note opened = open2022UDP_sealed [OF assms(1-3) this(1)] open2022UDPResponse_sealed [OF assms(1-3) this(2), of expected]
    show ?thesis using opened True keys by (simp add: OpenUDPPacket_def OpenUDPResponse_def zeroRequest_def)
  next
    case False
    then have "sealLegacyUDP lib e (pe_key e) salt target payload = Ok wire"
      "sealLegacyUDP lib e (pe_key e) salt' target' payload' = Ok wire'"
      using assms(4,5) keys by (auto simp: SealUDPPacket_def SealUDPResponse_def split: if_splits)
    note opened = openLegacyUDP_sealed [OF assms(1,2) this(1)] openLegacyUDP_sealed [OF assms(1,2) this(2)]
    show ?thesis using opened False keys by (simp add: OpenUDPPacket_def OpenUDPResponse_def zeroRequest_def)
  qed
qed

lemma sample_udp:
  assumes "length key = 16" "length sid = 8"
  shows "\<exists>wire. SealUDPPacket sampleLib (sampleEngine key []) sid 7 ''example.com:443'' [5, 6] 1000 [] = Ok wire"
    and "\<exists>wire. SealUDPResponse sampleLib (sampleEngine key []) sid 8 9 ''example.com:443'' [5] 1000 [0] = Ok wire"
proof -
  obtain d where d: "blake3DeriveKey ss2022KDFContext (key @ sid) = Some d" "length d = 32"
    by (rule blake3DeriveKey_Some) (auto simp: ss2022KDFContext_def assms)
  then have keys: "packetSubkey (sampleEngine key []) key sid = Ok (take 16 d)"
    by (simp add: packetSubkey_def sampleEngine_def aesKey_def)
  have e: "keysSnapshot (sampleEngine key []) = Ok (key, [])" "pe_modern (sampleEngine key [])" "aesKey key"
    using assms by (simp_all add: keysSnapshot_def sampleEngine_def aesKey_def)
  show "\<exists>wire. SealUDPPacket sampleLib (sampleEngine key []) sid 7 ''example.com:443'' [5, 6] 1000 [] = Ok wire"
    and "\<exists>wire. SealUDPResponse sampleLib (sampleEngine key []) sid 8 9 ''example.com:443'' [5] 1000 [0] = Ok wire"
    unfolding SealUDPPacket_def SealUDPResponse_def seal2022UDP_def seal2022UDPResponse_def sample_address
    using assms by (simp_all add: e keys seal2022UDPIdentity_def Let_def max2022Padding_def maxUDPPacket_def ss2022IdentityOverhead_def)
qed

definition samplePSK :: wire where "samplePSK = replicate 16 1"
definition sampleSession :: wire where "sampleSession = replicate 8 2"

theorem udp_roundtrip_witness:
  "\<exists>wire wire'. SealUDPPacket sampleLib (sampleEngine samplePSK []) sampleSession 7 ''example.com:443'' [5, 6] 1000 [] = Ok wire
    \<and> SealUDPResponse sampleLib (sampleEngine samplePSK []) sampleSession 8 9 ''example.com:443'' [5] 1000 [0] = Ok wire'
    \<and> (case OpenUDPPacket sampleLib (sampleEngine samplePSK []) wire 1010 of Ok r \<Rightarrow> px_payload r = [5, 6] | _ \<Rightarrow> False)
    \<and> (case OpenUDPResponse sampleLib (sampleEngine samplePSK []) wire' 1010 9 of Ok r \<Rightarrow> px_payload r = [5] \<and> px_packetID r = 8 | _ \<Rightarrow> False)"
proof -
  have sizes: "length samplePSK = 16" "length sampleSession = 8" by (simp_all add: samplePSK_def sampleSession_def)
  obtain wire wire' where w: "SealUDPPacket sampleLib (sampleEngine samplePSK []) sampleSession 7 ''example.com:443'' [5, 6] 1000 [] = Ok wire"
    "SealUDPResponse sampleLib (sampleEngine samplePSK []) sampleSession 8 9 ''example.com:443'' [5] 1000 [0] = Ok wire'"
    using sample_udp [OF sizes] by blast
  have "clocksAgree 1000 1010" by (simp add: clocksAgree_def)
  note opened = udp_roundtrip [OF sample_laws this w, of 9]
  have "case OpenUDPPacket sampleLib (sampleEngine samplePSK []) wire 1010 of Ok r \<Rightarrow> px_payload r = [5, 6] | _ \<Rightarrow> False"
    using opened [THEN conjunct1] by (simp split: res.splits)
  moreover have "case OpenUDPResponse sampleLib (sampleEngine samplePSK []) wire' 1010 9 of Ok r \<Rightarrow> px_payload r = [5] \<and> px_packetID r = 8 | _ \<Rightarrow> False"
    using opened [THEN conjunct2] by (simp add: sampleEngine_def split: res.splits)
  ultimately show ?thesis using w by blast
qed

end
