(* ===== verification/SS_Sniff.thy ===== *)
theory SS_Sniff
  imports SS_Protocol
begin

text \<open>
  Recognizing a domain name in the first bytes of a connection, from
  \<^verbatim>\<open>src/plugins/shadowsocks-server/domain_sniffer.go\<close>: the \<^verbatim>\<open>Host\<close> header of an HTTP/1
  request or the server name of a TLS ClientHello. Index and slice expressions can panic in the model.
  \<^verbatim>\<open>url.Parse\<close> (whether there is user information, and the host) and the Unicode case tables are
  parameters.
\<close>

record sniffLib =
  sn_net :: netLib
  sn_urlParse :: "string \<Rightarrow> (bool \<times> string) option"
  sn_unicodeLower :: "string \<Rightarrow> string"

definition maxSniffBytes :: nat where "maxSniffBytes = 16384"

datatype sniffState = SniffNeedMore | SniffDone

section \<open>Host names\<close>

definition hostLabelChar :: "char \<Rightarrow> bool" where
  "hostLabelChar c \<longleftrightarrow> (let n = (of_char c :: nat) in 97 \<le> n \<and> n \<le> 122 \<or> 48 \<le> n \<and> n \<le> 57 \<or> n = 45)"

definition hostLabelOk :: "string \<Rightarrow> bool" where
  "hostLabelOk label \<longleftrightarrow> length label \<noteq> 0 \<and> length label \<le> 63 \<and> hd label \<noteq> CHR ''-'' \<and> last label \<noteq> CHR ''-''
     \<and> list_all hostLabelChar label"

definition canonicalSniffHost :: "sniffLib \<Rightarrow> string \<Rightarrow> string option" where
  "canonicalSniffHost lib v =
     (let v = (case splitHostPort v of Some (host, _) \<Rightarrow> trimBrackets host | None \<Rightarrow> v);
          v = trimSuffix (toLower (sn_unicodeLower lib) v) ''.'' in
      if v = [] \<or> length v > 253 then None
      else if parseAddr (sn_net lib) v \<noteq> None then None
      else if list_all hostLabelOk (splitByte CHR ''.'' v) then Some v else None)"

section \<open>TLS\<close>

text \<open>The loop over the names of a server name extension; \<open>None\<close> is the return of the empty string.\<close>

function sniNames :: "sniffLib \<Rightarrow> wire \<Rightarrow> nat \<Rightarrow> string \<Rightarrow> string option ss" where
  "sniNames lib extension cursor host =
     (if cursor < length extension then
        if cursor + 3 > length extension then Ok None
        else rbind (idx extension cursor) (\<lambda>nameType. rbind (be16 extension (cursor + 1)) (\<lambda>n.
          let nameLength = unat n; cursor = cursor + 3 in
          if cursor + nameLength > length extension \<or> nameType \<noteq> 0 then Ok None
          else rbind (slice extension cursor (cursor + nameLength)) (\<lambda>name.
            case canonicalSniffHost lib (bytesText name) of None \<Rightarrow> Ok None
            | Some candidate \<Rightarrow>
              if host \<noteq> [] \<and> host \<noteq> candidate then Ok None
              else sniNames lib extension (cursor + nameLength) candidate)))
      else Ok (Some host))"
  by pat_completeness auto
termination
  by (relation "measure (\<lambda>(lib, extension, cursor, host). length extension - cursor)") auto

declare sniNames.simps [simp del]

function helloExtensions :: "sniffLib \<Rightarrow> wire \<Rightarrow> nat \<Rightarrow> string \<Rightarrow> string ss" where
  "helloExtensions lib body position host =
     (if position < length body then
        if position + 4 > length body then Ok []
        else rbind (be16 body position) (\<lambda>typeID. rbind (be16 body (position + 2)) (\<lambda>n.
          let start = position + 4; after = start + unat n in
          if after > length body then Ok []
          else rbind (slice body start after) (\<lambda>extension.
            if typeID = 0xfe0d then Ok []
            else if typeID \<noteq> 0 then helloExtensions lib body after host
            else if length extension < 2 then Ok []
            else rbind (be16 extension 0) (\<lambda>listLength.
              if unat listLength \<noteq> length extension - 2 then Ok []
              else rbind (sniNames lib extension 2 host) (\<lambda>r.
                case r of None \<Rightarrow> Ok [] | Some host \<Rightarrow> helloExtensions lib body after host)))))
      else Ok host)"
  by pat_completeness auto
termination
  by (relation "measure (\<lambda>(lib, body, position, host). length body - position)") auto

declare helloExtensions.simps [simp del]

definition parseClientHello :: "sniffLib \<Rightarrow> wire \<Rightarrow> string ss" where
  "parseClientHello lib handshake =
     (if length handshake < 4 + 2 + 32 + 1 then Ok []
      else rbind (idx handshake 0) (\<lambda>kind.
        if kind \<noteq> 1 then Ok []
        else rbind (slice handshake 4 (length handshake)) (\<lambda>body.
          rbind (idx body 0) (\<lambda>major. rbind (idx body 1) (\<lambda>minor.
          if major \<noteq> 3 \<or> minor \<noteq> 3 then Ok []
          else if 34 \<ge> length body then Ok []
          else rbind (idx body 34) (\<lambda>session.
            let position = 34 + 1 + unat session in
            if position + 2 > length body then Ok []
            else rbind (be16 body position) (\<lambda>ciphers.
              let position = position + 2 + unat ciphers in
              if position \<ge> length body then Ok []
              else rbind (idx body position) (\<lambda>compression.
                let position = position + 1 + unat compression in
                if position + 2 > length body then Ok []
                else rbind (be16 body position) (\<lambda>extensionsLength.
                  let position = position + 2 in
                  if position + unat extensionsLength \<noteq> length body then Ok []
                  else helloExtensions lib body position [])))))))))"

function tlsRecords :: "sniffLib \<Rightarrow> wire \<Rightarrow> nat \<Rightarrow> wire \<Rightarrow> (string \<times> sniffState) ss" where
  "tlsRecords lib payload position handshake =
     (if position < length payload then
        if length payload - position < 5 then Ok ([], SniffNeedMore)
        else rbind (idx payload position) (\<lambda>kind. rbind (idx payload (position + 1)) (\<lambda>major.
          rbind (idx payload (position + 2)) (\<lambda>minor.
          if kind \<noteq> 0x16 \<or> major \<noteq> 3 \<or> minor > 3 then Ok ([], SniffDone)
          else rbind (be16 payload (position + 3)) (\<lambda>n.
            let len = unat n in
            if len < 1 \<or> len > maxSniffBytes \<or> position + 5 + len > length payload then Ok ([], SniffNeedMore)
            else rbind (slice payload (position + 5) (position + 5 + len)) (\<lambda>fragment.
              let handshake = handshake @ fragment; position = position + 5 + len in
              if length handshake \<ge> 4 then
                let wanted = 4 + unat (handshake ! 1) * 65536 + unat (handshake ! 2) * 256 + unat (handshake ! 3) in
                if length handshake \<ge> wanted then
                  rbind (slice handshake 0 wanted) (\<lambda>hello. rbind (parseClientHello lib hello) (\<lambda>name. Ok (name, SniffDone)))
                else tlsRecords lib payload position handshake
              else tlsRecords lib payload position handshake)))))
      else Ok ([], SniffNeedMore))"
  by pat_completeness auto
termination
  by (relation "measure (\<lambda>(lib, payload, position, handshake). length payload - position)") auto

declare tlsRecords.simps [simp del]

definition sniffTLSServerName :: "sniffLib \<Rightarrow> wire \<Rightarrow> (string \<times> sniffState) ss" where
  "sniffTLSServerName lib payload = tlsRecords lib payload 0 []"

section \<open>HTTP\<close>

definition crlf :: string where "crlf = [CHR 0x0d, CHR 0x0a]"

text \<open>The check of the header bytes; \<open>previous\<close> is the byte before, if there is one.\<close>

fun headerBytesOk :: "byte option \<Rightarrow> wire \<Rightarrow> bool" where
  "headerBytesOk previous [] = True"
| "headerBytesOk previous (b # bs) =
     (if b = 0x0a \<and> previous \<noteq> Some 0x0d then False
      else if b = 0x7f \<or> b < 0x20 \<and> b \<noteq> 0x0d \<and> b \<noteq> 0x0a then False
      else headerBytesOk (Some b) bs)"

text \<open>
  \<^verbatim>\<open>strings.EqualFold(name, "host")\<close>: besides the ASCII letters, the long s (U+017F) folds to
  \<open>s\<close>.
\<close>

fun foldLongS :: "string \<Rightarrow> string" where
  "foldLongS (a # b # s) = (if a = CHR 0xc5 \<and> b = CHR 0xbf then CHR ''s'' # foldLongS s else a # foldLongS (b # s))"
| "foldLongS s = s"

definition isHostHeader :: "string \<Rightarrow> bool" where
  "isHostHeader name \<longleftrightarrow> map asciiLower (foldLongS name) = ''host''"

fun hostHeaders :: "sniffLib \<Rightarrow> string list \<Rightarrow> string \<Rightarrow> string" where
  "hostHeaders lib [] host = host"
| "hostHeaders lib (line # lines) host =
     (if hasPrefix line '' '' \<or> hasPrefix line [CHR 0x09] then []
      else case cutByte CHR '':'' line of (name, v, ok) \<Rightarrow>
        if \<not> ok then []
        else if \<not> isHostHeader (trimSpace name) then hostHeaders lib lines host
        else case canonicalSniffHost lib (trimSpace v) of None \<Rightarrow> []
          | Some candidate \<Rightarrow> if host \<noteq> [] \<and> host \<noteq> candidate then [] else hostHeaders lib lines candidate)"

definition requestHost :: "sniffLib \<Rightarrow> string \<Rightarrow> string option" where
  "requestHost lib target =
     (if hasPrefix target ''http://'' \<or> hasPrefix target ''https://'' then
        (case sn_urlParse lib target of None \<Rightarrow> None
         | Some (user, host) \<Rightarrow> if user then None else canonicalSniffHost lib host)
      else Some [])"

definition sniffHTTPHost :: "sniffLib \<Rightarrow> wire \<Rightarrow> (string \<times> sniffState) ss" where
  "sniffHTTPHost lib payload =
     (let txt = bytesText payload; last = indexSub txt (crlf @ crlf);
          headerEnd = (case last of None \<Rightarrow> length payload | Some e \<Rightarrow> e + 4) in
      rbind (slice payload 0 headerEnd) (\<lambda>header.
        if \<not> headerBytesOk None header then Ok ([], SniffDone)
        else case last of
          None \<Rightarrow> if CHR 0x00 \<in> set txt \<or> length payload = maxSniffBytes then Ok ([], SniffDone) else Ok ([], SniffNeedMore)
        | Some e \<Rightarrow>
          let lines = splitSub crlf (take e txt) in
          rbind (idx lines 0) (\<lambda>request.
            let requestParts = fieldsLoop spaceRunes [] request in
            if length lines < 2 \<or> length requestParts \<noteq> 3
              \<or> (requestParts ! 2 \<noteq> ''HTTP/1.0'' \<and> requestParts ! 2 \<noteq> ''HTTP/1.1'') then Ok ([], SniffDone)
            else case requestHost lib (requestParts ! 1) of None \<Rightarrow> Ok ([], SniffDone)
              | Some host \<Rightarrow> Ok (hostHeaders lib (tl lines) host, SniffDone))))"

definition sniffTCPDomain :: "sniffLib \<Rightarrow> wire \<Rightarrow> (string \<times> sniffState) ss" where
  "sniffTCPDomain lib payload =
     (if length payload = 0 then Ok ([], SniffNeedMore)
      else if length payload > maxSniffBytes then Ok ([], SniffDone)
      else if hasPrefix (bytesText payload) (''PRI * HTTP/2.0'' @ crlf @ crlf @ ''SM'' @ crlf @ crlf) then Ok ([], SniffDone)
      else rbind (idx payload 0) (\<lambda>first.
        if first = 0x16 then sniffTLSServerName lib payload else sniffHTTPHost lib payload))"

section \<open>Every answer is a host name\<close>

text \<open>What the sniffer may answer besides the empty string.\<close>

definition hostName :: "string \<Rightarrow> bool" where
  "hostName s \<longleftrightarrow> s \<noteq> [] \<and> length s \<le> 253 \<and> list_all hostLabelOk (splitByte CHR ''.'' s)"

text \<open>A computation that returns, without a panic, a value with a property.\<close>

definition returns :: "('a \<Rightarrow> bool) \<Rightarrow> 'a ss \<Rightarrow> bool" where
  "returns P r \<longleftrightarrow> (\<exists>a. r = Ok a \<and> P a)"

named_theorems returns_intros \<open>parsers that return without a panic\<close>

lemma returns_Ok [returns_intros]: "P a \<Longrightarrow> returns P (Ok a)"
  by (simp add: returns_def)

lemma returns_rbind: "returns Q m \<Longrightarrow> (\<And>a. m = Ok a \<Longrightarrow> Q a \<Longrightarrow> returns P (f a)) \<Longrightarrow> returns P (rbind m f)"
  by (auto simp: returns_def)

lemma returns_idx [returns_intros]:
  "i < length xs \<Longrightarrow> (idx xs i = (Ok (xs ! i) :: 'b ss) \<Longrightarrow> returns P (f (xs ! i))) \<Longrightarrow> returns P (rbind (idx xs i :: 'b ss) f)"
  by simp

lemma returns_be16 [returns_intros]:
  "i + 2 \<le> length xs \<Longrightarrow> (be16 xs i = (Ok (be16_of (seg xs i (i + 2))) :: u16 ss) \<Longrightarrow> returns P (f (be16_of (seg xs i (i + 2)))))
    \<Longrightarrow> returns P (rbind (be16 xs i :: u16 ss) f)"
  by simp

lemma returns_slice [returns_intros]:
  "lo \<le> hi \<Longrightarrow> hi \<le> length xs \<Longrightarrow> (slice xs lo hi = (Ok (seg xs lo hi) :: 'b list ss) \<Longrightarrow> returns P (f (seg xs lo hi)))
    \<Longrightarrow> returns P (rbind (slice xs lo hi :: 'b list ss) f)"
  by (simp add: seg_def)

lemma returns_if [returns_intros]: "(b \<Longrightarrow> returns P x) \<Longrightarrow> (\<not> b \<Longrightarrow> returns P y) \<Longrightarrow> returns P (if b then x else y)"
  by simp

lemma returns_option [returns_intros]:
  "(x = None \<Longrightarrow> returns P m) \<Longrightarrow> (\<And>y. x = Some y \<Longrightarrow> returns P (n y)) \<Longrightarrow> returns P (case x of None \<Rightarrow> m | Some y \<Rightarrow> n y)"
  by (cases x) auto

abbreviation nameOrNone :: "string \<Rightarrow> bool" where
  "nameOrNone s \<equiv> s = [] \<or> hostName s"

lemma canonical_hostName: "canonicalSniffHost lib v = Some s \<Longrightarrow> hostName s"
  by (auto simp: canonicalSniffHost_def hostName_def Let_def split: if_splits)

lemma sniNames_host:
  "nameOrNone host \<Longrightarrow> returns (\<lambda>r. \<forall>s. r = Some s \<longrightarrow> nameOrNone s) (sniNames lib extension cursor host)"
proof (induction lib extension cursor host rule: sniNames.induct)
  case (1 lib extension cursor host)
  show ?case
    by (subst sniNames.simps, unfold Let_def, intro returns_intros)
      (use 1 canonical_hostName in \<open>auto simp: Let_def\<close>)
qed

lemma helloExtensions_host: "nameOrNone host \<Longrightarrow> returns nameOrNone (helloExtensions lib body position host)"
proof (induction "length body - position" arbitrary: position host rule: less_induct)
  case less
  have again: "returns nameOrNone (helloExtensions lib body (position + 4 + n) h)"
    if "position < length body" "nameOrNone h" for n h
    using that by (intro less.hyps) auto
  show ?case
    by (subst helloExtensions.simps, unfold Let_def, intro returns_intros returns_rbind [OF sniNames_host] again)
      (use less.prems in auto)
qed

lemma parseClientHello_host: "returns nameOrNone (parseClientHello lib handshake)"
  unfolding parseClientHello_def Let_def by (intro returns_intros helloExtensions_host) auto

lemma tlsRecords_host: "returns (\<lambda>(s, st). nameOrNone s) (tlsRecords lib payload position handshake)"
proof (induction "length payload - position" arbitrary: position handshake rule: less_induct)
  case less
  have again: "returns (\<lambda>(s, st). nameOrNone s) (tlsRecords lib payload (position + 5 + n) h)"
    if "position < length payload" for n h
    using that by (intro less.hyps) auto
  show ?case
    by (subst tlsRecords.simps, unfold Let_def, intro returns_intros returns_rbind [OF parseClientHello_host] again) auto
qed

lemma hostHeaders_host: "nameOrNone host \<Longrightarrow> nameOrNone (hostHeaders lib lines host)"
  by (induction lines arbitrary: host) (auto dest: canonical_hostName split: prod.split option.split)

lemma splitSub_ne: "splitSub sep s \<noteq> []"
  by (subst splitSub.simps) (auto split: option.split)

lemma sniffHTTPHost_host: "returns (\<lambda>(s, st). nameOrNone s) (sniffHTTPHost lib payload)"
proof -
  have bound: "e + 4 \<le> length payload" if "indexSub (bytesText payload) (crlf @ crlf) = Some e" for e
    using indexSub_bound [OF that] by (simp add: crlf_def bytesText_def)
  have host: "nameOrNone h" if "requestHost lib target = Some h" for target h
    using that by (auto simp: requestHost_def dest: canonical_hostName split: if_splits option.splits)
  show ?thesis
    unfolding sniffHTTPHost_def Let_def
    by (intro returns_intros)
      (use bound host hostHeaders_host splitSub_ne in \<open>auto split: option.splits\<close>)
qed

lemma sniff_host: "returns (\<lambda>(s, st). nameOrNone s) (sniffTCPDomain lib payload)"
  unfolding sniffTCPDomain_def sniffTLSServerName_def
  by (intro returns_intros tlsRecords_host sniffHTTPHost_host) auto

end
