(* ===== verification/SS_Stream.thy ===== *)
theory SS_Stream
  imports SS_Roundtrip SS_Sniff
begin

text \<open>
  Streams over a connection: the server session of
  \<^verbatim>\<open>src/plugins/shadowsocks-server/protocol.go\<close>, the client session of
  \<^verbatim>\<open>upstream_client.go\<close>, and the handshake and the relay loops of \<^verbatim>\<open>plugin_call.go\<close>, with the
  sniffing of \<^verbatim>\<open>domain_sniffer.go\<close> that reads ahead on the same session.

  A connection is what its reads will see: pieces of data as they arrive, and \<open>Stall\<close> where the peer
  is silent for so long that a read with a deadline fails, while one without waits for what follows. The
  end of the list is the end of the connection.
\<close>

section \<open>Connections\<close>

datatype connEvent = Data wire | Stall

type_synonym conn = "connEvent list"

fun eventBytes :: "connEvent \<Rightarrow> wire" where
  "eventBytes (Data bs) = bs"
| "eventBytes Stall = []"

definition streamBytes :: "conn \<Rightarrow> wire" where
  "streamBytes c = concat (map eventBytes c)"

text \<open>\<^verbatim>\<open>io.ReadFull\<close>: the bytes read, the connection after it, and whether all were read.\<close>

fun readFull :: "bool \<Rightarrow> nat \<Rightarrow> conn \<Rightarrow> wire \<times> conn \<times> bool" where
  "readFull deadline 0 c = ([], c, True)"
| "readFull deadline k [] = ([], [], False)"
| "readFull deadline k (Stall # c) = (if deadline then ([], Stall # c, False) else readFull deadline k c)"
| "readFull deadline k (Data bs # c) =
     (if k \<le> length bs then (take k bs, Data (drop k bs) # c, True)
      else case readFull deadline (k - length bs) c of (xs, c', ok) \<Rightarrow> (bs @ xs, c', ok))"

text \<open>\<^verbatim>\<open>prefixConn\<close>: a connection that first gives bytes that were read before.\<close>

definition prefixConn :: "wire \<Rightarrow> conn \<Rightarrow> conn" where
  "prefixConn p c = (if p \<noteq> [] then Data p # c else c)"

lemma streamBytes_simps [simp]:
  "streamBytes [] = []" "streamBytes (Data bs # c) = bs @ streamBytes c" "streamBytes (Stall # c) = streamBytes c"
  "streamBytes (prefixConn p c) = p @ streamBytes c" "streamBytes (c @ d) = streamBytes c @ streamBytes d"
  by (auto simp: streamBytes_def prefixConn_def)

text \<open>What a read takes is a prefix of the stream, and the rest stays.\<close>

lemma readFull_stream:
  assumes "readFull deadline k c = (xs, c', ok)"
  shows "streamBytes c = xs @ streamBytes c'" and "ok = (length xs = k)" and "length xs \<le> k"
proof -
  have "streamBytes c = xs @ streamBytes c' \<and> ok = (length xs = k) \<and> length xs \<le> k"
    using assms
  proof (induction deadline k c arbitrary: xs c' ok rule: readFull.induct)
    case (4 deadline k bs c)
    show ?case
    proof (cases "Suc k \<le> length bs")
      case True
      then show ?thesis using 4(2) by auto
    next
      case False
      obtain ys d ok' where r: "readFull deadline (Suc k - length bs) c = (ys, d, ok')" by (metis prod_cases3)
      have "xs = bs @ ys" "c' = d" "ok = ok'" using 4(2) False r by auto
      then show ?thesis using 4(1) [OF False r] False by auto
    qed
  next
    case (3 deadline k c)
    show ?case using 3(2) 3(1) [of xs c' ok] by (cases deadline) auto
  qed auto
  then show "streamBytes c = xs @ streamBytes c'" and "ok = (length xs = k)" and "length xs \<le> k" by auto
qed

lemma readFull_rest: "readFull False k c = (xs, c', ok) \<Longrightarrow> \<not> ok \<Longrightarrow> streamBytes c' = []"
proof (induction False k c arbitrary: xs c' ok rule: readFull.induct)
  case (4 k bs c)
  obtain ys d ok' where r: "readFull False (Suc k - length bs) c = (ys, d, ok')" by (metis prod_cases3)
  have "\<not> Suc k \<le> length bs" "c' = d" "ok = ok'" using 4(2,3) r by (auto split: if_splits)
  then show ?case using 4(1) [OF _ r] 4(3) by simp
qed auto

text \<open>Without a deadline only the bytes of the stream matter.\<close>

lemma readFull_waits:
  assumes "readFull False k c = (xs, c', ok)"
  shows "xs = take k (streamBytes c) \<and> streamBytes c' = drop k (streamBytes c) \<and> ok = (k \<le> length (streamBytes c))"
proof -
  have enough: "k \<le> length (streamBytes c) \<Longrightarrow> snd (snd (readFull False k c))"
  proof (induction False k c rule: readFull.induct)
    case (4 k bs c)
    have "Suc k - length bs \<le> length (streamBytes c)" using 4(2) by simp
    then show ?case using 4(1) by (cases "Suc k \<le> length bs") (simp_all add: prod.case_eq_if)
  qed simp_all
  note stream = readFull_stream [OF assms]
  show ?thesis
  proof (cases ok)
    case True
    then show ?thesis using stream by simp
  next
    case False
    then have short: "length (streamBytes c) < k" using enough assms by fastforce
    have "streamBytes c' = []" using readFull_rest [OF assms] False by simp
    then show ?thesis using stream(1) short False by simp
  qed
qed

section \<open>The server session\<close>

definition sessionMaximum :: "bool \<Rightarrow> nat" where
  "sessionMaximum modern = (if modern then max2022Payload else maxLegacyPayload)"

definition CloseSession :: "tcpServerSession \<Rightarrow> tcpServerSession" where
  "CloseSession s = s\<lparr> ts_closed := True, ts_inbound := None, ts_outbound := None, ts_requestSalt := [], ts_key := [], ts_leftover := [] \<rparr>"

definition takeLeftover :: "tcpServerSession \<Rightarrow> wire \<times> tcpServerSession" where
  "takeLeftover s = (ts_leftover s, s\<lparr> ts_leftover := [] \<rparr>)"

definition OpenPayloadChunk :: "ssLib \<Rightarrow> wire \<Rightarrow> tcpServerSession \<Rightarrow> tcpServerSession \<times> wire ss" where
  "OpenPayloadChunk lib wire s =
     (case ts_inbound s of None \<Rightarrow> (s, Err ErrRevoked)
      | Some inbound \<Rightarrow>
        if ts_closed s then (s, Err ErrRevoked)
        else case openPayloadChunk lib inbound wire (sessionMaximum (ts_modern s)) of
          (inbound, r) \<Rightarrow> (s\<lparr> ts_inbound := Some inbound \<rparr>, r))"

definition SealResponse :: "ssLib \<Rightarrow> wire \<Rightarrow> wire \<Rightarrow> int \<Rightarrow> tcpServerSession \<Rightarrow> tcpServerSession \<times> wire ss" where
  "SealResponse lib responseSalt payload now s =
     (if ts_closed s \<or> ts_outbound s \<noteq> None \<or> length (ts_key s) \<noteq> pe_keyLen (ts_engine s)
        \<or> length responseSalt \<noteq> pe_keyLen (ts_engine s) then (s, Err ErrProtocol)
      else case newSession lib (ts_engine s) (ts_key s) responseSalt of
        Err e \<Rightarrow> (s, Err e)
      | Panic \<Rightarrow> (s, Panic)
      | Ok outbound \<Rightarrow>
        if length payload > sessionMaximum (ts_modern s) \<or> ts_modern s \<and> length payload = 0 then (s, Err ErrProtocol)
        else if ts_modern s then
          let fixed = 1 # be64_bytes (word_of_int now) @ ts_requestSalt s @ lengthBytes (length payload);
              (first, c1) = sealFrame lib outbound fixed; (second, c2) = sealFrame lib c1 payload
          in (s\<lparr> ts_outbound := Some c2 \<rparr>, Ok (responseSalt @ first @ second))
        else let (chunk, c) = sealPayloadChunk lib outbound payload in (s\<lparr> ts_outbound := Some c \<rparr>, Ok (responseSalt @ chunk)))"

definition SealPayloadChunk :: "ssLib \<Rightarrow> wire \<Rightarrow> tcpServerSession \<Rightarrow> tcpServerSession \<times> wire ss" where
  "SealPayloadChunk lib payload s =
     (case ts_outbound s of None \<Rightarrow> (s, Err ErrRevoked)
      | Some outbound \<Rightarrow>
        if ts_closed s then (s, Err ErrRevoked)
        else if length payload > sessionMaximum (ts_modern s) then (s, Err ErrProtocol)
        else let (chunk, c) = sealPayloadChunk lib outbound payload in (s\<lparr> ts_outbound := Some c \<rparr>, Ok chunk))"

section \<open>Reading chunks\<close>

definition readTCPPayloadChunk :: "ssLib \<Rightarrow> conn \<Rightarrow> tcpServerSession \<Rightarrow> conn \<times> tcpServerSession \<times> wire ss" where
  "readTCPPayloadChunk lib c s =
     (case ts_inbound s of None \<Rightarrow> (c, s, Err ErrRevoked)
      | Some inbound \<Rightarrow>
        if ts_closed s then (c, s, Err ErrRevoked)
        else case readFull False (2 + gcmOverhead) c of (header, c1, ok) \<Rightarrow>
          if \<not> ok then (c1, s, Err ErrRead)
          else case ss_open lib (sc_key inbound) (sc_nonce inbound) header of None \<Rightarrow> (c1, s, Err ErrAuthentication)
          | Some lengthPlain \<Rightarrow>
            if length lengthPlain \<noteq> 2 then (c1, s, Err ErrAuthentication)
            else let len = unat (be16_of lengthPlain) in
              if len > sessionMaximum (ts_modern s) then (c1, s, Err ErrProtocol)
              else case readFull False (len + gcmOverhead) c1 of (rest, c2, ok) \<Rightarrow>
                if \<not> ok then (c2, s, Err ErrRead)
                else case OpenPayloadChunk lib (header @ rest) s of (s', r) \<Rightarrow> (c2, s', r))"

text \<open>A budget of writes: \<open>None\<close> for a target that accepts every write.\<close>

definition spend :: "nat option \<Rightarrow> nat option option" where
  "spend budget = (case budget of None \<Rightarrow> Some None | Some 0 \<Rightarrow> None | Some (Suc n) \<Rightarrow> Some (Some n))"

lemma readTCPPayloadChunk_shorter:
  "readTCPPayloadChunk lib c s = (c', s', Ok payload) \<Longrightarrow> length (streamBytes c') < length (streamBytes c)"
  by (auto simp: readTCPPayloadChunk_def Let_def gcmOverhead_def dest!: readFull_waits split: option.splits if_splits prod.splits)

function relayTCPClientToTarget :: "ssLib \<Rightarrow> nat option \<Rightarrow> conn \<Rightarrow> tcpServerSession \<Rightarrow> wire list" where
  "relayTCPClientToTarget lib budget c s =
     (case readTCPPayloadChunk lib c s of (c', s', r) \<Rightarrow>
        (case r of Ok payload \<Rightarrow>
            if length payload = 0 then relayTCPClientToTarget lib budget c' s'
            else (case spend budget of None \<Rightarrow> [] | Some budget' \<Rightarrow> payload # relayTCPClientToTarget lib budget' c' s')
         | Err e \<Rightarrow> []
         | Panic \<Rightarrow> []))"
  by pat_completeness auto
termination
proof (relation "measure (\<lambda>(lib, budget, c, s). length (streamBytes c))")
  fix lib :: ssLib and budget c s c' y s' r payload
  assume "(c', y) = readTCPPayloadChunk lib c s" "(s', r) = y" "r = Ok payload"
  then have "readTCPPayloadChunk lib c s = (c', s', Ok payload)" by simp
  from readTCPPayloadChunk_shorter [OF this]
  show "((lib, budget, c', s'), lib, budget, c, s) \<in> measure (\<lambda>(lib, budget, c, s). length (streamBytes c))" by simp
next
  fix lib :: ssLib and budget c s c' y s' r payload budget'
  assume "(c', y) = readTCPPayloadChunk lib c s" "(s', r) = y" "r = Ok payload"
  then have "readTCPPayloadChunk lib c s = (c', s', Ok payload)" by simp
  from readTCPPayloadChunk_shorter [OF this]
  show "((lib, budget', c', s'), lib, budget, c, s) \<in> measure (\<lambda>(lib, budget, c, s). length (streamBytes c))" by simp
qed simp

declare relayTCPClientToTarget.simps [simp del]

text \<open>A target that accepts only some writes receives the first chunks.\<close>

lemma relay_budget: "relayTCPClientToTarget lib (Some n) c s = take n (relayTCPClientToTarget lib None c s)"
proof (induction "length (streamBytes c)" arbitrary: n c s rule: less_induct)
  case less
  obtain c' s' r where r: "readTCPPayloadChunk lib c s = (c', s', r)" by (metis prod_cases3)
  show ?case
  proof (cases r)
    case (Ok payload)
    then have shorter: "length (streamBytes c') < length (streamBytes c)" using readTCPPayloadChunk_shorter r by blast
    show ?thesis
      by (cases n) (simp_all add: relayTCPClientToTarget.simps [of lib _ c s] r Ok spend_def less(1) [OF shorter])
  qed (simp_all add: relayTCPClientToTarget.simps [of lib _ c s] r)
qed

text \<open>Reads without a deadline depend on the bytes of a connection only, not on how they are cut.\<close>

lemma readFull_same:
  assumes "streamBytes c = streamBytes d" "readFull deadline k c = (xs, c', True)"
  obtains d' where "readFull False k d = (xs, d', True)" "streamBytes d' = streamBytes c'"
proof -
  obtain ys d' ok where d: "readFull False k d = (ys, d', ok)" by (metis prod_cases3)
  have "streamBytes d = xs @ streamBytes c'" "length xs = k" using readFull_stream [OF assms(2)] assms(1) by simp_all
  then show thesis using readFull_waits [OF d] d by (intro that [of d']) simp_all
qed

lemma readChunk_same:
  assumes "streamBytes c = streamBytes d" "readTCPPayloadChunk lib c s = (c', s', r)"
  obtains d' where "readTCPPayloadChunk lib d s = (d', s', r)" "streamBytes d' = streamBytes c'"
proof -
  have same: "\<exists>d'. readFull False k d = (xs, d', ok) \<and> streamBytes d' = streamBytes c'"
    if "streamBytes c = streamBytes d" "readFull False k c = (xs, c', ok)" for k and c d :: conn and xs c' ok
    using readFull_waits [OF that(2)] readFull_waits [of k d] that(1) by (metis prod_cases3)
  obtain header c1 ok where h: "readFull False (2 + gcmOverhead) c = (header, c1, ok)" by (metis prod_cases3)
  obtain d1 where h': "readFull False (2 + gcmOverhead) d = (header, d1, ok)" "streamBytes d1 = streamBytes c1"
    using same [OF assms(1) h] by blast
  have "\<exists>d2. readFull False k d1 = (fst (readFull False k c1), d2, snd (snd (readFull False k c1)))
      \<and> streamBytes d2 = streamBytes (fst (snd (readFull False k c1)))" for k
    using same [OF h'(2) [symmetric], of k] by (metis prod.collapse)
  then obtain f where f: "\<And>k. readFull False k d1 = (fst (readFull False k c1), f k, snd (snd (readFull False k c1)))"
    "\<And>k. streamBytes (f k) = streamBytes (fst (snd (readFull False k c1)))" by metis
  have "\<exists>d'. readTCPPayloadChunk lib d s = (d', s', r) \<and> streamBytes d' = streamBytes c'"
    using assms(2) assms(1)
    by (cases "ts_inbound s") (auto simp: readTCPPayloadChunk_def h h' f Let_def prod.case_eq_if split: option.splits if_splits)
  then show thesis using that by blast
qed

lemma relay_same: "streamBytes c = streamBytes d \<Longrightarrow> relayTCPClientToTarget lib budget c s = relayTCPClientToTarget lib budget d s"
proof (induction "length (streamBytes c)" arbitrary: budget c d s rule: less_induct)
  case less
  obtain c' s' r where r: "readTCPPayloadChunk lib c s = (c', s', r)" by (metis prod_cases3)
  obtain d' where d: "readTCPPayloadChunk lib d s = (d', s', r)" "streamBytes d' = streamBytes c'"
    using readChunk_same [OF less(2) r] .
  show ?case
  proof (cases r)
    case (Ok payload)
    then have shorter: "length (streamBytes c') < length (streamBytes c)" using readTCPPayloadChunk_shorter r by blast
    have same: "relayTCPClientToTarget lib b c' s' = relayTCPClientToTarget lib b d' s'" for b
      using less(1) [OF shorter d(2) [symmetric]] .
    show ?thesis
      by (simp add: relayTCPClientToTarget.simps [of lib _ c s] relayTCPClientToTarget.simps [of lib _ d s] r d(1) Ok same split: option.split)
  qed (simp_all add: relayTCPClientToTarget.simps [of lib _ c s] relayTCPClientToTarget.simps [of lib _ d s] r d(1))
qed

section \<open>Sniffing\<close>

text \<open>The connection and session after an attempt, the payload, the bytes to replay, and the error.\<close>

definition transactionalSniffChunk ::
  "ssLib \<Rightarrow> conn \<Rightarrow> tcpServerSession \<Rightarrow> nat \<Rightarrow> conn \<times> tcpServerSession \<times> wire \<times> wire \<times> ss_error option" where
  "transactionalSniffChunk lib c s remaining =
     (case ts_inbound s of None \<Rightarrow> (c, s, [], [], Some ErrRevoked)
      | Some trial \<Rightarrow>
        if remaining < 1 \<or> ts_closed s then (c, s, [], [], Some ErrRevoked)
        else case readFull True (2 + gcmOverhead) c of (header, c1, ok) \<Rightarrow>
          if \<not> ok then (c1, s, [], header, Some ErrRead)
          else case openFrame lib trial header of
            Ok (plain, trial1) \<Rightarrow>
              if length plain \<noteq> 2 then (c1, s, [], header, Some ErrAuthentication)
              else let len = unat (be16_of plain) in
                if len < 1 \<or> len > sessionMaximum (ts_modern s) then (c1, s, [], header, Some ErrProtocol)
                else if len > remaining then (c1, s, [], header, Some ErrSniffLimit)
                else (case readFull True (len + gcmOverhead) c1 of (body, c2, ok) \<Rightarrow>
                  if \<not> ok then (c2, s, [], header @ body, Some ErrRead)
                  else case openFrame lib trial1 body of
                    Ok (payload, trial2) \<Rightarrow> (c2, s\<lparr> ts_inbound := Some trial2 \<rparr>, payload, [], None)
                  | _ \<Rightarrow> (c2, s, [], header @ body, Some ErrAuthentication))
          | _ \<Rightarrow> (c1, s, [], header, Some ErrAuthentication))"

text \<open>
  An attempt fails without a trace, given that the bytes it read are put back, or it read one chunk
  and advanced the cipher past it.
\<close>

lemma sniffChunk_cases:
  assumes run: "transactionalSniffChunk lib c s remaining = (c', s', chunk, replayed, err)"
  obtains (failed) h1 h2 c1 where "err \<noteq> None" "s' = s" "replayed = h1 @ h2"
      "streamBytes c = h1 @ streamBytes c1" "streamBytes c1 = h2 @ streamBytes c'"
    | (read) trial header c1 plain trial1 body trial2 where "err = None" "replayed = []"
      "ts_inbound s = Some trial" "\<not> ts_closed s" "readFull True (2 + gcmOverhead) c = (header, c1, True)"
      "openFrame lib trial header = Ok (plain, trial1)" "length plain = 2"
      "unat (be16_of plain) \<le> sessionMaximum (ts_modern s)"
      "readFull True (unat (be16_of plain) + gcmOverhead) c1 = (body, c', True)"
      "openFrame lib trial1 body = Ok (chunk, trial2)" "s' = s\<lparr> ts_inbound := Some trial2 \<rparr>"
proof (cases "\<exists>trial. ts_inbound s = Some trial \<and> \<not> (remaining < 1 \<or> ts_closed s)")
  case False
  then have "err \<noteq> None \<and> s' = s \<and> replayed = [] \<and> c' = c"
    using run by (auto simp: transactionalSniffChunk_def split: option.splits)
  then show thesis by (intro failed [of "[]" "[]" c]) simp_all
next
  case True
  then obtain trial where trial: "ts_inbound s = Some trial" "\<not> (remaining < 1 \<or> ts_closed s)" by blast
  obtain header c1 ok where h: "readFull True (2 + gcmOverhead) c = (header, c1, ok)" by (metis prod_cases3)
  have H: "streamBytes c = header @ streamBytes c1" by (rule readFull_stream [OF h])
  note run1 = run [unfolded transactionalSniffChunk_def trial(1) option.case if_not_P [OF trial(2)] h prod.case]
  have short: thesis if "err \<noteq> None" "s' = s" "replayed = header" "c' = c1"
    using that H by (intro failed [of header "[]" c1]) simp_all
  show thesis
  proof (cases "ok \<and> (\<exists>plain trial1. openFrame lib trial header = Ok (plain, trial1) \<and> length plain = 2)")
    case False
    then have "err \<noteq> None \<and> s' = s \<and> replayed = header \<and> c' = c1"
      using run1 by (cases "openFrame lib trial header") (auto split: if_splits)
    then show thesis by (intro short) simp_all
  next
    case True
    then obtain plain trial1 where plain: "ok" "openFrame lib trial header = Ok (plain, trial1)" "length plain = 2" by blast
    let ?n = "unat (be16_of plain)"
    obtain body c2 ok2 where b: "readFull True (?n + gcmOverhead) c1 = (body, c2, ok2)" by (metis prod_cases3)
    have B: "streamBytes c1 = body @ streamBytes c2" by (rule readFull_stream [OF b])
    note run2 = run1 [unfolded plain(2) res.case prod.case Let_def b]
    have long: thesis if "err \<noteq> None" "s' = s" "replayed = header @ body" "c' = c2"
      using that H B by (intro failed [of header body c1]) simp_all
    show thesis
    proof (cases "?n < 1 \<or> ?n > sessionMaximum (ts_modern s) \<or> ?n > remaining")
      case True
      then have "err \<noteq> None \<and> s' = s \<and> replayed = header \<and> c' = c1"
        using run2 plain(1,3) by (auto split: if_splits)
      then show thesis by (intro short) simp_all
    next
      case bounds: False
      show thesis
      proof (cases "openFrame lib trial1 body")
        case (Ok q)
        show thesis
        proof (cases ok2)
          case True
          obtain payload trial2 where q: "q = (payload, trial2)" by fastforce
          have res: "c' = c2" "s' = s\<lparr> ts_inbound := Some trial2 \<rparr>" "chunk = payload" "replayed = []" "err = None"
            using run2 plain(1,3) bounds True Ok q by (auto split: if_splits)
          show thesis
            by (rule read [of trial header c1 plain trial1 body trial2])
              (use res trial h plain bounds b True Ok q in simp_all)
        next
          case False
          then have "err \<noteq> None \<and> s' = s \<and> replayed = header @ body \<and> c' = c2"
            using run2 plain(1,3) bounds by (auto split: if_splits)
          then show thesis by (intro long) simp_all
        qed
      next
        case (Err e)
        then have "err \<noteq> None \<and> s' = s \<and> replayed = header @ body \<and> c' = c2"
          using run2 plain(1,3) bounds by (auto split: if_splits)
        then show thesis by (intro long) simp_all
      next
        case Panic
        then have "err \<noteq> None \<and> s' = s \<and> replayed = header @ body \<and> c' = c2"
          using run2 plain(1,3) bounds by (auto split: if_splits)
        then show thesis by (intro long) simp_all
      qed
    qed
  qed
qed

lemma sniffChunk_shorter:
  assumes "transactionalSniffChunk lib c s remaining = (c', s', chunk, replayed, None)"
  shows "replayed = [] \<and> length (streamBytes c') < length (streamBytes c)"
  using assms
proof (cases rule: sniffChunk_cases)
  case (read trial header c1 plain trial1 body trial2)
  have "length (streamBytes c) = length header + (length body + length (streamBytes c'))"
    using readFull_stream(1) [OF read(5)] readFull_stream(1) [OF read(9)] by simp
  moreover have "length header = 2 + gcmOverhead" using readFull_stream(2) [OF read(5)] by simp
  ultimately show ?thesis using read(2) by simp
qed simp

function sniffLoop :: "ssLib \<Rightarrow> sniffLib \<Rightarrow> conn \<Rightarrow> tcpServerSession \<Rightarrow> wire \<Rightarrow> (conn \<times> tcpServerSession \<times> string \<times> wire) ss" where
  "sniffLoop lib slib c s buffer =
     rbind (sniffTCPDomain slib buffer) (\<lambda>(domain, state).
       if state = SniffDone then Ok (c, s, domain, buffer)
       else if length buffer \<ge> maxSniffBytes then Ok (c, s, [], buffer)
       else case transactionalSniffChunk lib c s (maxSniffBytes - length buffer) of (c', s', chunk, ciphertext, err) \<Rightarrow>
         if err \<noteq> None then Ok (prefixConn ciphertext c', s', [], buffer)
         else sniffLoop lib slib (prefixConn ciphertext c') s' (buffer @ chunk))"
  by pat_completeness auto
termination
proof (relation "measure (\<lambda>(lib, slib, c, s, buffer). length (streamBytes c))")
  fix lib slib c s and buffer :: wire and p domain state c' y s' z chunk v ciphertext and err :: "ss_error option"
  assume "(c', y) = transactionalSniffChunk lib c s (maxSniffBytes - length buffer)" "(s', z) = y" "(chunk, v) = z"
    "(ciphertext, err) = v" "\<not> err \<noteq> None"
  then have "transactionalSniffChunk lib c s (maxSniffBytes - length buffer) = (c', s', chunk, ciphertext, None)" by simp
  from sniffChunk_shorter [OF this]
  show "((lib, slib, prefixConn ciphertext c', s', buffer @ chunk), lib, slib, c, s, buffer)
    \<in> measure (\<lambda>(lib, slib, c, s, buffer). length (streamBytes c))" by simp
qed simp

declare sniffLoop.simps [simp del]

definition sniffTargetDomain ::
  "ssLib \<Rightarrow> sniffLib \<Rightarrow> conn \<Rightarrow> tcpServerSession \<Rightarrow> wire \<Rightarrow> (conn \<times> tcpServerSession \<times> string \<times> wire) ss" where
  "sniffTargetDomain lib slib c s initial =
     (if length initial > maxSniffBytes then Ok (c, s, [], initial) else sniffLoop lib slib c s initial)"

text \<open>A chunk that the sniffer read is the chunk that the relay would have read.\<close>

lemma sniffChunk_read:
  assumes "transactionalSniffChunk lib c s remaining = (c', s', chunk, replayed, None)"
  obtains d where "readTCPPayloadChunk lib c s = (d, s', Ok chunk)" "streamBytes d = streamBytes c'" "replayed = []"
  using assms
proof (cases rule: sniffChunk_cases)
  case (read trial header c1 plain trial1 body trial2)
  obtain d1 where d1: "readFull False (2 + gcmOverhead) c = (header, d1, True)" "streamBytes d1 = streamBytes c1"
    using readFull_same [OF refl read(5)] .
  obtain d2 where d2: "readFull False (unat (be16_of plain) + gcmOverhead) d1 = (body, d2, True)" "streamBytes d2 = streamBytes c'"
    using readFull_same [OF d1(2) [symmetric] read(9)] .
  have len: "length header = 2 + gcmOverhead" "length body = unat (be16_of plain) + gcmOverhead"
    using readFull_stream(2) [OF read(5)] readFull_stream(2) [OF read(9)] by simp_all
  have plain: "ss_open lib (sc_key trial) (sc_nonce trial) header = Some plain"
    using read(6) by (auto simp: openFrame_def split: option.splits)
  have "OpenPayloadChunk lib (header @ body) s = (s', Ok chunk)"
    using read(4,7,8) len
    by (simp add: OpenPayloadChunk_def openPayloadChunk_def Let_def read(3,6,10,11))
  then have "readTCPPayloadChunk lib c s = (d2, s', Ok chunk)"
    using read(4,7,8) by (simp add: readTCPPayloadChunk_def read(3) d1(1) plain d2(1) Let_def)
  then show thesis using that d2(2) read(2) by blast
qed simp

text \<open>One step of the loop that goes on keeps what the target is going to receive.\<close>

lemma sniffChunk_keeps:
  assumes "transactionalSniffChunk lib c s remaining = (c', s', chunk, replayed, err)"
  shows "(if err = None then chunk else []) @ concat (relayTCPClientToTarget lib None (prefixConn replayed c') s')
    = concat (relayTCPClientToTarget lib None c s)"
proof (cases err)
  case None
  then obtain d where d: "readTCPPayloadChunk lib c s = (d, s', Ok chunk)" "streamBytes d = streamBytes c'" "replayed = []"
    using sniffChunk_read assms by blast
  have "relayTCPClientToTarget lib None (prefixConn replayed c') s' = relayTCPClientToTarget lib None d s'"
    by (rule relay_same) (simp add: d)
  then show ?thesis using None by (simp add: relayTCPClientToTarget.simps [of lib _ c s] d(1) spend_def)
next
  case (Some e)
  from assms have "s' = s \<and> streamBytes (prefixConn replayed c') = streamBytes c"
    by (cases rule: sniffChunk_cases) (use Some in simp_all)
  then show ?thesis using Some relay_same [of "prefixConn replayed c'" c] by simp
qed

lemma sniffLoop_transparent:
  "\<exists>c' s' domain buffer'. sniffLoop lib slib c s buffer = Ok (c', s', domain, buffer')
    \<and> buffer' @ concat (relayTCPClientToTarget lib None c' s') = buffer @ concat (relayTCPClientToTarget lib None c s)
    \<and> (domain = [] \<or> hostName domain)"
proof (induction "length (streamBytes c)" arbitrary: c s buffer rule: less_induct)
  case less
  obtain domain state where p: "sniffTCPDomain slib buffer = Ok (domain, state)" "domain = [] \<or> hostName domain"
    using sniff_host [of slib buffer] by (auto simp: returns_def)
  obtain c' s' chunk replayed err where t: "transactionalSniffChunk lib c s (maxSniffBytes - length buffer) = (c', s', chunk, replayed, err)"
    by (metis prod_cases5)
  note keeps = sniffChunk_keeps [OF t]
  have step: "sniffLoop lib slib c s buffer =
      (if state = SniffDone then Ok (c, s, domain, buffer) else if length buffer \<ge> maxSniffBytes then Ok (c, s, [], buffer)
       else if err \<noteq> None then Ok (prefixConn replayed c', s', [], buffer)
       else sniffLoop lib slib (prefixConn replayed c') s' (buffer @ chunk))"
    by (simp add: sniffLoop.simps [of lib slib c s buffer] p(1) t)
  show ?case
  proof (cases "state \<noteq> SniffDone \<and> length buffer < maxSniffBytes \<and> err = None")
    case True
    then have "length (streamBytes (prefixConn replayed c')) < length (streamBytes c)"
      using sniffChunk_shorter [of lib c s "maxSniffBytes - length buffer" c' s' chunk replayed] t by simp
    from less [OF this, of s' "buffer @ chunk"] show ?thesis
      using True keeps by (simp add: step)
  next
    case False
    then consider "state = SniffDone" | "state \<noteq> SniffDone" "maxSniffBytes \<le> length buffer"
      | "state \<noteq> SniffDone" "length buffer < maxSniffBytes" "err \<noteq> None" by fastforce
    then show ?thesis using p(2) keeps by cases (simp_all add: step)
  qed
qed

text \<open>
  C36. Sniffing a connection is invisible to its target: whatever arrives, in whatever pieces and with whatever
  silences, sniffing returns without a panic, answers no name or a well-formed host name, and the bytes it hands on
  followed by what the relay then delivers are exactly the first payload followed by what the relay would have
  delivered without sniffing.
\<close>

theorem sniff_transparent:
  "\<exists>c' s' domain buffer. sniffTargetDomain lib slib c s initial = Ok (c', s', domain, buffer)
    \<and> buffer @ concat (relayTCPClientToTarget lib None c' s') = initial @ concat (relayTCPClientToTarget lib None c s)
    \<and> (domain = [] \<or> hostName domain)"
  using sniffLoop_transparent [of lib slib c s initial] by (auto simp: sniffTargetDomain_def)

end
