(* ===== verification/SS_Routing.thy ===== *)
theory SS_Routing
  imports SS_Sniff
begin

text \<open>
  Routing rules of the Shadowsocks server, from \<^verbatim>\<open>src/plugins/shadowsocks-server/routing.go\<close>: validation of
  a configuration, the snapshot that a listener uses, and the decision for one target.

  Dataset classifications and references are types of the SDK, here type parameters with what the
  code reads of them (\<open>routeLib\<close>). The SDK's validators and the printer of IPv6 addresses are functions of that
  record. The two calls of the dataset service take their position, since the service may answer the same call
  differently at another time.
\<close>

section \<open>Data\<close>

record ssUpstream =
  su_id :: string
  su_host :: string
  su_port :: int
  su_method :: string
  su_secretRef :: string
  su_secretVersion :: string
  su_enabled :: bool
  su_tcp :: bool
  su_udp :: bool

record 'c routeRule =
  rul_id :: string
  rul_sourceID :: string
  rul_classification :: 'c
  rul_action :: string
  rul_upstreamID :: string

record 'c routing =
  rc_upstreams :: "ssUpstream list"
  rc_rules :: "'c routeRule list"
  rc_defaultAction :: string
  rc_defaultUpstreamID :: string

record ('c, 'r) datasetQuery =
  dq_reference :: 'r
  dq_classification :: 'c
  dq_domain :: string
  dq_address :: string

record 'r datasetResponse =
  dsr_ok :: bool
  dsr_matches :: "bool list"
  dsr_reference :: 'r

record ('c, 'r) routeLib =
  rl_net :: netLib
  rl_unicodeLower :: "string \<Rightarrow> string"
  rl_addr6String :: "wire \<Rightarrow> string \<Rightarrow> string"
  rl_endpointOk :: "string \<Rightarrow> int \<Rightarrow> bool"
  rl_policyIdentityOk :: "string \<Rightarrow> bool"
  rl_classificationOk :: "'c \<Rightarrow> bool"
  rl_isDomain :: "'c \<Rightarrow> bool"
  rl_className :: "'c \<Rightarrow> string"
  rl_versionDigest :: "'r \<Rightarrow> string"
  rl_zeroReference :: 'r

text \<open>The client of the dataset service: resolving a source and asking about a target.\<close>

record ('c, 'r) datasetClient =
  dc_resolve :: "nat \<Rightarrow> string \<Rightarrow> 'r option"
  dc_query :: "nat \<Rightarrow> ('c, 'r) datasetQuery \<Rightarrow> 'r datasetResponse option"

record ('c, 'r) routeSnapshot =
  rsn_configuration :: "'c routing"
  rsn_references :: "string \<Rightarrow> 'r option"
  rsn_datasets :: "('c, 'r) datasetClient option"

record routeDecision =
  rd_action :: string
  rd_ruleID :: string
  rd_upstream :: "ssUpstream option"
  rd_versionDigest :: string

definition zeroDecision :: routeDecision where
  "zeroDecision = \<lparr> rd_action = [], rd_ruleID = [], rd_upstream = None, rd_versionDigest = [] \<rparr>"

record routeStatus =
  rt_ruleID :: string
  rt_sourceID :: string
  rt_classification :: string
  rt_versionDigest :: string
  rt_action :: string
  rt_exit :: string
  rt_domainSource :: string
  rt_failure :: string

definition RouteDirect :: string where "RouteDirect = ''direct''"
definition RouteReject :: string where "RouteReject = ''reject''"
definition RouteUpstream :: string where "RouteUpstream = ''upstream''"
definition MaxRouteUpstreams :: nat where "MaxRouteUpstreams = 16"
definition MaxRouteRules :: nat where "MaxRouteRules = 64"

lemma route_actions [simp]:
  "RouteUpstream \<noteq> RouteDirect" "RouteUpstream \<noteq> RouteReject" "RouteDirect \<noteq> RouteUpstream" "RouteReject \<noteq> RouteUpstream"
  "RouteDirect \<noteq> []"
  by (simp_all add: RouteDirect_def RouteReject_def RouteUpstream_def)

section \<open>Validation\<close>

text \<open>\<^verbatim>\<open>refPattern\<close> of \<^verbatim>\<open>model.go\<close>: \<^verbatim>\<open>^[a-z0-9][a-z0-9._:/-]{0,127}$\<close>.\<close>

definition refFirst :: "char \<Rightarrow> bool" where
  "refFirst c \<longleftrightarrow> (let n = (of_char c :: nat) in 97 \<le> n \<and> n \<le> 122 \<or> 48 \<le> n \<and> n \<le> 57)"

definition refPattern :: "string \<Rightarrow> bool" where
  "refPattern s \<longleftrightarrow> s \<noteq> [] \<and> refFirst (hd s) \<and> length (tl s) \<le> 127
     \<and> list_all (\<lambda>c. refFirst c \<or> c \<in> set ''._:/-'') (tl s)"

definition effectiveDefault :: "'c routing \<Rightarrow> string" where
  "effectiveDefault cfg = (if rc_defaultAction cfg = [] then RouteDirect else rc_defaultAction cfg)"

definition validateRouteAction :: "string \<Rightarrow> string \<Rightarrow> (string \<Rightarrow> ssUpstream option) \<Rightarrow> unit ss" where
  "validateRouteAction action upstreamID upstreams =
     (if action = RouteDirect \<or> action = RouteReject then if upstreamID \<noteq> [] then Err ErrInvalid else Ok ()
      else if action = RouteUpstream then if upstreams upstreamID = None then Err ErrRouteUpstreamUnavailable else Ok ()
      else Err ErrInvalid)"

definition upstreamOk :: "('c, 'r) routeLib \<Rightarrow> ssUpstream \<Rightarrow> bool" where
  "upstreamOk lib u \<longleftrightarrow> refPattern (su_id u) \<and> rl_endpointOk lib (su_host u) (su_port u) \<and> SupportedMethod (su_method u)
     \<and> refPattern (su_secretRef u) \<and> refPattern (su_secretVersion u) \<and> (su_tcp u \<or> su_udp u)"

fun validateRouteUpstreams :: "('c, 'r) routeLib \<Rightarrow> ssUpstream list \<Rightarrow> (string \<Rightarrow> ssUpstream option) \<Rightarrow> (string \<Rightarrow> ssUpstream option) ss" where
  "validateRouteUpstreams lib [] upstreams = Ok upstreams"
| "validateRouteUpstreams lib (u # us) upstreams =
     (if \<not> upstreamOk lib u then Err ErrInvalid
      else if upstreams (su_id u) \<noteq> None then Err ErrInvalid
      else validateRouteUpstreams lib us (upstreams(su_id u \<mapsto> u)))"

fun validateRules :: "('c, 'r) routeLib \<Rightarrow> (string \<Rightarrow> ssUpstream option) \<Rightarrow> 'c routeRule list \<Rightarrow> string list \<Rightarrow> unit ss" where
  "validateRules lib upstreams [] seen = Ok ()"
| "validateRules lib upstreams (r # rs) seen =
     (if \<not> refPattern (rul_id r) \<or> rul_id r \<in> set seen \<or> \<not> rl_policyIdentityOk lib (rul_sourceID r)
        \<or> \<not> rl_classificationOk lib (rul_classification r) then Err ErrInvalid
      else rbind (validateRouteAction (rul_action r) (rul_upstreamID r) upstreams) (\<lambda>_.
        validateRules lib upstreams rs (rul_id r # seen)))"

definition routingValidate :: "('c, 'r) routeLib \<Rightarrow> 'c routing \<Rightarrow> unit ss" where
  "routingValidate lib cfg =
     (if length (rc_upstreams cfg) > MaxRouteUpstreams \<or> length (rc_rules cfg) > MaxRouteRules then Err ErrInvalid
      else rbind (validateRouteUpstreams lib (rc_upstreams cfg) (\<lambda>_. None)) (\<lambda>upstreams.
        rbind (validateRules lib upstreams (rc_rules cfg) []) (\<lambda>_.
          validateRouteAction (effectiveDefault cfg) (rc_defaultUpstreamID cfg) upstreams)))"

section \<open>Snapshots\<close>

definition cloneRouting :: "'c routing \<Rightarrow> 'c routing" where
  "cloneRouting cfg = cfg\<lparr> rc_defaultAction := if rc_defaultAction cfg = [] then RouteDirect else rc_defaultAction cfg \<rparr>"

fun resolveRules ::
  "('c, 'r) datasetClient \<Rightarrow> nat \<Rightarrow> 'c routeRule list \<Rightarrow> (string \<Rightarrow> 'r option) \<Rightarrow> (string \<Rightarrow> 'r option) ss" where
  "resolveRules client n [] refs = Ok refs"
| "resolveRules client n (r # rs) refs =
     (if refs (rul_sourceID r) \<noteq> None then resolveRules client n rs refs
      else case dc_resolve client n (rul_sourceID r) of None \<Rightarrow> Err ErrRouteDatasetUnavailable
        | Some reference \<Rightarrow> resolveRules client (n + 1) rs (refs(rul_sourceID r \<mapsto> reference)))"

definition prepareRouteSnapshot ::
  "('c, 'r) routeLib \<Rightarrow> 'c routing \<Rightarrow> ('c, 'r) datasetClient option \<Rightarrow> ('c, 'r) routeSnapshot ss" where
  "prepareRouteSnapshot lib cfg client =
     rbind (routingValidate lib cfg) (\<lambda>_.
       let snapshot = \<lparr> rsn_configuration = cloneRouting cfg, rsn_references = (\<lambda>_. None), rsn_datasets = client \<rparr> in
       if length (rc_rules cfg) = 0 then Ok snapshot
       else case client of None \<Rightarrow> Err ErrRouteDatasetUnavailable
         | Some cl \<Rightarrow> rbind (resolveRules cl 0 (rc_rules cfg) (\<lambda>_. None)) (\<lambda>refs. Ok (snapshot\<lparr> rsn_references := refs \<rparr>)))"

definition snapshotUpstream :: "('c, 'r) routeSnapshot \<Rightarrow> string \<Rightarrow> ssUpstream option" where
  "snapshotUpstream snapshot ident =
     List.find (\<lambda>u. su_id u = ident \<and> su_enabled u) (rc_upstreams (rsn_configuration snapshot))"

definition supportsProtocol :: "ssUpstream \<Rightarrow> string \<Rightarrow> bool" where
  "supportsProtocol u protocol \<longleftrightarrow> protocol = ''tcp'' \<and> su_tcp u \<or> protocol = ''udp'' \<and> su_udp u"

section \<open>Decisions\<close>

definition addrString :: "('c, 'r) routeLib \<Rightarrow> netAddr \<Rightarrow> string" where
  "addrString lib a = (case a of V4 b \<Rightarrow> ipv4String b | V6 b zone \<Rightarrow> rl_addr6String lib b zone)"

definition referenceOf :: "('c, 'r) routeLib \<Rightarrow> ('c, 'r) routeSnapshot \<Rightarrow> 'c routeRule \<Rightarrow> 'r" where
  "referenceOf lib snapshot rule =
     (case rsn_references snapshot (rul_sourceID rule) of Some r \<Rightarrow> r | None \<Rightarrow> rl_zeroReference lib)"

text \<open>What a rule asks about a host, when the rule is about names like it; \<open>None\<close> is \<^verbatim>\<open>continue\<close>.\<close>

definition ruleQuery :: "('c, 'r) routeLib \<Rightarrow> ('c, 'r) routeSnapshot \<Rightarrow> string \<Rightarrow> 'c routeRule \<Rightarrow> ('c, 'r) datasetQuery option" where
  "ruleQuery lib snapshot host rule =
     (let isDomain = rl_isDomain lib (rul_classification rule); address = parseAddr (rl_net lib) host;
          request = \<lparr> dq_reference = referenceOf lib snapshot rule, dq_classification = rul_classification rule,
            dq_domain = [], dq_address = [] \<rparr> in
      if isDomain = (address \<noteq> None) then None
      else if isDomain then Some (request\<lparr> dq_domain := toLower (rl_unicodeLower lib) host \<rparr>)
      else Some (request\<lparr> dq_address := addrString lib (the address) \<rparr>))"

text \<open>The decision and the error that is returned with it. A panic is the use of a client that is not there.\<close>

fun decideRules ::
  "('c, 'r) routeLib \<Rightarrow> ('c, 'r) routeSnapshot \<Rightarrow> string \<Rightarrow> string \<Rightarrow> nat \<Rightarrow> 'c routeRule list \<Rightarrow> (routeDecision \<times> ss_error option) ss" where
  "decideRules lib snapshot protocol host n [] =
     (let cfg = rsn_configuration snapshot; action = effectiveDefault cfg in
      if action = RouteUpstream then
        (case snapshotUpstream snapshot (rc_defaultUpstreamID cfg) of
           Some u \<Rightarrow> if supportsProtocol u protocol then Ok (zeroDecision\<lparr> rd_action := action, rd_upstream := Some u \<rparr>, None)
             else Ok (zeroDecision, Some ErrRouteUpstreamUnavailable)
         | None \<Rightarrow> Ok (zeroDecision, Some ErrRouteUpstreamUnavailable))
      else Ok (zeroDecision\<lparr> rd_action := action \<rparr>, None))"
| "decideRules lib snapshot protocol host n (rule # rules) =
     (case ruleQuery lib snapshot host rule of None \<Rightarrow> decideRules lib snapshot protocol host n rules
      | Some request \<Rightarrow>
        (case rsn_datasets snapshot of None \<Rightarrow> Panic
         | Some client \<Rightarrow>
           (let unavailable = Ok (zeroDecision\<lparr> rd_ruleID := rul_id rule, rd_versionDigest := rl_versionDigest lib (dq_reference request) \<rparr>,
              Some ErrRouteDatasetUnavailable) in
            case dc_query client n request of None \<Rightarrow> unavailable
            | Some response \<Rightarrow>
              if \<not> dsr_ok response \<or> length (dsr_matches response) \<noteq> 1 then unavailable
              else if \<not> hd (dsr_matches response) then decideRules lib snapshot protocol host (n + 1) rules
              else let decision = zeroDecision\<lparr> rd_action := rul_action rule, rd_ruleID := rul_id rule,
                     rd_versionDigest := rl_versionDigest lib (dsr_reference response) \<rparr> in
                if rul_action rule = RouteUpstream then
                  (case snapshotUpstream snapshot (rul_upstreamID rule) of
                     Some u \<Rightarrow> if supportsProtocol u protocol then Ok (decision\<lparr> rd_upstream := Some u \<rparr>, None)
                       else Ok (decision, Some ErrRouteUpstreamUnavailable)
                   | None \<Rightarrow> Ok (decision, Some ErrRouteUpstreamUnavailable))
                else Ok (decision, None))))"

definition decide ::
  "('c, 'r) routeLib \<Rightarrow> ('c, 'r) routeSnapshot option \<Rightarrow> string \<Rightarrow> string \<Rightarrow> (routeDecision \<times> ss_error option) ss" where
  "decide lib snapshot protocol target =
     (case snapshot of None \<Rightarrow> Ok (zeroDecision\<lparr> rd_action := RouteDirect \<rparr>, None)
      | Some snapshot \<Rightarrow>
        (case splitHostPort target of None \<Rightarrow> Ok (zeroDecision, Some ErrInvalid)
         | Some (host, _) \<Rightarrow>
           decideRules lib snapshot protocol (trimBrackets host) 0 (rc_rules (rsn_configuration snapshot))))"

definition ruleStatus :: "('c, 'r) routeLib \<Rightarrow> ('c, 'r) routeSnapshot \<Rightarrow> 'c routeRule \<Rightarrow> routeStatus" where
  "ruleStatus lib snapshot rule =
     \<lparr> rt_ruleID = rul_id rule, rt_sourceID = rul_sourceID rule, rt_classification = rl_className lib (rul_classification rule),
       rt_versionDigest = rl_versionDigest lib (referenceOf lib snapshot rule), rt_action = rul_action rule,
       rt_exit = (if rul_action rule = RouteUpstream then rul_upstreamID rule else rul_action rule), rt_domainSource = ''none'',
       rt_failure = (if rul_action rule = RouteUpstream then
           (case snapshotUpstream snapshot (rul_upstreamID rule) of None \<Rightarrow> ''upstream-disabled-or-missing''
            | Some u \<Rightarrow> if \<not> su_tcp u \<and> \<not> su_udp u then ''protocol-unsupported'' else [])
         else []) \<rparr>"

definition statuses :: "('c, 'r) routeLib \<Rightarrow> ('c, 'r) routeSnapshot option \<Rightarrow> routeStatus list" where
  "statuses lib snapshot =
     (case snapshot of None \<Rightarrow> [] | Some s \<Rightarrow> map (ruleStatus lib s) (rc_rules (rsn_configuration s)))"

section \<open>The first match wins\<close>

text \<open>What the dataset service says about the rule at a position: the specification of a decision.\<close>

datatype verdict = NotAsked | Unmatched | Matched | Unavailable

definition ruleVerdict :: "('c, 'r) routeLib \<Rightarrow> ('c, 'r) routeSnapshot \<Rightarrow> string \<Rightarrow> nat \<Rightarrow> 'c routeRule list \<Rightarrow> nat \<Rightarrow> verdict" where
  "ruleVerdict lib snapshot host n rules i =
     (case ruleQuery lib snapshot host (rules ! i) of None \<Rightarrow> NotAsked
      | Some request \<Rightarrow>
        let asked = n + length (filter (\<lambda>r. ruleQuery lib snapshot host r \<noteq> None) (take i rules)) in
        (case dc_query (the (rsn_datasets snapshot)) asked request of None \<Rightarrow> Unavailable
         | Some response \<Rightarrow>
           if \<not> dsr_ok response \<or> length (dsr_matches response) \<noteq> 1 then Unavailable
           else if hd (dsr_matches response) then Matched else Unmatched))"

definition decidingRules :: "('c, 'r) routeLib \<Rightarrow> ('c, 'r) routeSnapshot \<Rightarrow> string \<Rightarrow> nat \<Rightarrow> 'c routeRule list \<Rightarrow> nat list" where
  "decidingRules lib snapshot host n rules =
     filter (\<lambda>i. ruleVerdict lib snapshot host n rules i \<in> {Matched, Unavailable}) [0..<length rules]"

text \<open>A decision without an error names an exit that is usable.\<close>

definition usableExit :: "'c routing \<Rightarrow> string \<Rightarrow> string \<Rightarrow> routeDecision \<Rightarrow> bool" where
  "usableExit cfg protocol ident d \<longleftrightarrow>
     (if rd_action d = RouteUpstream
      then \<exists>u. rd_upstream d = Some u \<and> u \<in> set (rc_upstreams cfg) \<and> su_id u = ident \<and> su_enabled u \<and> supportsProtocol u protocol
      else rd_action d \<in> {RouteDirect, RouteReject} \<and> rd_upstream d = None)"

text \<open>
  The first rule with a verdict decides: an unavailable dataset is an error of that rule, a match has the action of the
  rule or the error that its upstream is not usable. Without such a rule the default decides.
\<close>

definition firstMatchDecides ::
  "('c, 'r) routeLib \<Rightarrow> ('c, 'r) routeSnapshot \<Rightarrow> string \<Rightarrow> string \<Rightarrow> nat \<Rightarrow> 'c routeRule list \<Rightarrow> routeDecision \<Rightarrow> ss_error option \<Rightarrow> bool" where
  "firstMatchDecides lib snapshot protocol host n rules d e \<longleftrightarrow>
     (let cfg = rsn_configuration snapshot in
      case decidingRules lib snapshot host n rules of
        [] \<Rightarrow> rd_ruleID d = [] \<and>
          (if e = None then rd_action d = effectiveDefault cfg \<and> usableExit cfg protocol (rc_defaultUpstreamID cfg) d
           else e = Some ErrRouteUpstreamUnavailable)
      | i # _ \<Rightarrow> rd_ruleID d = rul_id (rules ! i) \<and>
          (if ruleVerdict lib snapshot host n rules i = Unavailable then e = Some ErrRouteDatasetUnavailable
           else rd_action d = rul_action (rules ! i) \<and>
             (if e = None then usableExit cfg protocol (rul_upstreamID (rules ! i)) d else e = Some ErrRouteUpstreamUnavailable)))"

lemma verdict_Suc:
  "ruleVerdict lib snapshot host n (r # rs) (Suc i) =
    ruleVerdict lib snapshot host (n + (if ruleQuery lib snapshot host r = None then 0 else 1)) rs i"
  by (simp add: ruleVerdict_def Let_def split: option.splits)

lemma decidingRules_Cons:
  "decidingRules lib snapshot host n (r # rs) =
    (if ruleVerdict lib snapshot host n (r # rs) 0 \<in> {Matched, Unavailable} then [0] else [])
      @ map Suc (decidingRules lib snapshot host (n + (if ruleQuery lib snapshot host r = None then 0 else 1)) rs)"
proof -
  have "[0..<length (r # rs)] = 0 # map Suc [0..<length rs]" by (simp add: upt_conv_Cons map_Suc_upt del: upt_Suc)
  then show ?thesis by (simp add: decidingRules_def filter_map comp_def verdict_Suc del: upt_Suc)
qed

lemma verdict_0:
  "ruleVerdict lib snapshot host n (r # rs) 0 =
    (case ruleQuery lib snapshot host r of None \<Rightarrow> NotAsked
     | Some request \<Rightarrow>
       (case dc_query (the (rsn_datasets snapshot)) n request of None \<Rightarrow> Unavailable
        | Some response \<Rightarrow>
          if \<not> dsr_ok response \<or> length (dsr_matches response) \<noteq> 1 then Unavailable
          else if hd (dsr_matches response) then Matched else Unmatched))"
  by (simp add: ruleVerdict_def Let_def split: option.splits)

lemma snapshotUpstream_Some:
  "snapshotUpstream snapshot ident = Some u \<Longrightarrow> u \<in> set (rc_upstreams (rsn_configuration snapshot)) \<and> su_id u = ident \<and> su_enabled u"
  by (auto simp: snapshotUpstream_def find_Some_iff)

text \<open>The actions that validation lets through.\<close>

definition validAction :: "string \<Rightarrow> bool" where
  "validAction action \<longleftrightarrow> action \<in> {RouteDirect, RouteReject, RouteUpstream}"

lemma validateRouteAction_Ok: "validateRouteAction action ident upstreams = Ok () \<Longrightarrow> validAction action"
  by (auto simp: validateRouteAction_def validAction_def split: if_splits)

lemma validateRules_Ok:
  "validateRules lib upstreams rules seen = Ok () \<Longrightarrow> list_all (\<lambda>r. validAction (rul_action r)) rules"
proof (induction rules arbitrary: seen)
  case (Cons r rules)
  then show ?case
    by (cases "validateRouteAction (rul_action r) (rul_upstreamID r) upstreams") (auto split: if_splits dest: validateRouteAction_Ok)
qed simp

lemma routingValidate_Ok:
  assumes "routingValidate lib cfg = Ok ()"
  shows "list_all (\<lambda>r. validAction (rul_action r)) (rc_rules cfg)" and "validAction (effectiveDefault cfg)"
proof -
  obtain upstreams where u: "validateRouteUpstreams lib (rc_upstreams cfg) (\<lambda>_. None) = Ok upstreams"
    "rbind (validateRules lib upstreams (rc_rules cfg) []) (\<lambda>_.
      validateRouteAction (effectiveDefault cfg) (rc_defaultUpstreamID cfg) upstreams) = Ok ()"
    using assms by (cases "validateRouteUpstreams lib (rc_upstreams cfg) (\<lambda>_. None)") (auto simp: routingValidate_def split: if_splits)
  then have "validateRules lib upstreams (rc_rules cfg) [] = Ok ()"
    by (cases "validateRules lib upstreams (rc_rules cfg) []") auto
  with u(2) show "list_all (\<lambda>r. validAction (rul_action r)) (rc_rules cfg)" and "validAction (effectiveDefault cfg)"
    using validateRules_Ok validateRouteAction_Ok by auto
qed

lemma resolveRules_Ok:
  "resolveRules client n rules refs = Ok refs' \<Longrightarrow>
    (\<forall>x r. refs x = Some r \<longrightarrow> refs' x = Some r) \<and> list_all (\<lambda>r. refs' (rul_sourceID r) \<noteq> None) rules
    \<and> (\<forall>x r. refs' x = Some r \<longrightarrow> refs x = Some r \<or> (\<exists>m. dc_resolve client m x = Some r))"
proof (induction client n rules refs rule: resolveRules.induct)
  case (2 client n r rs refs)
  show ?case
  proof (cases "refs (rul_sourceID r)")
    case None
    then obtain reference where d: "dc_resolve client n (rul_sourceID r) = Some reference"
      using 2(3) by (auto split: option.splits)
    have "resolveRules client (n + 1) rs (refs(rul_sourceID r \<mapsto> reference)) = Ok refs'" using 2(3) None d by simp
    from 2(2) [OF _ d this] None d show ?thesis
      by (auto split: if_splits) (metis option.distinct(1) option.inject)+
  next
    case (Some x)
    then have "resolveRules client n rs refs = Ok refs'" using 2(3) by simp
    from 2(1) [OF _ this] Some show ?thesis by auto
  qed
qed auto

lemma decideRules_first:
  fixes snapshot :: "('c, 'r) routeSnapshot"
  assumes client: "rules \<noteq> [] \<longrightarrow> rsn_datasets snapshot \<noteq> None"
    and actions: "list_all (\<lambda>r. validAction (rul_action r)) rules" "validAction (effectiveDefault (rsn_configuration snapshot))"
  shows "case decideRules lib snapshot protocol host n rules of
    Ok (d, e) \<Rightarrow> firstMatchDecides lib snapshot protocol host n rules d e | _ \<Rightarrow> False"
  using client actions(1)
proof (induction rules arbitrary: n)
  case Nil
  then show ?case
    using actions(2)
    by (auto simp: firstMatchDecides_def decidingRules_def Let_def zeroDecision_def usableExit_def validAction_def
      dest: snapshotUpstream_Some split: option.splits)
next
  case (Cons rule rules)
  let ?m = "n + (if ruleQuery lib snapshot host rule = None then 0 else 1)"
  obtain client where c: "rsn_datasets snapshot = Some client" using Cons(2) by auto
  have IH: "case decideRules lib snapshot protocol host ?m rules of
    Ok (d, e) \<Rightarrow> firstMatchDecides lib snapshot protocol host ?m rules d e | _ \<Rightarrow> False"
    using Cons(1) [of ?m] Cons(3) c by simp
  show ?case
  proof (cases "ruleVerdict lib snapshot host n (rule # rules) 0 \<in> {Matched, Unavailable}")
    case True
    then show ?thesis
      using Cons(3) unfolding firstMatchDecides_def decidingRules_Cons
      by (auto simp: verdict_0 c zeroDecision_def usableExit_def validAction_def Let_def dest: snapshotUpstream_Some
        split: option.splits if_splits)
  next
    case False
    then have step: "decideRules lib snapshot protocol host n (rule # rules) = decideRules lib snapshot protocol host ?m rules"
      by (auto simp: verdict_0 c Let_def split: option.splits if_splits)
    have "decidingRules lib snapshot host n (rule # rules) = map Suc (decidingRules lib snapshot host ?m rules)"
      using False by (simp add: decidingRules_Cons)
    then have same: "firstMatchDecides lib snapshot protocol host n (rule # rules) d e
        = firstMatchDecides lib snapshot protocol host ?m rules d e" for d e
      by (cases "decidingRules lib snapshot host ?m rules") (simp_all add: firstMatchDecides_def Let_def verdict_Suc)
    show ?thesis using IH unfolding step same .
  qed
qed

lemma effectiveDefault_clone [simp]: "effectiveDefault (cloneRouting cfg) = effectiveDefault cfg"
  by (simp add: effectiveDefault_def cloneRouting_def)

lemma prepare_Ok:
  assumes "prepareRouteSnapshot lib cfg client = Ok snapshot"
  shows "routingValidate lib cfg = Ok ()" and "rsn_configuration snapshot = cloneRouting cfg" and "rsn_datasets snapshot = client"
    and "rc_rules cfg \<noteq> [] \<longrightarrow> client \<noteq> None"
    and "list_all (\<lambda>r. \<exists>m. dc_resolve (the client) m (rul_sourceID r) = Some (referenceOf lib snapshot r)) (rc_rules cfg)"
proof -
  show valid: "routingValidate lib cfg = Ok ()"
    using assms by (cases "routingValidate lib cfg") (auto simp: prepareRouteSnapshot_def)
  show "rsn_configuration snapshot = cloneRouting cfg" and "rsn_datasets snapshot = client"
    and "rc_rules cfg \<noteq> [] \<longrightarrow> client \<noteq> None"
    using assms valid by (auto simp: prepareRouteSnapshot_def Let_def split: if_splits option.splits res.splits)
  show "list_all (\<lambda>r. \<exists>m. dc_resolve (the client) m (rul_sourceID r) = Some (referenceOf lib snapshot r)) (rc_rules cfg)"
  proof (cases "rc_rules cfg = []")
    case False
    then obtain cl refs where cl: "client = Some cl" "resolveRules cl 0 (rc_rules cfg) (\<lambda>_. None) = Ok refs" "rsn_references snapshot = refs"
      using assms valid by (auto simp: prepareRouteSnapshot_def Let_def split: option.splits res.splits)
    show ?thesis using resolveRules_Ok [OF cl(2)] cl(1,3) by (fastforce simp: list_all_iff referenceOf_def)
  qed simp
qed

text \<open>
  C37. The first match wins, and nothing falls back: with a snapshot that was prepared, the decision for a target is that
  of the first rule about targets of its kind that the dataset service matches or cannot answer; the default decides
  only when every rule before it was an ordinary non-match. A decision without an error has an action of the configuration,
  and to go upstream it has an upstream that is configured, enabled and speaks the protocol. Every question is asked about the
  dataset version that was resolved when the snapshot was prepared.
\<close>

theorem route_first_match:
  assumes "prepareRouteSnapshot lib cfg client = Ok snapshot" and "splitHostPort target = Some (host, port)"
  shows "(case decide lib (Some snapshot) protocol target of
      Ok (d, e) \<Rightarrow> firstMatchDecides lib snapshot protocol (trimBrackets host) 0 (rc_rules cfg) d e | _ \<Rightarrow> False)
    \<and> rsn_configuration snapshot = cloneRouting cfg
    \<and> list_all (\<lambda>r. \<exists>m. dc_resolve (the client) m (rul_sourceID r) = Some (referenceOf lib snapshot r)) (rc_rules cfg)"
proof -
  note prepared = prepare_Ok [OF assms(1)]
  have "rc_rules (cloneRouting cfg) = rc_rules cfg" by (simp add: cloneRouting_def)
  then show ?thesis
    using decideRules_first [of "rc_rules cfg" snapshot lib protocol "trimBrackets host" 0] prepared
      routingValidate_Ok [OF prepared(1)] assms(2) by (simp add: decide_def)
qed

text \<open>Two rules: the first about addresses, the second about names, which matches and goes upstream.\<close>

definition sampleRouteLib :: "(bool, nat) routeLib" where
  "sampleRouteLib = \<lparr> rl_net = \<lparr> nl_parseIPv6 = (\<lambda>_. None), nl_ipv6String = (\<lambda>_. []) \<rparr>, rl_unicodeLower = (\<lambda>s. s),
     rl_addr6String = (\<lambda>_ _. []), rl_endpointOk = (\<lambda>_ _. True), rl_policyIdentityOk = (\<lambda>_. True), rl_classificationOk = (\<lambda>_. True),
     rl_isDomain = (\<lambda>b. b), rl_className = (\<lambda>_. ''c''), rl_versionDigest = (\<lambda>n. itoa n), rl_zeroReference = 0 \<rparr>"

definition sampleClient :: "(bool, nat) datasetClient" where
  "sampleClient = \<lparr> dc_resolve = (\<lambda>n s. Some (length s)),
     dc_query = (\<lambda>n q. Some \<lparr> dsr_ok = True, dsr_matches = [dq_domain q = ''example.com''], dsr_reference = dq_reference q \<rparr>) \<rparr>"

definition sampleRouting :: "bool routing" where
  "sampleRouting = \<lparr> rc_upstreams = [\<lparr> su_id = ''up'', su_host = ''h'', su_port = 1, su_method = ''aes-128-gcm'', su_secretRef = ''s'',
       su_secretVersion = ''v'', su_enabled = True, su_tcp = True, su_udp = False \<rparr>],
     rc_rules = [\<lparr> rul_id = ''r1'', rul_sourceID = ''ips'', rul_classification = False, rul_action = ''reject'', rul_upstreamID = [] \<rparr>,
       \<lparr> rul_id = ''r2'', rul_sourceID = ''names'', rul_classification = True, rul_action = ''upstream'', rul_upstreamID = ''up'' \<rparr>],
     rc_defaultAction = [], rc_defaultUpstreamID = [] \<rparr>"

definition sampleSnapshot :: "(bool, nat) routeSnapshot" where
  "sampleSnapshot = \<lparr> rsn_configuration = cloneRouting sampleRouting, rsn_references = [''ips'' \<mapsto> 3, ''names'' \<mapsto> 5], rsn_datasets = Some sampleClient \<rparr>"

lemma sample_snapshot: "prepareRouteSnapshot sampleRouteLib sampleRouting (Some sampleClient) = Ok sampleSnapshot"
proof -
  have "routingValidate sampleRouteLib sampleRouting = Ok ()" by code_simp
  then show ?thesis
    by (simp add: prepareRouteSnapshot_def Let_def sampleSnapshot_def) (simp add: sampleRouting_def sampleClient_def eval_nat_numeral)
qed

theorem route_first_match_witness:
  "prepareRouteSnapshot sampleRouteLib sampleRouting (Some sampleClient) = Ok sampleSnapshot
    \<and> splitHostPort ''example.com:443'' = Some (''example.com'', ''443'')
    \<and> (case decide sampleRouteLib (Some sampleSnapshot) ''tcp'' ''example.com:443'' of
        Ok (d, e) \<Rightarrow> firstMatchDecides sampleRouteLib sampleSnapshot ''tcp'' ''example.com'' 0 (rc_rules sampleRouting) d e
          \<and> rd_ruleID d = ''r2'' \<and> e = None
      | _ \<Rightarrow> False)"
proof -
  have host: "splitHostPort ''example.com:443'' = Some (''example.com'', ''443'')" "trimBrackets ''example.com'' = ''example.com''" by code_simp+
  have "case decide sampleRouteLib (Some sampleSnapshot) ''tcp'' ''example.com:443'' of
      Ok (d, e) \<Rightarrow> rd_ruleID d = ''r2'' \<and> e = None | _ \<Rightarrow> False" by code_simp
  then show ?thesis
    using route_first_match [OF sample_snapshot host(1), of "''tcp''"] sample_snapshot host by (auto split: res.splits)
qed

end
