(* ===== verification/Spec2Isabelle.thy ===== *)
theory Spec2Isabelle
  imports Go_Prelude Go_Strings Go_Base64 Go_Net Doh_Query Doh_Http Doh_Response Doh_Cache Doh_Upstreams
    Doh_Service Doh_Lifecycle Go_State Docker_Model Docker_Store Docker_Rollout Docker_Traces
    L4_Model L4_Service L4_Effects L4_Recovery L4_Catalog L4_Guarantee L4_Progress L4_Page
    SS_Blake3 SS_Protocol SS_Roundtrip SS_Sniff SS_Stream SS_Routing
begin

text \<open>
  A verification development for the Go plugins under \<^verbatim>\<open>src/plugins/\<close>: the DNS over HTTPS
  service of \<^verbatim>\<open>doh\<close>.
\<close>

end
